(* ===== verification/Prelude.thy ===== *)
theory Prelude
  imports Main "HOL-Library.Word" "HOL-Library.Monad_Syntax" "HOL-Library.AList"
begin

text \<open>
  Shared vocabulary of the development.

  Go's fixed-width integers are words: \<open>u8\<close> is a byte, \<open>u64\<close> is
  \<^verbatim>\<open>uint64\<close> and \<open>uintptr\<close> on a 64-bit target, and
  \<open>i64\<close> is \<^verbatim>\<open>int64\<close> or \<^verbatim>\<open>int\<close>, read in two's
  complement with \<^const>\<open>sint\<close>.  The conversions
  \<^verbatim>\<open>uint64(x)\<close> and \<^verbatim>\<open>int64(x)\<close> keep the bits and are the
  identity here.  A Go string is a sequence of bytes, a \<^typ>\<open>string\<close>.

  A Go function that can panic (an index or a slice out of range) returns an
  \<^typ>\<open>'a option\<close> and \<^const>\<open>None\<close> is the panic; an error
  result is a value of a sum type, \<^const>\<open>Inl\<close> the error.

  The named collection \<open>pb_simps\<close> gathers the rewrite rules that say what
  the encoder's operations append to the buffer; the component theories add to it.
\<close>

unbundle bit_operations_syntax

named_theorems pb_simps

type_synonym u8 = "8 word"
type_synonym u64 = "64 word"
type_synonym i64 = "64 word"
type_synonym uintptr = "64 word"

section \<open>Definitions\<close>

subsection \<open>Go slices\<close>

text \<open>\<^verbatim>\<open>s[lo:hi]\<close> for bounds in range.\<close>

definition gslice :: "nat \<Rightarrow> nat \<Rightarrow> 'a list \<Rightarrow> 'a list" where
  "gslice lo hi xs = take (hi - lo) (drop lo xs)"

text \<open>
  \<^verbatim>\<open>copy(dst[off:], src)\<close>: the built-in copies
  \<^verbatim>\<open>min(len(dst)-off, len(src))\<close> elements and behaves as if the source
  were read first, so overlapping slices are fine.
\<close>

definition copy_into :: "nat \<Rightarrow> 'a list \<Rightarrow> 'a list \<Rightarrow> 'a list" where
  "copy_into off src dst =
     take off dst @ take (length dst - off) src @ drop (off + length src) dst"

subsection \<open>Bytes of a string\<close>

definition byte_of :: "char \<Rightarrow> u8" where
  "byte_of c = word_of_nat (of_char c)"

definition bytes_of :: "string \<Rightarrow> u8 list" where
  "bytes_of s = map byte_of s"

definition string_of_bytes :: "u8 list \<Rightarrow> string" where
  "string_of_bytes bs = map (\<lambda>b. char_of (unat b)) bs"

section \<open>Lemmas\<close>

subsection \<open>Slices and copies\<close>

lemma length_copy_into [simp]: "off \<le> length dst \<Longrightarrow> length (copy_into off src dst) = length dst"
  by (simp add: copy_into_def)

lemma gslice_append_right [simp]: "gslice (length xs) (length xs + length ys) (xs @ ys) = ys"
  by (simp add: gslice_def)

text \<open>
  Three copies rotate a suffix to the front: the block \<open>h\<close> written after
  \<open>b\<close> ends up between \<open>a\<close> and \<open>b\<close>.
\<close>

lemma copy_into_rotate:
  "copy_into (length a) h (copy_into (length a + length h) b (a @ b @ h)) = a @ h @ b"
  by (simp add: copy_into_def)

subsection \<open>Strings and bytes\<close>

lemma unat_byte_of [simp]: "unat (byte_of c) = of_char c"
proof -
  have "of_char c < (256 :: nat)"
    by simp
  then show ?thesis
    unfolding byte_of_def by (simp add: unat_of_nat)
qed

lemma length_bytes_of [simp]: "length (bytes_of s) = length s"
  by (simp add: bytes_of_def)

lemma string_of_bytes_of [simp]: "string_of_bytes (bytes_of s) = s"
  by (simp add: string_of_bytes_def bytes_of_def comp_def)

lemma inj_bytes_of [simp]: "bytes_of s = bytes_of t \<longleftrightarrow> s = t"
  by (metis string_of_bytes_of)

lemma bytes_of_append [simp]: "bytes_of (s @ t) = bytes_of s @ bytes_of t"
  by (simp add: bytes_of_def)

subsection \<open>Machine words\<close>

lemma unat_u64_less: "unat (x :: u64) < 2 ^ 64"
  using unsigned_less [of x] by simp

lemma unat_shift7: "unat (drop_bit 7 (x :: u64)) = unat x div 128"
  by (simp add: drop_bit_eq_div unat_div)

lemma unat_push_bit_3: "unat (t :: u64) < 2 ^ 61 \<Longrightarrow> unat (push_bit 3 t) = 8 * unat t"
  by (simp add: push_bit_eq_mult unat_word_ariths)

lemma unat_push_bit_3_or_2:
  assumes "unat (t :: u64) < 2 ^ 61"
  shows "unat (push_bit 3 t OR 2) = 8 * unat t + 2"
proof -
  have "push_bit 3 t + 2 = push_bit 3 t OR 2"
    by (rule disjunctive_add) (auto simp: bit_simps)
  moreover have "unat (push_bit 3 t + 2) = 8 * unat t + 2"
    using assms by (simp add: push_bit_eq_mult unat_word_ariths)
  ultimately show ?thesis
    by simp
qed

lemma bit_0x80: "bit (0x80 :: u8) n \<longleftrightarrow> n = 7"
proof -
  have p: "(0x80 :: u8) = push_bit 7 1"
    by simp
  show ?thesis
    unfolding p bit_push_bit_iff bit_1_iff by auto
qed

text \<open>Setting the continuation bit of the low byte is adding 128 to the low seven bits.\<close>

lemma ucast_or_0x80: "(ucast (x :: u64) :: u8) OR 0x80 = word_of_nat (128 + unat x mod 128)"
proof -
  let ?t = "take_bit 7 (ucast x :: u8)"
  have "(word_of_nat (128 + unat x mod 128) :: u8) = 128 + word_of_nat (take_bit 7 (unat x))"
    by (simp add: take_bit_eq_mod)
  also have "(word_of_nat (take_bit 7 (unat x)) :: u8) = ?t"
    by (rule bit_word_eqI) (auto simp: bit_simps)
  also have "128 + ?t = 128 OR ?t"
    by (rule disjunctive_add) (simp only: bit_0x80 bit_take_bit_iff, auto)
  also have "\<dots> = ucast x OR 0x80"
    by (rule bit_word_eqI) (simp only: bit_0x80 bit_or_iff bit_take_bit_iff, auto)
  finally show ?thesis
    by simp
qed

lemma ucast_small: "unat (x :: u64) < 128 \<Longrightarrow> (ucast x :: u8) = word_of_nat (unat x)"
  by (simp add: unsigned_of_nat)

lemma unat_byte_high: "unat (word_of_nat (128 + n mod 128) :: u8) = 128 + n mod 128"
  by (simp only: unat_of_nat) simp

lemma unat_word_of_nat_u64: "unat (word_of_nat n :: u64) = n mod 2 ^ 64"
  by (simp add: unat_of_nat)

end
