(* ===== verification/ProfMap.thy ===== *)
theory ProfMap
  imports Prelude
begin

text \<open>
  The hash map of \<^verbatim>\<open>godeltaprof/internal/pprof/map.go\<close>, which keeps a pair
  of accumulated and previous values per (stack, tag).

  The Go map points at entries and at stack words that are carved out of slabs
  (\<^verbatim>\<open>free\<close>, \<^verbatim>\<open>freeStk\<close>), links entries with equal hash through
  \<^verbatim>\<open>nextHash\<close> and moves an entry that was found to the front of its chain.
  The model keeps both heaps explicitly: an entry and a stack word have addresses,
  \<^verbatim>\<open>make\<close> takes fresh addresses from a break pointer, a slice is a first
  address and a length.  Walking a chain is a \<^theory_text>\<open>partial_function\<close>: it
  returns \<^const>\<open>None\<close> if it runs forever.

  Under the invariant \<open>pm_inv\<close> (chains are finite and without repetition,
  every chain holds the keys of its hash, slabs do not overlap) the structure is a
  finite map from keys to values, \<open>pm_abs\<close>: \<open>Lookup\<close> returns the
  entry of its key and adds a zero entry if there is none.  The locale
  \<open>prof_map\<close> states this contract for the delta profilers.
\<close>

section \<open>State\<close>

record ('p, 'a) profMapEntry =
  pe_nextHash :: "nat option"
  pe_stk :: "nat \<times> nat"
  pe_tag :: uintptr
  pe_prev :: 'p
  pe_acc :: 'a

record ('p, 'a) profMap =
  pm_hash :: "(u64 \<rightharpoonup> nat) option"
  pm_free :: "nat \<times> nat"
  pm_freeStk :: "nat \<times> nat"
  pm_entries :: "nat \<Rightarrow> ('p, 'a) profMapEntry"
  pm_brk :: nat
  pm_words :: "nat \<Rightarrow> uintptr"
  pm_wbrk :: nat

text \<open>The zero entry of Go: its pointers are nil, its values the zeros of their types.\<close>

definition zero_entry :: "'p \<times> 'a \<Rightarrow> ('p, 'a) profMapEntry" where
  "zero_entry z = \<lparr>pe_nextHash = None, pe_stk = (0, 0), pe_tag = 0, pe_prev = fst z, pe_acc = snd z\<rparr>"

definition pm_empty :: "'p \<times> 'a \<Rightarrow> ('p, 'a) profMap" where
  "pm_empty z = \<lparr>pm_hash = None, pm_free = (0, 0), pm_freeStk = (0, 0),
     pm_entries = (\<lambda>_. zero_entry z), pm_brk = 0, pm_words = (\<lambda>_. 0), pm_wbrk = 0\<rparr>"

section \<open>Lookup\<close>

definition hash_rot :: "u64 \<Rightarrow> u64" where
  "hash_rot h = push_bit 8 h OR drop_bit (8 * (8 - 1)) h"

definition hash_add :: "u64 \<Rightarrow> uintptr \<Rightarrow> u64" where
  "hash_add h x = hash_rot h + x * 41"

definition stk_hash :: "uintptr list \<Rightarrow> uintptr \<Rightarrow> u64" where
  "stk_hash stk tag = hash_add (foldl hash_add 0 stk) tag"

text \<open>Reading a nil Go map gives the zero value, here the nil pointer.\<close>

definition pm_hash_get :: "('p, 'a) profMap \<Rightarrow> u64 \<Rightarrow> nat option" where
  "pm_hash_get m h = (case pm_hash m of None \<Rightarrow> None | Some t \<Rightarrow> t h)"

definition pm_hash_set :: "u64 \<Rightarrow> nat \<Rightarrow> ('p, 'a) profMap \<Rightarrow> ('p, 'a) profMap" where
  "pm_hash_set h a m =
     m\<lparr>pm_hash := Some ((case pm_hash m of None \<Rightarrow> Map.empty | Some t \<Rightarrow> t)(h \<mapsto> a))\<rparr>"

definition pm_stk :: "('p, 'a) profMap \<Rightarrow> nat \<Rightarrow> uintptr list" where
  "pm_stk m a =
     (let (off, n) = pe_stk (pm_entries m a) in map (pm_words m) [off ..< off + n])"

text \<open>
  The loop labelled \<^verbatim>\<open>Search\<close>: \<^term>\<open>Some None\<close> when the
  chain ends without a match, \<open>Some (Some (last, e))\<close> for the first
  match \<^verbatim>\<open>e\<close> and the entry before it.
\<close>

partial_function (option) pm_search ::
  "('p, 'a) profMap \<Rightarrow> uintptr list \<Rightarrow> uintptr \<Rightarrow> nat option \<Rightarrow> nat option \<Rightarrow>
   (nat option \<times> nat) option option" where
  "pm_search m stk tag lst e =
     (case e of
        None \<Rightarrow> Some None
      | Some a \<Rightarrow>
          (if snd (pe_stk (pm_entries m a)) \<noteq> length stk \<or> pe_tag (pm_entries m a) \<noteq> tag
           then pm_search m stk tag (Some a) (pe_nextHash (pm_entries m a))
           else if pm_stk m a \<noteq> stk
           then pm_search m stk tag (Some a) (pe_nextHash (pm_entries m a))
           else Some (Some (lst, a))))"

definition pm_set_next :: "nat \<Rightarrow> nat option \<Rightarrow> ('p, 'a) profMap \<Rightarrow> ('p, 'a) profMap" where
  "pm_set_next a p m =
     m\<lparr>pm_entries := (pm_entries m)(a := (pm_entries m a)\<lparr>pe_nextHash := p\<rparr>)\<rparr>"

text \<open>Move to the front: three pointer writes, in the order of the code.\<close>

definition pm_move_front :: "u64 \<Rightarrow> nat option \<Rightarrow> nat \<Rightarrow> ('p, 'a) profMap \<Rightarrow> ('p, 'a) profMap" where
  "pm_move_front h lst e m =
     (case lst of
        None \<Rightarrow> m
      | Some l \<Rightarrow>
          (let m1 = pm_set_next l (pe_nextHash (pm_entries m e)) m;
               m2 = pm_set_next e (pm_hash_get m1 h) m1
           in pm_hash_set h e m2))"

text \<open>\<^verbatim>\<open>make([]profMapEntry[PREV, ACC], 128)\<close> and \<^verbatim>\<open>make([]uintptr, 1024)\<close>.\<close>

definition pm_grow :: "'p \<times> 'a \<Rightarrow> ('p, 'a) profMap \<Rightarrow> ('p, 'a) profMap" where
  "pm_grow z m =
     (if snd (pm_free m) < 1 then
        m\<lparr>pm_free := (pm_brk m, 128),
          pm_entries := (\<lambda>a. if pm_brk m \<le> a \<and> a < pm_brk m + 128 then zero_entry z else pm_entries m a),
          pm_brk := pm_brk m + 128\<rparr>
      else m)"

definition pm_growStk :: "nat \<Rightarrow> ('p, 'a) profMap \<Rightarrow> ('p, 'a) profMap" where
  "pm_growStk n m =
     (if snd (pm_freeStk m) < n then
        m\<lparr>pm_freeStk := (pm_wbrk m, 1024),
          pm_words := (\<lambda>i. if pm_wbrk m \<le> i \<and> i < pm_wbrk m + 1024 then 0 else pm_words m i),
          pm_wbrk := pm_wbrk m + 1024\<rparr>
      else m)"

definition pm_copy_words :: "nat \<Rightarrow> uintptr list \<Rightarrow> ('p, 'a) profMap \<Rightarrow> ('p, 'a) profMap" where
  "pm_copy_words off xs m =
     m\<lparr>pm_words := (\<lambda>i. if off \<le> i \<and> i < off + length xs then xs ! (i - off) else pm_words m i)\<rparr>"

definition pm_add :: "'p \<times> 'a \<Rightarrow> uintptr list \<Rightarrow> uintptr \<Rightarrow> u64 \<Rightarrow> ('p, 'a) profMap \<Rightarrow>
    (nat \<times> ('p, 'a) profMap) option" where
  "pm_add z stk tag h m =
     (let m1 = pm_grow z m;
          e = fst (pm_free m1);
          m2 = m1\<lparr>pm_free := (e + 1, snd (pm_free m1) - 1)\<rparr>;
          m3 = m2\<lparr>pm_entries := (pm_entries m2)(e := (pm_entries m2 e)
                 \<lparr>pe_nextHash := pm_hash_get m2 h, pe_tag := tag\<rparr>)\<rparr>;
          m4 = pm_growStk (length stk) m3;
          (off, n) = pm_freeStk m4
      in if n < length stk then None
         else
           (let m5 = m4\<lparr>pm_entries := (pm_entries m4)(e := (pm_entries m4 e)
                       \<lparr>pe_stk := (off, length stk)\<rparr>),
                     pm_freeStk := (off + length stk, n - length stk)\<rparr>;
                m6 = pm_copy_words off stk m5
            in Some (e, pm_hash_set h e m6)))"

definition Lookup :: "'p \<times> 'a \<Rightarrow> uintptr list \<Rightarrow> uintptr \<Rightarrow> ('p, 'a) profMap \<Rightarrow>
    (nat \<times> ('p, 'a) profMap) option" where
  "Lookup z stk tag m =
     (let h = stk_hash stk tag in
      case pm_search m stk tag None (pm_hash_get m h) of
        None \<Rightarrow> None
      | Some (Some (lst, e)) \<Rightarrow> Some (e, pm_move_front h lst e m)
      | Some None \<Rightarrow> pm_add z stk tag h m)"

text \<open>Reading and writing the values of the entry a lookup returned.\<close>

definition pm_get :: "nat \<Rightarrow> ('p, 'a) profMap \<Rightarrow> 'p \<times> 'a" where
  "pm_get a m = (pe_prev (pm_entries m a), pe_acc (pm_entries m a))"

definition pm_put :: "nat \<Rightarrow> 'p \<times> 'a \<Rightarrow> ('p, 'a) profMap \<Rightarrow> ('p, 'a) profMap" where
  "pm_put a v m =
     m\<lparr>pm_entries := (pm_entries m)(a := (pm_entries m a)\<lparr>pe_prev := fst v, pe_acc := snd v\<rparr>)\<rparr>"

section \<open>Invariant and abstraction\<close>

fun chain :: "(nat \<Rightarrow> ('p, 'a) profMapEntry) \<Rightarrow> nat option \<Rightarrow> nat list \<Rightarrow> bool" where
  "chain f p [] = (p = None)"
| "chain f p (x # xs) = (p = Some x \<and> chain f (pe_nextHash (f x)) xs)"

definition pm_keyof :: "('p, 'a) profMap \<Rightarrow> nat \<Rightarrow> uintptr list \<times> uintptr" where
  "pm_keyof m a = (pm_stk m a, pe_tag (pm_entries m a))"

definition pm_bucket_ok :: "('p, 'a) profMap \<Rightarrow> u64 \<Rightarrow> nat list \<Rightarrow> bool" where
  "pm_bucket_ok m h xs \<longleftrightarrow>
     chain (pm_entries m) (pm_hash_get m h) xs \<and> distinct (map (pm_keyof m) xs) \<and>
     (\<forall>a \<in> set xs. (\<lambda>(s, t). stk_hash s t) (pm_keyof m a) = h \<and> a < fst (pm_free m) \<and>
        fst (pe_stk (pm_entries m a)) + snd (pe_stk (pm_entries m a)) \<le> fst (pm_freeStk m))"

definition pm_slabs_ok :: "'p \<times> 'a \<Rightarrow> ('p, 'a) profMap \<Rightarrow> bool" where
  "pm_slabs_ok z m \<longleftrightarrow>
     fst (pm_free m) + snd (pm_free m) = pm_brk m \<and>
     fst (pm_freeStk m) + snd (pm_freeStk m) = pm_wbrk m \<and>
     snd (pm_freeStk m) \<le> 1024 \<and>
     (\<forall>a. fst (pm_free m) \<le> a \<and> a < pm_brk m \<longrightarrow> pm_entries m a = zero_entry z)"

definition pm_inv :: "'p \<times> 'a \<Rightarrow> ('p, 'a) profMap \<Rightarrow> bool" where
  "pm_inv z m \<longleftrightarrow> pm_slabs_ok z m \<and> (\<forall>h. \<exists>xs. pm_bucket_ok m h xs)"

definition pm_addr :: "('p, 'a) profMap \<Rightarrow> uintptr list \<times> uintptr \<Rightarrow> nat option" where
  "pm_addr m k =
     (case pm_search m (fst k) (snd k) None (pm_hash_get m (stk_hash (fst k) (snd k))) of
        Some (Some (lst, a)) \<Rightarrow> Some a
      | _ \<Rightarrow> None)"

definition pm_abs :: "('p, 'a) profMap \<Rightarrow> uintptr list \<times> uintptr \<rightharpoonup> 'p \<times> 'a" where
  "pm_abs m k = map_option (\<lambda>a. pm_get a m) (pm_addr m k)"

section \<open>Walking a chain\<close>

lemma length_pm_stk [simp]: "length (pm_stk m a) = snd (pe_stk (pm_entries m a))"
  by (simp add: pm_stk_def split: prod.split)

fun search_list :: "('p, 'a) profMap \<Rightarrow> uintptr list \<times> uintptr \<Rightarrow> nat option \<Rightarrow> nat list \<Rightarrow>
    (nat option \<times> nat) option" where
  "search_list m k lst [] = None"
| "search_list m k lst (x # xs) =
     (if pm_keyof m x = k then Some (lst, x) else search_list m k (Some x) xs)"

lemma pm_search_chain:
  "chain (pm_entries m) p xs \<Longrightarrow> pm_search m stk tag lst p = Some (search_list m (stk, tag) lst xs)"
proof (induction xs arbitrary: p lst)
  case Nil
  then show ?case
    by (simp add: pm_search.simps)
next
  case (Cons x xs)
  then have p: "p = Some x" and c: "chain (pm_entries m) (pe_nextHash (pm_entries m x)) xs"
    by simp_all
  have "pm_stk m x = stk \<Longrightarrow> snd (pe_stk (pm_entries m x)) = length stk"
    by (metis length_pm_stk)
  with p Cons.IH [OF c] show ?case
    by (subst pm_search.simps) (auto simp: pm_keyof_def)
qed

lemma search_list_Some:
  "search_list m k lst xs = Some (l, a) \<Longrightarrow>
   \<exists>ys zs. xs = ys @ a # zs \<and> pm_keyof m a = k \<and> l = (if ys = [] then lst else Some (last ys))"
proof (induction xs arbitrary: lst)
  case (Cons x xs)
  show ?case
  proof (cases "pm_keyof m x = k")
    case True
    with Cons.prems show ?thesis
      by (intro exI [of _ "[]"] exI [of _ xs]) simp
  next
    case False
    with Cons.prems have "search_list m k (Some x) xs = Some (l, a)"
      by simp
    from Cons.IH [OF this] obtain ys zs where "xs = ys @ a # zs" "pm_keyof m a = k"
      "l = (if ys = [] then Some x else Some (last ys))"
      by blast
    then show ?thesis
      by (intro exI [of _ "x # ys"] exI [of _ zs]) auto
  qed
qed simp

lemma search_list_None: "search_list m k lst xs = None \<longleftrightarrow> (\<forall>x \<in> set xs. pm_keyof m x \<noteq> k)"
  by (induction xs arbitrary: lst) auto

lemma chain_cong:
  "(\<And>x. x \<in> set xs \<Longrightarrow> pe_nextHash (g x) = pe_nextHash (f x)) \<Longrightarrow> chain g p xs = chain f p xs"
  by (induction xs arbitrary: p) auto

lemma chain_unlink:
  assumes "chain f p (ws @ l # e # zs)" and "distinct (ws @ l # e # zs)"
    and "\<And>x. x \<in> set ws \<union> set zs \<Longrightarrow> pe_nextHash (g x) = pe_nextHash (f x)"
    and "pe_nextHash (g l) = pe_nextHash (f e)"
  shows "chain g p (ws @ l # zs)"
  using assms
proof (induction ws arbitrary: p)
  case Nil
  then show ?case
    using chain_cong [of zs g f] by auto
qed simp

lemma pm_addr_iff:
  assumes "pm_bucket_ok m (stk_hash (fst k) (snd k)) xs"
  shows "pm_addr m k = Some a \<longleftrightarrow> a \<in> set xs \<and> pm_keyof m a = k"
proof -
  let ?s = "search_list m k None xs"
  have ok: "chain (pm_entries m) (pm_hash_get m (stk_hash (fst k) (snd k))) xs"
    and inj: "inj_on (pm_keyof m) (set xs)"
    using assms by (auto simp: pm_bucket_ok_def distinct_map)
  have addr: "pm_addr m k = map_option snd ?s"
    by (simp add: pm_addr_def pm_search_chain [OF ok] split: option.split prod.split)
  show ?thesis
  proof (cases ?s)
    case None
    with addr show ?thesis
      by (simp add: search_list_None)
  next
    case (Some la)
    obtain l b where "la = (l, b)"
      by fastforce
    with Some search_list_Some [of m k None xs l b]
    have "b \<in> set xs" "pm_keyof m b = k"
      by auto
    with addr Some \<open>la = (l, b)\<close> inj show ?thesis
      by (auto dest: inj_onD)
  qed
qed

lemma pm_addr_keyof:
  assumes "pm_inv z m" and "pm_addr m k = Some a"
  shows "pm_keyof m a = k"
  using assms pm_addr_iff [of m k] unfolding pm_inv_def by metis

section \<open>A key that is present: move to front\<close>

lemma pm_set_next_sel [simp]:
  "pm_hash (pm_set_next a p m) = pm_hash m"
  "pm_free (pm_set_next a p m) = pm_free m"
  "pm_freeStk (pm_set_next a p m) = pm_freeStk m"
  "pm_brk (pm_set_next a p m) = pm_brk m"
  "pm_wbrk (pm_set_next a p m) = pm_wbrk m"
  "pm_words (pm_set_next a p m) = pm_words m"
  "pm_hash_get (pm_set_next a p m) = pm_hash_get m"
  "pm_stk (pm_set_next a p m) = pm_stk m"
  "pe_stk (pm_entries (pm_set_next a p m) b) = pe_stk (pm_entries m b)"
  "pe_tag (pm_entries (pm_set_next a p m) b) = pe_tag (pm_entries m b)"
  "pm_get b (pm_set_next a p m) = pm_get b m"
  "pe_nextHash (pm_entries (pm_set_next a p m) b) = (if b = a then p else pe_nextHash (pm_entries m b))"
  by (auto simp: pm_set_next_def pm_hash_get_def pm_stk_def pm_get_def fun_eq_iff)

lemma pm_hash_set_sel [simp]:
  "pm_free (pm_hash_set h a m) = pm_free m"
  "pm_freeStk (pm_hash_set h a m) = pm_freeStk m"
  "pm_brk (pm_hash_set h a m) = pm_brk m"
  "pm_wbrk (pm_hash_set h a m) = pm_wbrk m"
  "pm_words (pm_hash_set h a m) = pm_words m"
  "pm_entries (pm_hash_set h a m) = pm_entries m"
  "pm_stk (pm_hash_set h a m) = pm_stk m"
  "pm_get b (pm_hash_set h a m) = pm_get b m"
  "pm_hash_get (pm_hash_set h a m) g = (if g = h then Some a else pm_hash_get m g)"
  by (auto simp: pm_hash_set_def pm_hash_get_def pm_stk_def pm_get_def fun_eq_iff split: option.split)

lemma pm_move_front_sel [simp]:
  "pm_free (pm_move_front h l e m) = pm_free m"
  "pm_freeStk (pm_move_front h l e m) = pm_freeStk m"
  "pm_brk (pm_move_front h l e m) = pm_brk m"
  "pm_wbrk (pm_move_front h l e m) = pm_wbrk m"
  "pm_keyof (pm_move_front h l e m) = pm_keyof m"
  "pm_get b (pm_move_front h l e m) = pm_get b m"
  "pe_stk (pm_entries (pm_move_front h l e m) b) = pe_stk (pm_entries m b)"
  by (auto simp: pm_move_front_def pm_keyof_def Let_def fun_eq_iff split: option.split)

lemma pm_move_front_chain:
  assumes ok: "pm_bucket_ok m h (ys @ a # zs)"
    and l: "lst = (if ys = [] then None else Some (last ys))"
  shows "chain (pm_entries (pm_move_front h lst a m)) (pm_hash_get (pm_move_front h lst a m) h)
           (a # ys @ zs)"
proof (cases ys rule: rev_cases)
  case Nil
  with assms show ?thesis
    by (simp add: pm_move_front_def pm_bucket_ok_def)
next
  case (snoc ws y)
  let ?m = "pm_move_front h lst a m"
  have c: "chain (pm_entries m) (pm_hash_get m h) (ws @ y # a # zs)"
    and d: "distinct (ws @ y # a # zs)"
    using ok snoc by (auto simp: pm_bucket_ok_def simp: distinct_map)
  have "chain (pm_entries ?m) (pm_hash_get m h) (ws @ y # zs)"
    by (rule chain_unlink [OF c d])
      (use snoc l d in \<open>auto simp: pm_move_front_def Let_def\<close>)
  with snoc l d show ?thesis
    by (simp add: pm_move_front_def Let_def)
qed

lemma pm_move_front_other:
  assumes "pm_bucket_ok m g xs" and "g \<noteq> h" and "a \<notin> set xs" and "\<And>l. lst = Some l \<Longrightarrow> l \<notin> set xs"
  shows "chain (pm_entries (pm_move_front h lst a m)) (pm_hash_get (pm_move_front h lst a m) g) xs"
proof (cases lst)
  case None
  with assms show ?thesis
    by (simp add: pm_move_front_def pm_bucket_ok_def)
next
  case (Some l)
  have "chain (pm_entries (pm_move_front h lst a m)) (pm_hash_get m g) xs =
      chain (pm_entries m) (pm_hash_get m g) xs"
    by (rule chain_cong) (use assms Some in \<open>auto simp: pm_move_front_def Let_def\<close>)
  then have "chain (pm_entries (pm_move_front h lst a m)) (pm_hash_get m g) xs"
    using assms(1) by (simp add: pm_bucket_ok_def)
  with assms(2) Some show ?thesis
    by (simp add: pm_move_front_def Let_def)
qed

lemma pm_move_front_entries:
  "b \<noteq> a \<Longrightarrow> lst \<noteq> Some b \<Longrightarrow> pm_entries (pm_move_front h lst a m) b = pm_entries m b"
  by (auto simp: pm_move_front_def pm_set_next_def Let_def split: option.split)

lemma pm_move_front_buckets:
  assumes inv: "pm_inv z m" and ok: "pm_bucket_ok m h (ys @ a # zs)"
    and l: "lst = (if ys = [] then None else Some (last ys))"
  shows "\<exists>xs xs'. pm_bucket_ok m g xs \<and> pm_bucket_ok (pm_move_front h lst a m) g xs' \<and> set xs' = set xs"
proof (cases "g = h")
  case True
  have "pm_bucket_ok (pm_move_front h lst a m) h (a # ys @ zs)"
    using ok pm_move_front_chain [OF ok l] unfolding pm_bucket_ok_def by auto
  with True ok show ?thesis
    by (intro exI [of _ "ys @ a # zs"] exI [of _ "a # ys @ zs"]) auto
next
  case False
  obtain xs where xs: "pm_bucket_ok m g xs"
    using inv unfolding pm_inv_def by blast
  have disj: "x \<notin> set xs" if "x \<in> set (ys @ a # zs)" for x
    using that ok xs False unfolding pm_bucket_ok_def by fastforce
  have "chain (pm_entries (pm_move_front h lst a m)) (pm_hash_get (pm_move_front h lst a m) g) xs"
    by (rule pm_move_front_other) (use xs False disj l in \<open>auto split: if_splits\<close>)
  with xs have "pm_bucket_ok (pm_move_front h lst a m) g xs"
    unfolding pm_bucket_ok_def by auto
  with xs show ?thesis
    by blast
qed

lemma pm_move_front_ok:
  assumes inv: "pm_inv z m" and ok: "pm_bucket_ok m h (ys @ a # zs)"
    and l: "lst = (if ys = [] then None else Some (last ys))"
  shows "pm_inv z (pm_move_front h lst a m)" and "pm_addr (pm_move_front h lst a m) = pm_addr m"
proof -
  let ?m = "pm_move_front h lst a m"
  note buckets = pm_move_front_buckets [OF inv ok l]
  have "x < fst (pm_free m)" if "x \<in> set (ys @ a # zs)" for x
    using that ok unfolding pm_bucket_ok_def by blast
  then have "b \<noteq> a \<and> lst \<noteq> Some b" if "fst (pm_free m) \<le> b" for b
    using that l last_in_set [of ys] by (metis Un_iff leD list.set_intros(1) option.distinct(1)
        option.inject set_append)
  then have "pm_slabs_ok z ?m"
    using inv by (simp add: pm_inv_def pm_slabs_ok_def pm_move_front_entries)
  then show "pm_inv z ?m"
    using buckets unfolding pm_inv_def by blast
  show "pm_addr ?m = pm_addr m"
  proof
    fix k
    obtain xs xs' where "pm_bucket_ok m (stk_hash (fst k) (snd k)) xs"
      "pm_bucket_ok ?m (stk_hash (fst k) (snd k)) xs'" "set xs' = set xs"
      using buckets by blast
    then have "pm_addr ?m k = Some b \<longleftrightarrow> pm_addr m k = Some b" for b
      by (simp add: pm_addr_iff)
    then show "pm_addr ?m k = pm_addr m k"
      by (metis option.exhaust)
  qed
qed

section \<open>A key that is absent: a fresh entry\<close>

lemma pm_add_panics:
  "1024 < length stk \<Longrightarrow> snd (pm_freeStk m) < length stk \<Longrightarrow> pm_add z stk tag h m = None"
  by (simp add: pm_add_def Let_def pm_growStk_def pm_grow_def)

lemma pm_grow_sel:
  assumes "pm_slabs_ok z m"
  shows "fst (pm_free (pm_grow z m)) = fst (pm_free m)" and "1 \<le> snd (pm_free (pm_grow z m))"
    and "pm_slabs_ok z (pm_grow z m)" and "pm_hash (pm_grow z m) = pm_hash m"
    and "pm_freeStk (pm_grow z m) = pm_freeStk m" and "pm_words (pm_grow z m) = pm_words m"
    and "b < fst (pm_free m) \<Longrightarrow> pm_entries (pm_grow z m) b = pm_entries m b"
    and "pm_entries (pm_grow z m) (fst (pm_free m)) = zero_entry z"
  using assms by (auto simp: pm_grow_def pm_slabs_ok_def)

lemma pm_growStk_sel:
  assumes "pm_slabs_ok z m"
  shows "fst (pm_freeStk m) \<le> fst (pm_freeStk (pm_growStk n m))"
    and "n \<le> 1024 \<Longrightarrow> n \<le> snd (pm_freeStk (pm_growStk n m))"
    and "pm_slabs_ok z (pm_growStk n m)" and "pm_hash (pm_growStk n m) = pm_hash m"
    and "pm_free (pm_growStk n m) = pm_free m" and "pm_brk (pm_growStk n m) = pm_brk m"
    and "pm_entries (pm_growStk n m) = pm_entries m"
    and "i < fst (pm_freeStk m) \<Longrightarrow> pm_words (pm_growStk n m) i = pm_words m i"
  using assms by (auto simp: pm_growStk_def pm_slabs_ok_def)

text \<open>The state \<^verbatim>\<open>pm_add\<close> reaches, field by field.\<close>

lemma pm_add_effect:
  assumes slabs: "pm_slabs_ok z m" and len: "length stk \<le> 1024"
  obtains m' off where "pm_add z stk tag h m = Some (fst (pm_free m), m')"
    and "\<And>g. pm_hash_get m' g = (if g = h then Some (fst (pm_free m)) else pm_hash_get m g)"
    and "\<And>b. b < fst (pm_free m) \<Longrightarrow> pm_entries m' b = pm_entries m b"
    and "pm_entries m' (fst (pm_free m)) =
      \<lparr>pe_nextHash = pm_hash_get m h, pe_stk = (off, length stk), pe_tag = tag,
       pe_prev = fst z, pe_acc = snd z\<rparr>"
    and "fst (pm_free m') = Suc (fst (pm_free m))" and "pm_slabs_ok z m'"
    and "fst (pm_freeStk m) \<le> off" and "fst (pm_freeStk m') = off + length stk"
    and "\<And>i. i < fst (pm_freeStk m) \<Longrightarrow> pm_words m' i = pm_words m i"
    and "\<And>j. j < length stk \<Longrightarrow> pm_words m' (off + j) = stk ! j"
proof -
  let ?e = "fst (pm_free m)"
  define m1 where "m1 = pm_grow z m"
  note g1 = pm_grow_sel [OF slabs, folded m1_def]
  define m3 where "m3 = m1\<lparr>pm_free := (?e + 1, snd (pm_free m1) - 1),
      pm_entries := (pm_entries m1)(?e := (pm_entries m1 ?e)
        \<lparr>pe_nextHash := pm_hash_get m h, pe_tag := tag\<rparr>)\<rparr>"
  have s3: "pm_slabs_ok z m3"
    using g1 by (auto simp: m3_def pm_slabs_ok_def)
  define m4 where "m4 = pm_growStk (length stk) m3"
  note g4 = pm_growStk_sel [OF s3, where n = "length stk", folded m4_def]
  obtain off n where off: "pm_freeStk m4 = (off, n)"
    by fastforce
  then have n: "length stk \<le> n"
    using g4(2) len by simp
  define m6 where "m6 = pm_copy_words off stk (m4\<lparr>pm_entries := (pm_entries m4)(?e := (pm_entries m4 ?e)
        \<lparr>pe_stk := (off, length stk)\<rparr>), pm_freeStk := (off + length stk, n - length stk)\<rparr>)"
  have hg: "pm_hash_get m6 = pm_hash_get m"
    using g1 g4 by (simp add: m6_def pm_copy_words_def pm_hash_get_def m3_def fun_eq_iff)
  have hg1: "pm_hash_get m1 = pm_hash_get m"
    using g1 by (simp add: pm_hash_get_def fun_eq_iff)
  have eq: "pm_add z stk tag h m = Some (?e, pm_hash_set h ?e m6)"
    using g1 n off hg1
    by (simp add: pm_add_def Let_def m1_def [symmetric] pm_hash_get_def m6_def m4_def m3_def split: prod.split)
  show thesis
    by (rule that [of "pm_hash_set h ?e m6" off, OF eq])
      (use g1 g4 s3 off n hg in \<open>auto simp: m6_def m3_def pm_copy_words_def pm_slabs_ok_def zero_entry_def\<close>)
qed

text \<open>The stack words of existing entries lie below the free slab, so no later copy reaches them.\<close>

lemma pm_keyof_frame:
  assumes "pm_entries m' a = pm_entries m a"
    and "\<And>i. i < w \<Longrightarrow> pm_words m' i = pm_words m i"
    and "fst (pe_stk (pm_entries m a)) + snd (pe_stk (pm_entries m a)) \<le> w"
  shows "pm_keyof m' a = pm_keyof m a"
  using assms by (auto simp: pm_keyof_def pm_stk_def split: prod.split)

lemma pm_bucket_frame:
  assumes ok: "pm_bucket_ok m g xs"
    and entries: "\<And>b. b < fst (pm_free m) \<Longrightarrow> pm_entries m' b = pm_entries m b"
    and words: "\<And>i. i < fst (pm_freeStk m) \<Longrightarrow> pm_words m' i = pm_words m i"
    and free: "fst (pm_free m) \<le> fst (pm_free m')"
    and freeStk: "fst (pm_freeStk m) \<le> fst (pm_freeStk m')"
  shows "chain (pm_entries m') (pm_hash_get m g) xs"
    and "distinct (map (pm_keyof m') xs)"
    and "a \<in> set xs \<Longrightarrow> pm_keyof m' a = pm_keyof m a"
    and "a \<in> set xs \<Longrightarrow> a < fst (pm_free m) \<and> a < fst (pm_free m') \<and>
        fst (pe_stk (pm_entries m' a)) + snd (pe_stk (pm_entries m' a)) \<le> fst (pm_freeStk m')"
proof -
  have old: "pm_entries m' a = pm_entries m a" if "a \<in> set xs" for a
    using that ok entries unfolding pm_bucket_ok_def by blast
  then have "chain (pm_entries m') (pm_hash_get m g) xs = chain (pm_entries m) (pm_hash_get m g) xs"
    by (intro chain_cong) simp
  with ok show "chain (pm_entries m') (pm_hash_get m g) xs"
    by (simp add: pm_bucket_ok_def)
  have key: "pm_keyof m' a = pm_keyof m a" if "a \<in> set xs" for a
    using that ok unfolding pm_bucket_ok_def
    by (intro pm_keyof_frame [OF old words]) auto
  then show "a \<in> set xs \<Longrightarrow> pm_keyof m' a = pm_keyof m a" .
  have "map (pm_keyof m') xs = map (pm_keyof m) xs"
    using key by simp
  with ok show "distinct (map (pm_keyof m') xs)"
    by (simp only: pm_bucket_ok_def)
  assume "a \<in> set xs"
  then show "a < fst (pm_free m) \<and> a < fst (pm_free m') \<and>
        fst (pe_stk (pm_entries m' a)) + snd (pe_stk (pm_entries m' a)) \<le> fst (pm_freeStk m')"
    using ok old free freeStk unfolding pm_bucket_ok_def by fastforce
qed

lemma pm_add_ok:
  assumes inv: "pm_inv z m" and len: "length stk \<le> 1024"
    and absent: "pm_addr m (stk, tag) = None"
  obtains m' where "pm_add z stk tag (stk_hash stk tag) m = Some (fst (pm_free m), m')"
    and "pm_inv z m'" and "pm_addr m' = (pm_addr m)((stk, tag) \<mapsto> fst (pm_free m))"
    and "pm_get (fst (pm_free m)) m' = z"
    and "\<And>k a. pm_addr m k = Some a \<Longrightarrow> a < fst (pm_free m) \<and> pm_get a m' = pm_get a m"
proof -
  let ?e = "fst (pm_free m)" and ?h = "stk_hash stk tag"
  have slabs: "pm_slabs_ok z m" and ex: "\<And>g. \<exists>xs. pm_bucket_ok m g xs"
    using inv by (simp_all add: pm_inv_def)
  from pm_add_effect [OF slabs len, of tag ?h]
  obtain m' off where eq: "pm_add z stk tag ?h m = Some (?e, m')"
    and hg: "\<And>g. pm_hash_get m' g = (if g = ?h then Some ?e else pm_hash_get m g)"
    and old: "\<And>b. b < ?e \<Longrightarrow> pm_entries m' b = pm_entries m b"
    and new: "pm_entries m' ?e = \<lparr>pe_nextHash = pm_hash_get m ?h, pe_stk = (off, length stk),
       pe_tag = tag, pe_prev = fst z, pe_acc = snd z\<rparr>"
    and free: "fst (pm_free m') = Suc ?e" and slabs': "pm_slabs_ok z m'"
    and off: "fst (pm_freeStk m) \<le> off" "fst (pm_freeStk m') = off + length stk"
    and words: "\<And>i. i < fst (pm_freeStk m) \<Longrightarrow> pm_words m' i = pm_words m i"
      "\<And>j. j < length stk \<Longrightarrow> pm_words m' (off + j) = stk ! j"
    by metis
  have key_e: "pm_keyof m' ?e = (stk, tag)"
    by (auto simp: pm_keyof_def pm_stk_def new words intro: nth_equalityI)
  note frame = pm_bucket_frame [OF _ old words(1)]
  have keep: "pm_bucket_ok m' g xs" if ok: "pm_bucket_ok m g xs" and "g \<noteq> ?h" for g xs
    using that frame [OF ok] free off hg unfolding pm_bucket_ok_def by auto
  have add: "pm_bucket_ok m' ?h (?e # xs)" if ok: "pm_bucket_ok m ?h xs" for xs
  proof -
    have "(stk, tag) \<notin> set (map (pm_keyof m) xs)"
      using absent pm_addr_iff [of m "(stk, tag)" xs] ok by force
    then show ?thesis
      using ok frame [OF ok] free off hg new key_e unfolding pm_bucket_ok_def by auto
  qed
  have inv': "pm_inv z m'"
    using slabs' keep add ex unfolding pm_inv_def by metis
  have old_key: "pm_keyof m' a = pm_keyof m a \<and> a < ?e \<and> pm_get a m' = pm_get a m"
    if "pm_bucket_ok m g xs" and "a \<in> set xs" for g xs a
    using frame(3,4) [OF that(1), of a] that(2) free off old by (simp add: pm_get_def)
  have addr: "pm_addr m' = (pm_addr m)((stk, tag) \<mapsto> ?e)"
  proof
    fix k
    obtain xs where xs: "pm_bucket_ok m (stk_hash (fst k) (snd k)) xs"
      using ex by blast
    have "pm_addr m' k = Some b \<longleftrightarrow> ((pm_addr m)((stk, tag) \<mapsto> ?e)) k = Some b" for b
    proof (cases "stk_hash (fst k) (snd k) = ?h")
      case True
      then have "pm_addr m' k = Some b \<longleftrightarrow> b \<in> set (?e # xs) \<and> pm_keyof m' b = k"
        using add xs by (intro pm_addr_iff) simp
      with absent key_e old_key [OF xs] pm_addr_iff [OF xs] show ?thesis
        by (cases "k = (stk, tag)") auto
    next
      case False
      then have "pm_addr m' k = Some b \<longleftrightarrow> b \<in> set xs \<and> pm_keyof m' b = k"
        using keep xs by (intro pm_addr_iff) simp
      with False old_key [OF xs] pm_addr_iff [OF xs] show ?thesis
        by auto
    qed
    then show "pm_addr m' k = ((pm_addr m)((stk, tag) \<mapsto> ?e)) k"
      by (metis option.exhaust)
  qed
  have "a < ?e \<and> pm_get a m' = pm_get a m" if "pm_addr m k = Some a" for k a
    using that ex [of "stk_hash (fst k) (snd k)"] pm_addr_iff old_key by metis
  then show thesis
    using that [OF eq inv' addr] new by (simp add: pm_get_def)
qed

section \<open>Lookup is a map operation\<close>

definition entry_or :: "'v \<Rightarrow> ('k \<rightharpoonup> 'v) \<Rightarrow> 'k \<Rightarrow> 'v" where
  "entry_or z A k = (case A k of None \<Rightarrow> z | Some v \<Rightarrow> v)"

lemma Lookup_addr:
  assumes inv: "pm_inv z m" and len: "length stk \<le> 1024"
  obtains a m' where "Lookup z stk tag m = Some (a, m')" and "pm_inv z m'"
    and "pm_addr m' = (pm_addr m)((stk, tag) \<mapsto> a)"
    and "pm_get a m' = entry_or z (pm_abs m) (stk, tag)"
    and "\<And>k b. pm_addr m k = Some b \<Longrightarrow> pm_get b m' = pm_get b m"
proof -
  let ?h = "stk_hash stk tag"
  obtain xs where xs: "pm_bucket_ok m ?h xs"
    using inv unfolding pm_inv_def by blast
  have s: "pm_search m stk tag None (pm_hash_get m ?h) = Some (search_list m (stk, tag) None xs)"
    using xs by (intro pm_search_chain) (simp add: pm_bucket_ok_def)
  show thesis
  proof (cases "search_list m (stk, tag) None xs")
    case None
    then have absent: "pm_addr m (stk, tag) = None"
      by (simp add: pm_addr_def s)
    from pm_add_ok [OF inv len absent]
    obtain m' where "pm_add z stk tag ?h m = Some (fst (pm_free m), m')" "pm_inv z m'"
      "pm_addr m' = (pm_addr m)((stk, tag) \<mapsto> fst (pm_free m))" "pm_get (fst (pm_free m)) m' = z"
      "\<And>k a. pm_addr m k = Some a \<Longrightarrow> a < fst (pm_free m) \<and> pm_get a m' = pm_get a m"
      by metis
    with None s absent show ?thesis
      by (intro that [of "fst (pm_free m)" m']) (auto simp: Lookup_def Let_def entry_or_def pm_abs_def)
  next
    case (Some la)
    then obtain l a where la: "search_list m (stk, tag) None xs = Some (l, a)"
      by (cases la) simp
    from search_list_Some [OF la]
    obtain ys zs where split: "xs = ys @ a # zs" and l: "l = (if ys = [] then None else Some (last ys))"
      by blast
    have addr: "pm_addr m (stk, tag) = Some a"
      by (simp add: pm_addr_def s la)
    with pm_move_front_ok [OF inv xs [unfolded split] l] la s show ?thesis
      by (intro that [of a "pm_move_front ?h l a m"])
        (auto simp: Lookup_def Let_def entry_or_def pm_abs_def fun_upd_idem)
  qed
qed

lemma pm_put_sel [simp]:
  "pm_free (pm_put a v m) = pm_free m"
  "pm_freeStk (pm_put a v m) = pm_freeStk m"
  "pm_brk (pm_put a v m) = pm_brk m"
  "pm_wbrk (pm_put a v m) = pm_wbrk m"
  "pm_hash_get (pm_put a v m) = pm_hash_get m"
  "pm_keyof (pm_put a v m) = pm_keyof m"
  "pe_stk (pm_entries (pm_put a v m) b) = pe_stk (pm_entries m b)"
  "pe_nextHash (pm_entries (pm_put a v m) b) = pe_nextHash (pm_entries m b)"
  "pm_get b (pm_put a v m) = (if b = a then v else pm_get b m)"
  by (auto simp: pm_put_def pm_hash_get_def pm_keyof_def pm_stk_def pm_get_def fun_eq_iff)

lemma pm_bucket_ok_put: "pm_bucket_ok (pm_put a v m) h xs = pm_bucket_ok m h xs"
proof -
  have "chain (pm_entries (pm_put a v m)) p xs = chain (pm_entries m) p xs" for p
    by (rule chain_cong) simp
  then show ?thesis
    by (simp add: pm_bucket_ok_def)
qed

lemma pm_put_ok:
  assumes inv: "pm_inv z m" and addr: "pm_addr m k = Some a"
  shows "pm_inv z (pm_put a v m)" and "pm_abs (pm_put a v m) = (pm_abs m)(k \<mapsto> v)"
proof -
  obtain xs where xs: "pm_bucket_ok m (stk_hash (fst k) (snd k)) xs"
    using inv unfolding pm_inv_def by blast
  then have "a < fst (pm_free m)"
    using addr pm_addr_iff [OF xs] unfolding pm_bucket_ok_def by blast
  then have "pm_entries (pm_put a v m) b = pm_entries m b" if "fst (pm_free m) \<le> b" for b
    using that by (simp add: pm_put_def)
  then show "pm_inv z (pm_put a v m)"
    using inv by (simp add: pm_inv_def pm_bucket_ok_put pm_slabs_ok_def)
  have same: "pm_addr (pm_put a v m) = pm_addr m"
  proof
    fix j
    obtain ys where "pm_bucket_ok m (stk_hash (fst j) (snd j)) ys"
      using inv unfolding pm_inv_def by blast
    then have "pm_addr (pm_put a v m) j = Some b \<longleftrightarrow> pm_addr m j = Some b" for b
      using pm_addr_iff [of m j ys b] pm_addr_iff [of "pm_put a v m" j ys b]
      by (simp add: pm_bucket_ok_put)
    then show "pm_addr (pm_put a v m) j = pm_addr m j"
      by (metis option.exhaust)
  qed
  show "pm_abs (pm_put a v m) = (pm_abs m)(k \<mapsto> v)"
  proof
    fix j
    show "pm_abs (pm_put a v m) j = ((pm_abs m)(k \<mapsto> v)) j"
    proof (cases "j = k")
      case True
      with addr show ?thesis
        by (simp add: pm_abs_def same)
    next
      case False
      then have "pm_addr m j \<noteq> Some a"
        using addr pm_addr_keyof [OF inv] by metis
      with False show ?thesis
        by (cases "pm_addr m j") (auto simp: pm_abs_def same)
    qed
  qed
qed

lemma pm_empty_ok: "pm_inv z (pm_empty z)" and pm_abs_empty: "pm_abs (pm_empty z) = Map.empty"
proof -
  have "pm_bucket_ok (pm_empty z) h []" for h
    by (simp add: pm_bucket_ok_def pm_empty_def pm_hash_get_def)
  then show "pm_inv z (pm_empty z)"
    by (auto simp: pm_inv_def pm_slabs_ok_def pm_empty_def)
  show "pm_abs (pm_empty z) = Map.empty"
    by (rule ext) (simp add: pm_abs_def pm_addr_def pm_empty_def pm_hash_get_def pm_search.simps)
qed

section \<open>The contract for the delta profilers\<close>

text \<open>
  A range loop over records in which each record that is not skipped looks its entry
  up, computes from the entry's values and an outer state, and writes the values back.
  The outer state is the profile builder.
\<close>

fun for_each :: "('k \<Rightarrow> 'm \<Rightarrow> ('r \<times> 'm) option) \<Rightarrow> ('r \<Rightarrow> 'm \<Rightarrow> 'v) \<Rightarrow> ('r \<Rightarrow> 'v \<Rightarrow> 'm \<Rightarrow> 'm) \<Rightarrow>
    ('x \<Rightarrow> 'k option) \<Rightarrow> ('x \<Rightarrow> 'v \<Rightarrow> 'b \<Rightarrow> ('v \<times> 'b) option) \<Rightarrow> 'x list \<Rightarrow> 'm \<Rightarrow> 'b \<Rightarrow>
    ('m \<times> 'b) option" where
  "for_each lookup get put key body [] m b = Some (m, b)"
| "for_each lookup get put key body (x # xs) m b =
     (case key x of
        None \<Rightarrow> for_each lookup get put key body xs m b
      | Some k \<Rightarrow>
          (case lookup k m of
             None \<Rightarrow> None
           | Some (e, m1) \<Rightarrow>
               (case body x (get e m1) b of
                  None \<Rightarrow> None
                | Some (v, b1) \<Rightarrow> for_each lookup get put key body xs (put e v m1) b1)))"

text \<open>The same loop over an abstract map.\<close>

fun map_each :: "'v \<Rightarrow> ('x \<Rightarrow> 'k option) \<Rightarrow> ('x \<Rightarrow> 'v \<Rightarrow> 'b \<Rightarrow> ('v \<times> 'b) option) \<Rightarrow> 'x list \<Rightarrow>
    ('k \<rightharpoonup> 'v) \<Rightarrow> 'b \<Rightarrow> (('k \<rightharpoonup> 'v) \<times> 'b) option" where
  "map_each z key body [] A b = Some (A, b)"
| "map_each z key body (x # xs) A b =
     (case key x of
        None \<Rightarrow> map_each z key body xs A b
      | Some k \<Rightarrow>
          (case body x (entry_or z A k) b of
             None \<Rightarrow> None
           | Some (v, b1) \<Rightarrow> map_each z key body xs (A(k \<mapsto> v)) b1))"

locale prof_map =
  fixes lookup :: "'k \<Rightarrow> 'm \<Rightarrow> ('r \<times> 'm) option"
    and get :: "'r \<Rightarrow> 'm \<Rightarrow> 'v"
    and put :: "'r \<Rightarrow> 'v \<Rightarrow> 'm \<Rightarrow> 'm"
    and abs :: "'m \<Rightarrow> 'k \<rightharpoonup> 'v"
    and inv :: "'m \<Rightarrow> bool"
    and valid :: "'k \<Rightarrow> bool"
    and zero :: 'v
  assumes lookup_law: "inv m \<Longrightarrow> valid k \<Longrightarrow>
    \<exists>r m'. lookup k m = Some (r, m') \<and> get r m' = entry_or zero (abs m) k \<and>
      (\<forall>v. inv (put r v m') \<and> abs (put r v m') = (abs m)(k \<mapsto> v))"
begin

lemma for_each_refines:
  assumes "inv m" and "\<forall>x \<in> set xs. \<forall>k. key x = Some k \<longrightarrow> valid k"
  shows "map_option (\<lambda>(m', b'). (abs m', b')) (for_each lookup get put key body xs m b) =
      map_each zero key body xs (abs m) b"
    and "for_each lookup get put key body xs m b = Some (m', b') \<Longrightarrow> inv m'"
proof -
  have "map_option (\<lambda>(m', b'). (abs m', b')) (for_each lookup get put key body xs m b) =
      map_each zero key body xs (abs m) b \<and>
      (\<forall>m' b'. for_each lookup get put key body xs m b = Some (m', b') \<longrightarrow> inv m')"
    using assms
  proof (induction xs arbitrary: m b)
    case (Cons x xs)
    show ?case
    proof (cases "key x")
      case None
      with Cons show ?thesis
        by simp
    next
      case (Some k)
      then have "valid k"
        using Cons.prems(2) by simp
      with lookup_law [OF Cons.prems(1)] obtain r m1 where lk: "lookup k m = Some (r, m1)"
        and get: "get r m1 = entry_or zero (abs m) k"
        and put: "\<And>v. inv (put r v m1)" "\<And>v. abs (put r v m1) = (abs m)(k \<mapsto> v)"
        by blast
      show ?thesis
      proof (cases "body x (entry_or zero (abs m) k) b")
        case None
        with Some lk get show ?thesis
          by simp
      next
        case body: (Some vb)
        obtain v b1 where "vb = (v, b1)"
          by fastforce
        with body Some lk get put(2) Cons.IH [OF put(1), of v b1] Cons.prems(2) show ?thesis
          by (simp add: fun_upd_def)
      qed
    qed
  qed simp
  then show "map_option (\<lambda>(m', b'). (abs m', b')) (for_each lookup get put key body xs m b) =
      map_each zero key body xs (abs m) b"
    and "for_each lookup get put key body xs m b = Some (m', b') \<Longrightarrow> inv m'"
    by blast+
qed

lemma for_each_simulates:
  assumes "inv m" and "\<forall>x \<in> set xs. \<forall>k. key x = Some k \<longrightarrow> valid k"
    and "map_each zero key body xs (abs m) b = Some (A', b')"
  shows "\<exists>m'. for_each lookup get put key body xs m b = Some (m', b') \<and> abs m' = A' \<and> inv m'"
  using for_each_refines(1) [OF assms(1,2), of body b] for_each_refines(2) [OF assms(1,2), of body b] assms(3)
  by auto

end

interpretation pm: prof_map "\<lambda>k. Lookup z (fst k) (snd k)" pm_get pm_put pm_abs "pm_inv z"
  "\<lambda>k. length (fst k) \<le> 1024" z for z
proof
  fix m :: "('a, 'b) profMap" and k :: "uintptr list \<times> uintptr"
  assume "pm_inv z m" and "length (fst k) \<le> 1024"
  then obtain a m' where "Lookup z (fst k) (snd k) m = Some (a, m')" and inv': "pm_inv z m'"
    and addr: "pm_addr m' = (pm_addr m)(k \<mapsto> a)"
    and "pm_get a m' = entry_or z (pm_abs m) k"
    and same: "\<And>k b. pm_addr m k = Some b \<Longrightarrow> pm_get b m' = pm_get b m"
    using Lookup_addr [of z m "fst k" "snd k"] by auto
  moreover have "pm_inv z (pm_put a v m') \<and> pm_abs (pm_put a v m') = (pm_abs m)(k \<mapsto> v)" for v
  proof -
    have "((pm_abs m')(k \<mapsto> v)) j = ((pm_abs m)(k \<mapsto> v)) j" for j
      using same by (cases "pm_addr m j") (auto simp: pm_abs_def addr)
    then have "(pm_abs m')(k \<mapsto> v) = (pm_abs m)(k \<mapsto> v)"
      by blast
    then show ?thesis
      using pm_put_ok [OF inv', of k a v] addr by simp
  qed
  ultimately show "\<exists>r m'. Lookup z (fst k) (snd k) m = Some (r, m') \<and>
      pm_get r m' = entry_or z (pm_abs m) k \<and>
      (\<forall>v. pm_inv z (pm_put r v m') \<and> pm_abs (pm_put r v m') = (pm_abs m)(k \<mapsto> v))"
    by blast
qed

section \<open>Properties\<close>

text \<open>
  C5. On a well-formed map and for a stack of at most 1024 program counters,
  \<^verbatim>\<open>Lookup\<close> terminates without a panic, keeps the map well-formed, and
  is a map operation: the entry it returns holds the values stored under the key
  (zeros if there are none), the abstract map only gains that key, and assigning to
  the returned entry updates the abstract map at that key and nowhere else.
\<close>

theorem Lookup_refines_map:
  assumes "pm_inv z m" and "length stk \<le> 1024"
  shows "\<exists>a m'. Lookup z stk tag m = Some (a, m') \<and>
    pm_get a m' = entry_or z (pm_abs m) (stk, tag) \<and>
    pm_inv z m' \<and> pm_abs m' = (pm_abs m)((stk, tag) \<mapsto> entry_or z (pm_abs m) (stk, tag)) \<and>
    (\<forall>v. pm_inv z (pm_put a v m') \<and> pm_abs (pm_put a v m') = (pm_abs m)((stk, tag) \<mapsto> v))"
proof -
  obtain a m' where lk: "Lookup z stk tag m = Some (a, m')"
    and get: "pm_get a m' = entry_or z (pm_abs m) (stk, tag)"
    and put: "\<And>v. pm_inv z (pm_put a v m') \<and> pm_abs (pm_put a v m') = (pm_abs m)((stk, tag) \<mapsto> v)"
    using pm.lookup_law [of z m "(stk, tag)"] assms by auto
  have "pm_put a (pm_get a m') m' = m'"
    by (simp add: pm_put_def pm_get_def)
  with put [of "pm_get a m'"] get have "pm_inv z m'"
    and "pm_abs m' = (pm_abs m)((stk, tag) \<mapsto> entry_or z (pm_abs m) (stk, tag))"
    by simp_all
  with lk get put show ?thesis
    by blast
qed

theorem Lookup_refines_map_witness:
  "\<exists>a m'. Lookup ((0::i64), (0::i64)) [7, 9] 3 (pm_empty (0, 0)) = Some (a, m') \<and> pm_get a m' = (0, 0) \<and>
     pm_abs (pm_put a (1, 2) m') ([7, 9], 3) = Some (1, 2)"
proof -
  obtain a m' where lk: "Lookup ((0::i64), (0::i64)) [7, 9] 3 (pm_empty (0, 0)) = Some (a, m')"
    and get: "pm_get a m' = (0, 0)"
    and put: "\<And>v. pm_abs (pm_put a v m') = [([7, 9], 3) \<mapsto> v]"
    using Lookup_refines_map [OF pm_empty_ok, of "[7, 9]" "(0, 0)" 3]
    by (auto simp: pm_abs_empty entry_or_def)
  then show ?thesis
    by (intro exI [of _ a] exI [of _ m']) simp
qed

text \<open>
  A stack longer than 1024 program counters that has no entry yet does not fit a
  slab: \<^verbatim>\<open>m.freeStk[:len(stk):len(stk)]\<close> is out of range and
  \<^verbatim>\<open>Lookup\<close> panics.  (The runtime caps recorded stacks at 1024.)
\<close>

theorem Lookup_panics_on_long_stack:
  assumes "pm_inv z m" and "1024 < length stk" and "pm_abs m (stk, tag) = None"
  shows "Lookup z stk tag m = None"
proof -
  obtain xs where xs: "pm_bucket_ok m (stk_hash stk tag) xs"
    using assms(1) unfolding pm_inv_def by blast
  then have "pm_search m stk tag None (pm_hash_get m (stk_hash stk tag)) =
      Some (search_list m (stk, tag) None xs)"
    by (intro pm_search_chain) (simp add: pm_bucket_ok_def)
  moreover have "search_list m (stk, tag) None xs = None"
    using assms(3) pm_addr_iff [of m "(stk, tag)" xs] xs
    by (auto simp: search_list_None pm_abs_def)
  moreover have "pm_add z stk tag (stk_hash stk tag) m = None"
    using assms(1,2) by (intro pm_add_panics) (auto simp: pm_inv_def pm_slabs_ok_def)
  ultimately show ?thesis
    by (simp add: Lookup_def Let_def)
qed

theorem Lookup_panics_on_long_stack_witness:
  "Lookup ((0::i64), (0::i64)) (replicate 1025 1) 0 (pm_empty (0, 0)) = None"
  by (rule Lookup_panics_on_long_stack [OF pm_empty_ok]) (simp_all add: pm_abs_empty)

end
