(* ===== verification/Protobuf.thy ===== *)
theory Protobuf
  imports Prelude
begin

text \<open>
  The protocol-buffer encoder of \<^verbatim>\<open>godeltaprof/internal/pprof/protobuf.go\<close>.

  The record \<open>protobuf\<close> has the fields of the Go struct; each method
  \<^verbatim>\<open>b.m\<close> is the function \<open>pb_m\<close>.  The methods that put a length
  in front of bytes already written (\<open>pb_uint64s\<close>, \<open>pb_int64s\<close>,
  \<open>pb_endMessage\<close>) move the header with three copies through the 16-byte
  array \<^verbatim>\<open>tmp\<close>; slicing \<^verbatim>\<open>tmp\<close> past its end or the data
  backwards panics, which is \<^const>\<open>None\<close>.

  The specification is the wire format itself: \<open>enc_varint\<close> and
  \<open>enc_field\<close> on natural numbers (with the length of a delimited field
  reduced to 64 bits, as \<^verbatim>\<open>uint64(len)\<close> is), and a decoder
  \<open>dec_fields\<close>.
  The lemmas show that every method appends the encoding of one field, and that
  decoding the buffer gives back the fields.
\<close>

section \<open>The encoder\<close>

record protobuf =
  pb_data :: "u8 list"
  pb_tmp :: "u8 list"
  pb_nest :: int

definition pb_empty :: protobuf where
  "pb_empty = \<lparr>pb_data = [], pb_tmp = replicate 16 0, pb_nest = 0\<rparr>"

definition pb_append :: "u8 list \<Rightarrow> protobuf \<Rightarrow> protobuf" where
  "pb_append xs b = b\<lparr>pb_data := pb_data b @ xs\<rparr>"

lemma shift7_decreases: "128 \<le> (x :: u64) \<Longrightarrow> unat (drop_bit 7 x) < unat x"
proof -
  assume "128 \<le> x"
  then have "128 \<le> unat x"
    by (simp add: word_le_nat_alt)
  then show ?thesis
    by (simp only: unat_shift7)
qed

function pb_varint :: "u64 \<Rightarrow> protobuf \<Rightarrow> protobuf" where
  "pb_varint x b =
     (if 128 \<le> x then pb_varint (drop_bit 7 x) (pb_append [ucast x OR 0x80] b)
      else pb_append [ucast x] b)"
  by pat_completeness auto
termination
  by (relation "measure (\<lambda>(x, b). unat x)") (auto simp: shift7_decreases)

declare pb_varint.simps [simp del]

definition pb_length :: "i64 \<Rightarrow> i64 \<Rightarrow> protobuf \<Rightarrow> protobuf" where
  "pb_length tag l b = pb_varint l (pb_varint (push_bit 3 tag OR 2) b)"

definition pb_uint64 :: "i64 \<Rightarrow> u64 \<Rightarrow> protobuf \<Rightarrow> protobuf" where
  "pb_uint64 tag x b = pb_varint x (pb_varint (push_bit 3 tag) b)"

text \<open>
  The tail shared by \<^verbatim>\<open>uint64s\<close>, \<^verbatim>\<open>int64s\<close> and
  \<^verbatim>\<open>endMessage\<close>: write the length header after the data from offset
  \<^verbatim>\<open>n1\<close>, then rotate it in front.
\<close>

definition pb_rotate :: "i64 \<Rightarrow> nat \<Rightarrow> protobuf \<Rightarrow> protobuf option" where
  "pb_rotate tag n1 b =
     (let n2 = length (pb_data b) in
      if n2 < n1 then None
      else
        (let b' = pb_length tag (word_of_nat (n2 - n1)) b;
             n3 = length (pb_data b');
             tmp = copy_into 0 (gslice n2 n3 (pb_data b')) (pb_tmp b');
             d = copy_into (n1 + (n3 - n2)) (gslice n1 n2 (pb_data b')) (pb_data b')
         in if length tmp < n3 - n2 then None
            else Some (b'\<lparr>pb_tmp := tmp,
                          pb_data := copy_into n1 (take (n3 - n2) tmp) d\<rparr>)))"

definition pb_uint64s :: "i64 \<Rightarrow> u64 list \<Rightarrow> protobuf \<Rightarrow> protobuf option" where
  "pb_uint64s tag xs b =
     (if 2 < length xs then pb_rotate tag (length (pb_data b)) (fold pb_varint xs b)
      else Some (fold (pb_uint64 tag) xs b))"

definition pb_uint64Opt :: "i64 \<Rightarrow> u64 \<Rightarrow> protobuf \<Rightarrow> protobuf" where
  "pb_uint64Opt tag x b = (if x = 0 then b else pb_uint64 tag x b)"

definition pb_int64 :: "i64 \<Rightarrow> i64 \<Rightarrow> protobuf \<Rightarrow> protobuf" where
  "pb_int64 tag x b = (let u = x in pb_uint64 tag u b)"

definition pb_int64Opt :: "i64 \<Rightarrow> i64 \<Rightarrow> protobuf \<Rightarrow> protobuf" where
  "pb_int64Opt tag x b = (if x = 0 then b else pb_int64 tag x b)"

definition pb_int64s :: "i64 \<Rightarrow> i64 list \<Rightarrow> protobuf \<Rightarrow> protobuf option" where
  "pb_int64s tag xs b =
     (if 2 < length xs then pb_rotate tag (length (pb_data b)) (fold pb_varint xs b)
      else Some (fold (pb_int64 tag) xs b))"

definition pb_string :: "i64 \<Rightarrow> string \<Rightarrow> protobuf \<Rightarrow> protobuf" where
  "pb_string tag x b = pb_append (bytes_of x) (pb_length tag (word_of_nat (length x)) b)"

definition pb_strings :: "i64 \<Rightarrow> string list \<Rightarrow> protobuf \<Rightarrow> protobuf" where
  "pb_strings tag xs b = fold (pb_string tag) xs b"

definition pb_bool :: "i64 \<Rightarrow> bool \<Rightarrow> protobuf \<Rightarrow> protobuf" where
  "pb_bool tag x b = (if x then pb_uint64 tag 1 b else pb_uint64 tag 0 b)"

definition pb_startMessage :: "protobuf \<Rightarrow> nat \<times> protobuf" where
  "pb_startMessage b = (length (pb_data b), b\<lparr>pb_nest := pb_nest b + 1\<rparr>)"

definition pb_endMessage :: "i64 \<Rightarrow> nat \<Rightarrow> protobuf \<Rightarrow> protobuf option" where
  "pb_endMessage tag start b =
     map_option (\<lambda>b'. b'\<lparr>pb_nest := pb_nest b' - 1\<rparr>) (pb_rotate tag start b)"

section \<open>The wire format\<close>

function enc_varint :: "nat \<Rightarrow> u8 list" where
  "enc_varint n =
     (if n < 128 then [word_of_nat n]
      else word_of_nat (128 + n mod 128) # enc_varint (n div 128))"
  by pat_completeness auto
termination
  by (relation "measure id") auto

declare enc_varint.simps [simp del]

fun dec_varint :: "u8 list \<Rightarrow> (nat \<times> u8 list) option" where
  "dec_varint [] = None"
| "dec_varint (b # bs) =
     (if unat b < 128 then Some (unat b, bs)
      else case dec_varint bs of
        None \<Rightarrow> None
      | Some (v, r) \<Rightarrow> Some (unat b - 128 + 128 * v, r))"

datatype wire_field = VarintField nat nat | LenField nat "u8 list"

fun enc_field :: "wire_field \<Rightarrow> u8 list" where
  "enc_field (VarintField t v) = enc_varint (8 * t) @ enc_varint v"
| "enc_field (LenField t bs) = enc_varint (8 * t + 2) @ enc_varint (length bs mod 2 ^ 64) @ bs"

definition enc_fields :: "wire_field list \<Rightarrow> u8 list" where
  "enc_fields fs = concat (map enc_field fs)"

lemma dec_varint_shorter: "dec_varint bs = Some (v, r) \<Longrightarrow> length r < length bs"
proof (induction bs arbitrary: v r)
  case (Cons b bs)
  then show ?case
    by (fastforce split: if_splits option.splits)
qed simp

function dec_fields :: "u8 list \<Rightarrow> wire_field list option" where
  "dec_fields bs =
     (if bs = [] then Some []
      else case dec_varint bs of
        None \<Rightarrow> None
      | Some (k, r) \<Rightarrow>
          (case dec_varint r of
             None \<Rightarrow> None
           | Some (v, r') \<Rightarrow>
               (if k mod 8 = 0 then map_option (Cons (VarintField (k div 8) v)) (dec_fields r')
                else if k mod 8 = 2 \<and> v \<le> length r' then
                  map_option (Cons (LenField (k div 8) (take v r'))) (dec_fields (drop v r'))
                else None)))"
  by pat_completeness auto
termination
proof (relation "measure length")
qed (auto dest!: dec_varint_shorter)

declare dec_fields.simps [simp del]

section \<open>Varints\<close>

lemma enc_varint_nonempty [simp]: "enc_varint n \<noteq> []"
  by (subst enc_varint.simps) simp

lemma dec_enc_varint [simp]: "dec_varint (enc_varint n @ r) = Some (n, r)"
proof (induction n rule: enc_varint.induct)
  case (1 n)
  show ?case
  proof (cases "n < 128")
    case True
    then show ?thesis
      by (subst enc_varint.simps) (simp add: unat_of_nat)
  next
    case False
    with 1 show ?thesis
      by (subst enc_varint.simps) (simp add: unat_byte_high del: of_nat_add)
  qed
qed

lemma length_enc_varint: "n < 128 ^ k \<Longrightarrow> 0 < k \<Longrightarrow> length (enc_varint n) \<le> k"
proof (induction k arbitrary: n)
  case (Suc k)
  show ?case
  proof (cases "n < 128")
    case True
    then show ?thesis
      by (subst enc_varint.simps) simp
  next
    case False
    from Suc.prems have small: "n div 128 < 128 ^ k"
      by (simp add: less_mult_imp_div_less mult.commute)
    with False have "0 < k"
      by (cases k) auto
    with small have "length (enc_varint (n div 128)) \<le> k"
      by (rule Suc.IH)
    with False show ?thesis
      by (subst enc_varint.simps) simp
  qed
qed simp

lemma length_enc_varint_u64: "length (enc_varint (unat (x :: u64))) \<le> 10"
proof -
  have "unat x < 2 ^ 64"
    by (rule unat_u64_less)
  also have "(2 :: nat) ^ 64 \<le> 128 ^ 10"
    by simp
  finally show ?thesis
    by (rule length_enc_varint) simp
qed

section \<open>What the encoder appends\<close>

lemma pb_append_sel [simp]:
  "pb_data (pb_append xs b) = pb_data b @ xs"
  "pb_tmp (pb_append xs b) = pb_tmp b"
  "pb_nest (pb_append xs b) = pb_nest b"
  by (simp_all add: pb_append_def)

lemma pb_append_append [simp]: "pb_append ys (pb_append xs b) = pb_append (xs @ ys) b"
  by (simp add: pb_append_def)

lemma pb_append_Nil [simp]: "pb_append [] b = b"
  by (simp add: pb_append_def)

lemma pb_varint_append: "pb_varint x b = pb_append (enc_varint (unat x)) b"
proof (induction x b rule: pb_varint.induct)
  case (1 x b)
  show ?case
  proof (cases "128 \<le> x")
    case True
    then have "\<not> unat x < 128"
      by (simp add: word_le_nat_alt)
    then have e: "enc_varint (unat x) = [ucast x OR 0x80] @ enc_varint (unat (drop_bit 7 x))"
      by (simp only: enc_varint.simps [of "unat x"] ucast_or_0x80 unat_shift7 if_False append.simps)
    have "pb_varint x b = pb_varint (drop_bit 7 x) (pb_append [ucast x OR 0x80] b)"
      using True by (subst pb_varint.simps) (rule if_P)
    also have "\<dots> = pb_append (enc_varint (unat x)) b"
      unfolding "1.IH" [OF True] e by (rule pb_append_append)
    finally show ?thesis .
  next
    case False
    then have small: "unat x < 128"
      by (simp add: word_le_nat_alt)
    then have "enc_varint (unat x) = [ucast x]"
      unfolding ucast_small [OF small] by (subst enc_varint.simps) (rule if_P)
    with False show ?thesis
      by (simp only: pb_varint.simps [of x] if_False)
  qed
qed

lemma pb_length_append:
  "unat tag < 2 ^ 61 \<Longrightarrow>
   pb_length tag l b = pb_append (enc_varint (8 * unat tag + 2) @ enc_varint (unat l)) b"
  by (simp add: pb_length_def pb_varint_append unat_push_bit_3_or_2)

lemma pb_uint64_append [pb_simps]:
  "unat tag < 2 ^ 61 \<Longrightarrow>
   pb_uint64 tag x b = pb_append (enc_field (VarintField (unat tag) (unat x))) b"
  by (simp add: pb_uint64_def pb_varint_append unat_push_bit_3)

lemma pb_int64_append [pb_simps]:
  "unat tag < 2 ^ 61 \<Longrightarrow>
   pb_int64 tag x b = pb_append (enc_field (VarintField (unat tag) (unat x))) b"
  by (simp add: pb_int64_def pb_uint64_append)

lemma pb_bool_append [pb_simps]:
  "unat tag < 2 ^ 61 \<Longrightarrow>
   pb_bool tag x b = pb_append (enc_field (VarintField (unat tag) (of_bool x))) b"
  by (simp add: pb_bool_def pb_uint64_append)

text \<open>The optional fields: nothing for the zero value.\<close>

definition opt_field :: "nat \<Rightarrow> nat \<Rightarrow> wire_field list" where
  "opt_field t v = (if v = 0 then [] else [VarintField t v])"

lemma pb_uint64Opt_append [pb_simps]:
  "unat tag < 2 ^ 61 \<Longrightarrow>
   pb_uint64Opt tag x b = pb_append (enc_fields (opt_field (unat tag) (unat x))) b"
  by (simp add: pb_uint64Opt_def pb_uint64_append opt_field_def enc_fields_def unat_eq_0)

lemma pb_int64Opt_append [pb_simps]:
  "unat tag < 2 ^ 61 \<Longrightarrow>
   pb_int64Opt tag x b = pb_append (enc_fields (opt_field (unat tag) (unat x))) b"
  by (simp add: pb_int64Opt_def pb_int64_append opt_field_def enc_fields_def unat_eq_0)

lemma pb_string_append [pb_simps]:
  assumes "unat tag < 2 ^ 61"
  shows "pb_string tag x b = pb_append (enc_field (LenField (unat tag) (bytes_of x))) b"
  using assms by (simp add: pb_string_def pb_length_append unat_word_of_nat_u64)

lemma enc_fields_simps [simp]:
  "enc_fields [] = []"
  "enc_fields (f # fs) = enc_field f @ enc_fields fs"
  "enc_fields (fs @ gs) = enc_fields fs @ enc_fields gs"
  by (simp_all add: enc_fields_def)

lemma pb_strings_append [pb_simps]:
  assumes "unat tag < 2 ^ 61"
  shows "pb_strings tag xs b =
    pb_append (enc_fields (map (\<lambda>x. LenField (unat tag) (bytes_of x)) xs)) b"
proof (induction xs arbitrary: b)
  case Nil
  then show ?case
    by (simp add: pb_strings_def)
next
  case (Cons x xs)
  then have "pb_strings tag (x # xs) b = pb_strings tag xs (pb_string tag x b)"
    by (simp add: pb_strings_def)
  with Cons assms show ?case
    by (simp add: pb_string_append del: enc_field.simps)
qed

subsection \<open>Length-delimited fields\<close>

text \<open>
  The rotation is correct whenever the message started inside the buffer and the
  header fits the 16 bytes of \<^verbatim>\<open>tmp\<close>, which keep a copy of the
  header afterwards.
\<close>

definition header :: "i64 \<Rightarrow> nat \<Rightarrow> u8 list" where
  "header tag n = enc_varint (8 * unat tag + 2) @ enc_varint (n mod 2 ^ 64)"

lemma pb_rotate_eq:
  assumes tag: "unat tag < 2 ^ 61" and d: "pb_data b = a @ c"
    and fits: "length (header tag (length c)) \<le> length (pb_tmp b)"
  shows "pb_rotate tag (length a) b =
    Some (b\<lparr>pb_tmp := copy_into 0 (header tag (length c)) (pb_tmp b),
            pb_data := a @ header tag (length c) @ c\<rparr>)"
proof -
  define h where "h = header tag (length c)"
  have h: "pb_length tag (word_of_nat (length c)) b = pb_append h b"
    using tag by (simp add: pb_length_append header_def h_def unat_word_of_nat_u64)
  have s1: "gslice (length a + length c) (length a + (length c + length h)) (a @ c @ h) = h"
    by (simp add: gslice_def)
  have s2: "gslice (length a) (length a + length c) (a @ c @ h) = c"
    by (simp add: gslice_def)
  have t: "take (length h) (copy_into 0 h (pb_tmp b)) = h"
    using fits by (simp add: copy_into_def h_def)
  show ?thesis
    using fits unfolding h_def [symmetric]
    by (simp add: pb_rotate_def Let_def d h s1 s2 t copy_into_rotate pb_append_def)
qed

lemma pb_rotate_panics:
  assumes tag: "unat tag < 2 ^ 61" and d: "pb_data b = a @ c"
    and long: "length (pb_tmp b) < length (header tag (length c))"
  shows "pb_rotate tag (length a) b = None"
proof -
  have "pb_length tag (word_of_nat (length c)) b = pb_append (header tag (length c)) b"
    using tag by (simp add: pb_length_append header_def unat_word_of_nat_u64)
  with long show ?thesis
    by (simp add: pb_rotate_def Let_def d)
qed

lemma length_header_small:
  assumes "unat tag < 16"
  shows "length (header tag n) \<le> 11"
proof -
  have "length (enc_varint (8 * unat tag + 2)) \<le> 1"
    by (rule length_enc_varint) (use assms in simp_all)
  moreover have "length (enc_varint (n mod 2 ^ 64)) \<le> 10"
    by (rule length_enc_varint) (auto intro: order_less_trans [OF mod_less_divisor])
  ultimately show ?thesis
    by (simp add: header_def)
qed

text \<open>
  The state after a complete message: one delimited field more, and the header in
  \<^verbatim>\<open>tmp\<close>.
\<close>

definition pb_msg :: "i64 \<Rightarrow> u8 list \<Rightarrow> protobuf \<Rightarrow> protobuf" where
  "pb_msg tag xs b =
     b\<lparr>pb_tmp := copy_into 0 (header tag (length xs)) (pb_tmp b),
       pb_data := pb_data b @ enc_field (LenField (unat tag) xs)\<rparr>"

lemma pb_msg_sel [simp]:
  "pb_data (pb_msg tag xs b) = pb_data b @ enc_field (LenField (unat tag) xs)"
  "length (pb_tmp (pb_msg tag xs b)) = length (pb_tmp b)"
  "pb_nest (pb_msg tag xs b) = pb_nest b"
  by (simp_all add: pb_msg_def)

lemma pb_rotate_msg:
  assumes "unat tag < 16" and "length (pb_tmp b) = 16"
  shows "pb_rotate tag (length (pb_data b)) (pb_append xs b) = Some (pb_msg tag xs b)"
proof -
  have "pb_rotate tag (length (pb_data b)) (pb_append xs b) =
      Some ((pb_append xs b)\<lparr>pb_tmp := copy_into 0 (header tag (length xs)) (pb_tmp (pb_append xs b)),
            pb_data := pb_data b @ header tag (length xs) @ xs\<rparr>)"
    by (rule pb_rotate_eq) (use assms length_header_small [of tag "length xs"] in simp_all)
  then show ?thesis
    by (simp add: pb_msg_def pb_append_def header_def)
qed

lemma pb_endMessage_msg [pb_simps]:
  assumes "unat tag < 16" and "length (pb_tmp b) = 16"
  shows "pb_endMessage tag (length (pb_data b)) (pb_append xs (b\<lparr>pb_nest := pb_nest b + 1\<rparr>)) =
    Some (pb_msg tag xs b)"
  using pb_rotate_msg [of tag "b\<lparr>pb_nest := pb_nest b + 1\<rparr>" xs] assms
  by (simp add: pb_endMessage_def pb_msg_def)

lemma fold_pb_varint:
  "fold pb_varint xs b = pb_append (concat (map (\<lambda>x. enc_varint (unat x)) xs)) b"
  by (induction xs arbitrary: b) (simp_all add: pb_varint_append)

text \<open>A repeated integer field: packed for more than two values.\<close>

definition rep_fields :: "nat \<Rightarrow> u64 list \<Rightarrow> wire_field list" where
  "rep_fields t xs =
     (if 2 < length xs then [LenField t (concat (map (\<lambda>x. enc_varint (unat x)) xs))]
      else map (\<lambda>x. VarintField t (unat x)) xs)"

definition pb_rep :: "i64 \<Rightarrow> u64 list \<Rightarrow> protobuf \<Rightarrow> protobuf" where
  "pb_rep tag xs b =
     (if 2 < length xs then pb_msg tag (concat (map (\<lambda>x. enc_varint (unat x)) xs)) b
      else pb_append (enc_fields (rep_fields (unat tag) xs)) b)"

lemma pb_rep_sel [simp]:
  "pb_data (pb_rep tag xs b) = pb_data b @ enc_fields (rep_fields (unat tag) xs)"
  "length (pb_tmp (pb_rep tag xs b)) = length (pb_tmp b)"
  "pb_nest (pb_rep tag xs b) = pb_nest b"
  by (simp_all add: pb_rep_def rep_fields_def)

lemma fold_pb_uint64:
  "unat tag < 2 ^ 61 \<Longrightarrow>
   fold (pb_uint64 tag) xs b = pb_append (enc_fields (map (\<lambda>x. VarintField (unat tag) (unat x)) xs)) b"
  by (induction xs arbitrary: b) (simp_all add: pb_uint64_append)

lemma pb_uint64s_rep [pb_simps]:
  assumes "unat tag < 16" and "length (pb_tmp b) = 16"
  shows "pb_uint64s tag xs b = Some (pb_rep tag xs b)"
  using assms pb_rotate_msg [of tag b]
  by (simp add: pb_uint64s_def pb_rep_def rep_fields_def fold_pb_varint fold_pb_uint64)

lemma pb_int64s_rep [pb_simps]:
  assumes "unat tag < 16" and "length (pb_tmp b) = 16"
  shows "pb_int64s tag xs b = Some (pb_rep tag xs b)"
proof -
  have "pb_int64 tag = pb_uint64 tag"
    by (simp add: fun_eq_iff pb_int64_def)
  then have "pb_int64s tag xs b = pb_uint64s tag xs b"
    by (simp add: pb_int64s_def pb_uint64s_def)
  with assms show ?thesis
    by (simp add: pb_uint64s_rep)
qed

section \<open>Decoding what was written\<close>

definition field_ok :: "wire_field \<Rightarrow> bool" where
  "field_ok f = (case f of VarintField t v \<Rightarrow> True | LenField t bs \<Rightarrow> length bs < 2 ^ 64)"

lemma dec_enc_fields:
  "\<forall>f \<in> set fs. field_ok f \<Longrightarrow> dec_fields (enc_fields fs) = Some fs"
proof (induction fs)
  case Nil
  then show ?case
    by (simp add: dec_fields.simps)
next
  case (Cons f fs)
  then have IH: "dec_fields (enc_fields fs) = Some fs"
    by simp
  show ?case
  proof (cases f)
    case (VarintField t v)
    with IH show ?thesis
      by (simp add: dec_fields.simps [of "enc_varint (8 * t) @ _"])
  next
    case (LenField t bs)
    with Cons.prems have "length bs mod 2 ^ 64 = length bs"
      by (simp add: field_ok_def)
    moreover have "Suc (Suc (8 * t)) mod 8 = 2" and "Suc (Suc (8 * t)) div 8 = t"
      by presburger+
    ultimately show ?thesis
      using LenField IH by (simp add: dec_fields.simps [of "enc_varint (Suc (Suc (8 * t))) @ _"])
  qed
qed

section \<open>Properties\<close>

text \<open>
  Writing a 64-bit value with \<^verbatim>\<open>varint\<close> appends between one and
  ten bytes to the buffer, and decoding the appended bytes gives back the value and
  leaves nothing over.
\<close>

theorem varint_roundtrip:
  "\<exists>bs. pb_data (pb_varint x b) = pb_data b @ bs \<and> 1 \<le> length bs \<and> length bs \<le> 10 \<and>
        dec_varint bs = Some (unat x, [])"
proof (intro exI conjI)
  show "pb_data (pb_varint x b) = pb_data b @ enc_varint (unat x)"
    by (simp add: pb_varint_append)
  show "1 \<le> length (enc_varint (unat x))"
    by (cases "enc_varint (unat x)") simp_all
  show "length (enc_varint (unat x)) \<le> 10"
    by (rule length_enc_varint_u64)
  show "dec_varint (enc_varint (unat x)) = Some (unat x, [])"
    using dec_enc_varint [of "unat x" "[]"] by simp
qed

end
