(* ===== verification/ProfileBuilder.thy ===== *)
theory ProfileBuilder
  imports Protobuf
begin

text \<open>
  The profile builder of \<^verbatim>\<open>godeltaprof/internal/pprof/proto.go\<close> and the
  types of \<^verbatim>\<open>builder.go\<close>.

  The record \<open>profileBuilder\<close> has the fields of the Go struct.  The slice
  \<^verbatim>\<open>b.mem\<close> shares its array with \<^verbatim>\<open>b.opt.mem\<close>, so the
  model keeps it once, inside the options; writes to a mapping's flags are seen by
  later profiles with the same options, as in the code.  The gzip writer is code of
  another module: the model keeps the bytes handed to its \<^verbatim>\<open>Write\<close> and
  whether it was closed.  The runtime's symbol tables are the parameter
  \<open>runtime_env\<close>.

  An operation returns \<^const>\<open>None\<close> where the Go code panics.  Location,
  function and string numbers are computed from the length of a Go map or slice and
  are natural numbers here; they become \<^verbatim>\<open>uint64\<close> where the code
  encodes or returns them.
\<close>

section \<open>Types\<close>

type_synonym symbolizeFlag = u8

definition lookupTried :: symbolizeFlag where "lookupTried = 1"
definition lookupFailed :: symbolizeFlag where "lookupFailed = 2"

record ValueType =
  vt_Typ :: string
  vt_Unit :: string

record ProfileConfig =
  pc_PeriodType :: ValueType
  pc_Period :: i64
  pc_SampleType :: "ValueType list"
  pc_DefaultSampleType :: string

record memMap =
  mm_start :: uintptr
  mm_end :: uintptr
  mm_offset :: u64
  mm_file :: string
  mm_buildID :: string
  mm_funcs :: symbolizeFlag
  mm_fake :: bool

record ProfileBuilderOptions =
  opt_GenericsFrames :: bool
  opt_LazyMapping :: bool
  opt_mem :: "memMap list option"

text \<open>
  \<^verbatim>\<open>runtime.Frame\<close>: \<open>fr_Func\<close> says whether the pointer
  \<^verbatim>\<open>Func\<close> is not nil, \<open>fr_info\<close> stands for the unexported
  part that the symbol-name and start-line functions read.
\<close>

record runtime_Frame =
  fr_PC :: uintptr
  fr_Func :: bool
  fr_Function :: string
  fr_File :: string
  fr_Line :: i64
  fr_Entry :: uintptr
  fr_info :: nat

definition zero_Frame :: runtime_Frame where
  "zero_Frame = \<lparr>fr_PC = 0, fr_Func = False, fr_Function = [], fr_File = [], fr_Line = 0,
     fr_Entry = 0, fr_info = 0\<rparr>"

text \<open>
  What the builder asks the runtime: the frames that \<^verbatim>\<open>CallersFrames\<close>
  delivers for one address, the symbol name and start line of a frame, and the
  expansion of a truncated stack.
\<close>

record runtime_env =
  rt_CallersFrames :: "uintptr \<Rightarrow> runtime_Frame list"
  rt_FrameSymbolName :: "runtime_Frame \<Rightarrow> string"
  rt_FrameStartLine :: "runtime_Frame \<Rightarrow> i64"
  rt_expandFinalInlineFrame :: "uintptr list \<Rightarrow> uintptr list"

record pcDeck =
  dk_pcs :: "uintptr list"
  dk_frames :: "runtime_Frame list"
  dk_symbolizeResult :: symbolizeFlag
  dk_firstPCFrames :: nat
  dk_firstPCSymbolizeResult :: symbolizeFlag

record locInfo =
  li_id :: nat
  li_pcs :: "uintptr list"
  li_firstPCFrames :: "runtime_Frame list"
  li_firstPCSymbolizeResult :: symbolizeFlag

record gzWriter =
  zw_written :: "u8 list"
  zw_closed :: bool

record profileBuilder =
  bd_start :: i64
  bd_end :: i64
  bd_havePeriod :: bool
  bd_period :: i64
  bd_zw :: gzWriter
  bd_pb :: protobuf
  bd_strings :: "string list"
  bd_stringMap :: "string \<rightharpoonup> nat"
  bd_locs :: "(uintptr \<times> locInfo) list"
  bd_funcs :: "(string \<times> nat) list"
  bd_deck :: pcDeck
  bd_opt :: ProfileBuilderOptions

record newFunc =
  nf_id :: nat
  nf_name :: string
  nf_file :: string
  nf_startLine :: i64

definition tagProfile_SampleType :: i64 where [simp]: "tagProfile_SampleType = 1"
definition tagProfile_Sample :: i64 where [simp]: "tagProfile_Sample = 2"
definition tagProfile_Mapping :: i64 where [simp]: "tagProfile_Mapping = 3"
definition tagProfile_Location :: i64 where [simp]: "tagProfile_Location = 4"
definition tagProfile_Function :: i64 where [simp]: "tagProfile_Function = 5"
definition tagProfile_StringTable :: i64 where [simp]: "tagProfile_StringTable = 6"
definition tagProfile_TimeNanos :: i64 where [simp]: "tagProfile_TimeNanos = 9"
definition tagProfile_DurationNanos :: i64 where [simp]: "tagProfile_DurationNanos = 10"
definition tagProfile_PeriodType :: i64 where [simp]: "tagProfile_PeriodType = 11"
definition tagProfile_Period :: i64 where [simp]: "tagProfile_Period = 12"
definition tagProfile_DefaultSampleType :: i64 where [simp]: "tagProfile_DefaultSampleType = 14"
definition tagValueType_Type :: i64 where [simp]: "tagValueType_Type = 1"
definition tagValueType_Unit :: i64 where [simp]: "tagValueType_Unit = 2"
definition tagSample_Location :: i64 where [simp]: "tagSample_Location = 1"
definition tagSample_Value :: i64 where [simp]: "tagSample_Value = 2"
definition tagSample_Label :: i64 where [simp]: "tagSample_Label = 3"
definition tagLabel_Key :: i64 where [simp]: "tagLabel_Key = 1"
definition tagLabel_Str :: i64 where [simp]: "tagLabel_Str = 2"
definition tagLabel_Num :: i64 where [simp]: "tagLabel_Num = 3"
definition tagMapping_ID :: i64 where [simp]: "tagMapping_ID = 1"
definition tagMapping_Start :: i64 where [simp]: "tagMapping_Start = 2"
definition tagMapping_Limit :: i64 where [simp]: "tagMapping_Limit = 3"
definition tagMapping_Offset :: i64 where [simp]: "tagMapping_Offset = 4"
definition tagMapping_Filename :: i64 where [simp]: "tagMapping_Filename = 5"
definition tagMapping_BuildID :: i64 where [simp]: "tagMapping_BuildID = 6"
definition tagMapping_HasFunctions :: i64 where [simp]: "tagMapping_HasFunctions = 7"
definition tagLocation_ID :: i64 where [simp]: "tagLocation_ID = 1"
definition tagLocation_MappingID :: i64 where [simp]: "tagLocation_MappingID = 2"
definition tagLocation_Address :: i64 where [simp]: "tagLocation_Address = 3"
definition tagLocation_Line :: i64 where [simp]: "tagLocation_Line = 4"
definition tagLine_FunctionID :: i64 where [simp]: "tagLine_FunctionID = 1"
definition tagLine_Line :: i64 where [simp]: "tagLine_Line = 2"
definition tagFunction_ID :: i64 where [simp]: "tagFunction_ID = 1"
definition tagFunction_Name :: i64 where [simp]: "tagFunction_Name = 2"
definition tagFunction_SystemName :: i64 where [simp]: "tagFunction_SystemName = 3"
definition tagFunction_Filename :: i64 where [simp]: "tagFunction_Filename = 4"
definition tagFunction_StartLine :: i64 where [simp]: "tagFunction_StartLine = 5"

section \<open>Strings and messages\<close>

definition on_pb :: "(protobuf \<Rightarrow> protobuf) \<Rightarrow> profileBuilder \<Rightarrow> profileBuilder" where
  "on_pb f b = b\<lparr>bd_pb := f (bd_pb b)\<rparr>"

definition on_pb_opt :: "(protobuf \<Rightarrow> protobuf option) \<Rightarrow> profileBuilder \<Rightarrow> profileBuilder option" where
  "on_pb_opt f b = map_option (\<lambda>p. b\<lparr>bd_pb := p\<rparr>) (f (bd_pb b))"

definition startMessage :: "profileBuilder \<Rightarrow> nat \<times> profileBuilder" where
  "startMessage b = (let (start, p) = pb_startMessage (bd_pb b) in (start, b\<lparr>bd_pb := p\<rparr>))"

definition stringIndex :: "string \<Rightarrow> profileBuilder \<Rightarrow> i64 \<times> profileBuilder" where
  "stringIndex s b =
     (case bd_stringMap b s of
        Some i \<Rightarrow> (word_of_nat i, b)
      | None \<Rightarrow>
          (let i = length (bd_strings b)
           in (word_of_nat i,
               b\<lparr>bd_strings := bd_strings b @ [s], bd_stringMap := (bd_stringMap b)(s \<mapsto> i)\<rparr>)))"

definition flush :: "profileBuilder \<Rightarrow> profileBuilder" where
  "flush b =
     (if pb_nest (bd_pb b) = 0 \<and> 4096 < length (pb_data (bd_pb b)) then
        b\<lparr>bd_zw := (bd_zw b)\<lparr>zw_written := zw_written (bd_zw b) @ pb_data (bd_pb b)\<rparr>,
          bd_pb := (bd_pb b)\<lparr>pb_data := []\<rparr>\<rparr>
      else b)"

definition pbValueType :: "i64 \<Rightarrow> string \<Rightarrow> string \<Rightarrow> profileBuilder \<Rightarrow> profileBuilder option" where
  "pbValueType tag typ unit b =
     (let (start, b) = startMessage b;
          (i, b) = stringIndex typ b;
          b = on_pb (pb_int64 tagValueType_Type i) b;
          (j, b) = stringIndex unit b;
          b = on_pb (pb_int64 tagValueType_Unit j) b
      in on_pb_opt (pb_endMessage tag start) b)"

definition pbLabel :: "i64 \<Rightarrow> string \<Rightarrow> string \<Rightarrow> i64 \<Rightarrow> profileBuilder \<Rightarrow> profileBuilder option" where
  "pbLabel tag key str num b =
     (let (start, b) = startMessage b;
          (i, b) = stringIndex key b;
          b = on_pb (pb_int64Opt tagLabel_Key i) b;
          (j, b) = stringIndex str b;
          b = on_pb (pb_int64Opt tagLabel_Str j) b;
          b = on_pb (pb_int64Opt tagLabel_Num num) b
      in on_pb_opt (pb_endMessage tag start) b)"

definition Sample :: "i64 list \<Rightarrow> u64 list \<Rightarrow> i64 \<Rightarrow> profileBuilder \<Rightarrow> profileBuilder option" where
  "Sample values locs blockSize b =
     (let (start, b) = startMessage b in
      do {
        b \<leftarrow> on_pb_opt (pb_int64s tagSample_Value values) b;
        b \<leftarrow> on_pb_opt (pb_uint64s tagSample_Location locs) b;
        b \<leftarrow> (if blockSize \<noteq> 0 then pbLabel tagSample_Label ''bytes'' [] blockSize b else Some b);
        b \<leftarrow> on_pb_opt (pb_endMessage tagProfile_Sample start) b;
        Some (flush b)
      })"

definition pbLine :: "i64 \<Rightarrow> u64 \<Rightarrow> i64 \<Rightarrow> profileBuilder \<Rightarrow> profileBuilder option" where
  "pbLine tag funcID line b =
     (let (start, b) = startMessage b;
          b = on_pb (pb_uint64Opt tagLine_FunctionID funcID) b;
          b = on_pb (pb_int64Opt tagLine_Line line) b
      in on_pb_opt (pb_endMessage tag start) b)"

definition pbMapping :: "i64 \<Rightarrow> u64 \<Rightarrow> u64 \<Rightarrow> u64 \<Rightarrow> u64 \<Rightarrow> string \<Rightarrow> string \<Rightarrow> bool \<Rightarrow>
    profileBuilder \<Rightarrow> profileBuilder option" where
  "pbMapping tag mid base limit offset file buildID hasFuncs b =
     (let (start, b) = startMessage b;
          b = on_pb (pb_uint64Opt tagMapping_ID mid) b;
          b = on_pb (pb_uint64Opt tagMapping_Start base) b;
          b = on_pb (pb_uint64Opt tagMapping_Limit limit) b;
          b = on_pb (pb_uint64Opt tagMapping_Offset offset) b;
          (i, b) = stringIndex file b;
          b = on_pb (pb_int64Opt tagMapping_Filename i) b;
          (j, b) = stringIndex buildID b;
          b = on_pb (pb_int64Opt tagMapping_BuildID j) b;
          b = (if hasFuncs then on_pb (pb_bool tagMapping_HasFunctions True) b else b)
      in on_pb_opt (pb_endMessage tag start) b)"

section \<open>Frames and the inline deck\<close>

text \<open>\<^verbatim>\<open>Frames.Next\<close>: the next frame and whether there are more.\<close>

definition frames_Next :: "runtime_Frame list \<Rightarrow> runtime_Frame \<times> bool \<times> runtime_Frame list" where
  "frames_Next fs = (case fs of [] \<Rightarrow> (zero_Frame, False, []) | f # fs \<Rightarrow> (f, fs \<noteq> [], fs))"

text \<open>The loop of \<^verbatim>\<open>allFrames\<close> after the first frame.\<close>

fun more_frames :: "string \<Rightarrow> runtime_Frame list \<Rightarrow> runtime_Frame list" where
  "more_frames function [] = []"
| "more_frames function (f # fs) =
     (if function \<noteq> ''runtime.goexit'' then f # more_frames (fr_Function f) fs else [])"

definition allFrames :: "runtime_env \<Rightarrow> uintptr \<Rightarrow> runtime_Frame list \<times> symbolizeFlag" where
  "allFrames rt addr =
     (let (frame, more, rest) = frames_Next (rt_CallersFrames rt addr) in
      if fr_Function frame = ''runtime.goexit'' then ([], 0)
      else
        (let symbolizeResult =
               (if fr_PC frame = 0 \<or> fr_Function frame = [] \<or> fr_File frame = [] \<or> fr_Line frame = 0
                then lookupTried OR lookupFailed else lookupTried);
             frame = (if fr_PC frame = 0 then frame\<lparr>fr_PC := addr - 1\<rparr> else frame)
         in (frame # more_frames (fr_Function frame) rest, symbolizeResult)))"

definition deck_reset :: "pcDeck \<Rightarrow> pcDeck" where
  "deck_reset d = \<lparr>dk_pcs = [], dk_frames = [], dk_symbolizeResult = 0, dk_firstPCFrames = 0,
     dk_firstPCSymbolizeResult = 0\<rparr>"

text \<open>The four conditions under which \<^verbatim>\<open>tryAdd\<close> refuses a frame after the last one.\<close>

definition inlined_in :: "runtime_env \<Rightarrow> runtime_Frame \<Rightarrow> runtime_Frame \<Rightarrow> bool" where
  "inlined_in rt lst newFrame =
     (if fr_Func lst then False
      else if fr_Entry lst = 0 \<or> fr_Entry newFrame = 0 then False
      else if fr_Entry lst \<noteq> fr_Entry newFrame then False
      else if rt_FrameSymbolName rt lst = rt_FrameSymbolName rt newFrame then False
      else True)"

definition deck_append :: "uintptr \<Rightarrow> runtime_Frame list \<Rightarrow> symbolizeFlag \<Rightarrow> pcDeck \<Rightarrow> pcDeck" where
  "deck_append pc frames symbolizeResult d =
     (let d = d\<lparr>dk_pcs := dk_pcs d @ [pc], dk_frames := dk_frames d @ frames,
                dk_symbolizeResult := dk_symbolizeResult d OR symbolizeResult\<rparr>
      in if length (dk_pcs d) = 1 then
           d\<lparr>dk_firstPCFrames := length (dk_frames d), dk_firstPCSymbolizeResult := symbolizeResult\<rparr>
         else d)"

definition tryAdd :: "runtime_env \<Rightarrow> uintptr \<Rightarrow> runtime_Frame list \<Rightarrow> symbolizeFlag \<Rightarrow> pcDeck \<Rightarrow>
    (bool \<times> pcDeck) option" where
  "tryAdd rt pc frames symbolizeResult d =
     (if dk_frames d \<noteq> [] then
        (case frames of
           [] \<Rightarrow> None
         | newFrame # _ \<Rightarrow>
             (if inlined_in rt (last (dk_frames d)) newFrame
              then Some (True, deck_append pc frames symbolizeResult d)
              else Some (False, d)))
      else Some (True, deck_append pc frames symbolizeResult d))"

section \<open>Emitting a location\<close>

definition getFuncID :: "runtime_env \<Rightarrow> runtime_Frame \<Rightarrow> profileBuilder \<Rightarrow> newFunc list \<Rightarrow>
    nat \<times> profileBuilder \<times> newFunc list" where
  "getFuncID rt frame b newFuncs =
     (let funcName = rt_FrameSymbolName rt frame;
          funcID = (case map_of (bd_funcs b) funcName of None \<Rightarrow> 0 | Some i \<Rightarrow> i)
      in if funcID = 0 then
           (let funcID = length (bd_funcs b) + 1;
                name = (if opt_GenericsFrames (bd_opt b) then funcName else fr_Function frame)
            in (funcID,
                b\<lparr>bd_funcs := AList.update funcName funcID (bd_funcs b)\<rparr>,
                newFuncs @ [\<lparr>nf_id = funcID, nf_name = name, nf_file = fr_File frame,
                              nf_startLine = rt_FrameStartLine rt frame\<rparr>]))
         else (funcID, b, newFuncs))"

text \<open>The loop over \<^verbatim>\<open>b.deck.frames\<close>.\<close>

fun emitLines :: "runtime_env \<Rightarrow> runtime_Frame list \<Rightarrow> profileBuilder \<Rightarrow> newFunc list \<Rightarrow>
    (profileBuilder \<times> newFunc list) option" where
  "emitLines rt [] b newFuncs = Some (b, newFuncs)"
| "emitLines rt (frame # frames) b newFuncs =
     (let (funcID, b1, newFuncs1) = getFuncID rt frame b newFuncs in
      case pbLine tagLocation_Line (word_of_nat funcID) (fr_Line frame) b1 of
        None \<Rightarrow> None
      | Some b2 \<Rightarrow> emitLines rt frames b2 newFuncs1)"

text \<open>The loop over \<^verbatim>\<open>b.mem\<close>: the first mapping that holds the address, or a fake one.\<close>

fun findMapping :: "uintptr \<Rightarrow> nat \<Rightarrow> memMap list \<Rightarrow> nat option" where
  "findMapping addr i [] = None"
| "findMapping addr i (m # ms) =
     (if (mm_start m \<le> addr \<and> addr < mm_end m) \<or> mm_fake m then Some i
      else findMapping addr (i + 1) ms)"

definition bd_mem :: "profileBuilder \<Rightarrow> memMap list" where
  "bd_mem b = (case opt_mem (bd_opt b) of None \<Rightarrow> [] | Some ms \<Rightarrow> ms)"

definition emitMappingID :: "uintptr \<Rightarrow> profileBuilder \<Rightarrow> profileBuilder" where
  "emitMappingID addr b =
     (case findMapping addr 0 (bd_mem b) of
        None \<Rightarrow> b
      | Some i \<Rightarrow>
          (let b1 = on_pb (pb_uint64Opt tagLocation_MappingID (word_of_nat (i + 1))) b;
               m = bd_mem b1 ! i
           in b1\<lparr>bd_opt := (bd_opt b1)
                 \<lparr>opt_mem := Some ((bd_mem b1)[i := m\<lparr>mm_funcs := mm_funcs m OR
                     dk_symbolizeResult (bd_deck b1)\<rparr>])\<rparr>\<rparr>))"

definition emitFunction :: "newFunc \<Rightarrow> profileBuilder \<Rightarrow> profileBuilder option" where
  "emitFunction fn b =
     (let (start, b) = startMessage b;
          b = on_pb (pb_uint64Opt tagFunction_ID (word_of_nat (nf_id fn))) b;
          (i, b) = stringIndex (nf_name fn) b;
          b = on_pb (pb_int64Opt tagFunction_Name i) b;
          (j, b) = stringIndex (nf_name fn) b;
          b = on_pb (pb_int64Opt tagFunction_SystemName j) b;
          (k, b) = stringIndex (nf_file fn) b;
          b = on_pb (pb_int64Opt tagFunction_Filename k) b;
          b = on_pb (pb_int64Opt tagFunction_StartLine (nf_startLine fn)) b
      in on_pb_opt (pb_endMessage tagProfile_Function start) b)"

fun emitFunctions :: "newFunc list \<Rightarrow> profileBuilder \<Rightarrow> profileBuilder option" where
  "emitFunctions [] b = Some b"
| "emitFunctions (fn # fns) b =
     (case emitFunction fn b of None \<Rightarrow> None | Some b \<Rightarrow> emitFunctions fns b)"

definition emitLocation :: "runtime_env \<Rightarrow> profileBuilder \<Rightarrow> (nat \<times> profileBuilder) option" where
  "emitLocation rt b =
     (case dk_pcs (bd_deck b) of
        [] \<Rightarrow> Some (0, b)
      | addr # _ \<Rightarrow>
          (case dk_frames (bd_deck b) of
             [] \<Rightarrow> None
           | firstFrame # _ \<Rightarrow>
               (let lid = length (bd_locs b) + 1;
                    b = b\<lparr>bd_locs := AList.update addr
                          \<lparr>li_id = lid, li_pcs = dk_pcs (bd_deck b),
                           li_firstPCFrames = take (dk_firstPCFrames (bd_deck b)) (dk_frames (bd_deck b)),
                           li_firstPCSymbolizeResult = dk_firstPCSymbolizeResult (bd_deck b)\<rparr>
                          (bd_locs b)\<rparr>;
                    (start, b) = startMessage b;
                    b = on_pb (pb_uint64Opt tagLocation_ID (word_of_nat lid)) b;
                    b = on_pb (pb_uint64Opt tagLocation_Address (fr_PC firstFrame)) b
                in do {
                     (b, newFuncs) \<leftarrow> emitLines rt (dk_frames (bd_deck b)) b [];
                     b \<leftarrow> on_pb_opt (pb_endMessage tagProfile_Location start) (emitMappingID addr b);
                     b \<leftarrow> emitFunctions newFuncs b;
                     Some (lid, (flush b)\<lparr>bd_deck := deck_reset (bd_deck b)\<rparr>)
                   })))"

text \<open>\<^verbatim>\<open>if id := b.emitLocation(); id > 0 { locs = append(locs, id) }\<close>\<close>

definition emitInto :: "runtime_env \<Rightarrow> u64 list \<Rightarrow> profileBuilder \<Rightarrow> (u64 list \<times> profileBuilder) option" where
  "emitInto rt locs b =
     map_option (\<lambda>(lid, b). (if 0 < lid then locs @ [word_of_nat lid] else locs, b)) (emitLocation rt b)"

text \<open>\<^verbatim>\<open>stk = stk[n:]\<close>\<close>

definition stk_from :: "nat \<Rightarrow> 'a list \<Rightarrow> 'a list option" where
  "stk_from n stk = (if n \<le> length stk then Some (drop n stk) else None)"

definition set_deck :: "pcDeck \<Rightarrow> profileBuilder \<Rightarrow> profileBuilder" where
  "set_deck d b = b\<lparr>bd_deck := d\<rparr>"

text \<open>The part of the loop body for an address that has a location already.\<close>

definition locs_cached :: "runtime_env \<Rightarrow> locInfo \<Rightarrow> uintptr list \<Rightarrow> u64 list \<Rightarrow> profileBuilder \<Rightarrow>
    (uintptr list \<times> u64 list \<times> profileBuilder) option" where
  "locs_cached rt l stk locs b =
     (let flush_and_skip =
            do {
              (locs, b) \<leftarrow> emitInto rt locs b;
              stk' \<leftarrow> stk_from (length (li_pcs l)) stk;
              Some (stk', locs @ [word_of_nat (li_id l)], b)
            }
      in if dk_pcs (bd_deck b) \<noteq> [] then
           (case tryAdd rt (hd stk) (li_firstPCFrames l) (li_firstPCSymbolizeResult l) (bd_deck b) of
              None \<Rightarrow> None
            | Some (True, d) \<Rightarrow> Some (tl stk, locs, set_deck d b)
            | Some (False, d) \<Rightarrow> flush_and_skip)
         else flush_and_skip)"

text \<open>The part of the loop body for an address that is not in the cache.\<close>

definition locs_new :: "runtime_env \<Rightarrow> uintptr list \<Rightarrow> u64 list \<Rightarrow> profileBuilder \<Rightarrow>
    (uintptr list \<times> u64 list \<times> profileBuilder) option" where
  "locs_new rt stk locs b =
     (let addr = hd stk; (frames, symbolizeResult) = allFrames rt addr in
      if frames = [] then
        do { (locs, b) \<leftarrow> emitInto rt locs b; Some (tl stk, locs, b) }
      else
        (case tryAdd rt addr frames symbolizeResult (bd_deck b) of
           None \<Rightarrow> None
         | Some (True, d) \<Rightarrow> Some (tl stk, locs, set_deck d b)
         | Some (False, d) \<Rightarrow>
             do {
               (locs, b) \<leftarrow> emitInto rt locs b;
               (case map_of (bd_locs b) addr of
                  Some l \<Rightarrow>
                    do { stk' \<leftarrow> stk_from (length (li_pcs l)) stk; Some (stk', locs @ [word_of_nat (li_id l)], b) }
                | None \<Rightarrow>
                    do {
                      (added, d) \<leftarrow> tryAdd rt addr frames symbolizeResult (bd_deck b);
                      Some (tl stk, locs, set_deck d b)
                    })
             }))"

partial_function (option) locs_loop :: "runtime_env \<Rightarrow> uintptr list \<Rightarrow> u64 list \<Rightarrow> profileBuilder \<Rightarrow>
    (u64 list \<times> profileBuilder) option" where
  "locs_loop rt stk locs b =
     (if stk = [] then emitInto rt locs b
      else
        Option.bind
          (case map_of (bd_locs b) (hd stk) of
             Some l \<Rightarrow> locs_cached rt l stk locs b
           | None \<Rightarrow> locs_new rt stk locs b)
          (\<lambda>(stk', locs', b'). locs_loop rt stk' locs' b'))"

definition LocsForStack :: "runtime_env \<Rightarrow> uintptr list \<Rightarrow> profileBuilder \<Rightarrow>
    (u64 list \<times> profileBuilder) option" where
  "LocsForStack rt stk b =
     (let b = set_deck (deck_reset (bd_deck b)) b;
          stk = rt_expandFinalInlineFrame rt stk
      in locs_loop rt stk [] b)"

section \<open>Beginning and end of a profile\<close>

text \<open>\<^verbatim>\<open>ProfileBuilderOptions.mapping\<close>; \<open>readMapping\<close> is what reading the mappings gives.\<close>

definition opt_mapping :: "memMap list \<Rightarrow> ProfileBuilderOptions \<Rightarrow> ProfileBuilderOptions" where
  "opt_mapping readMapping d =
     (if opt_mem d = None \<or> \<not> opt_LazyMapping d then d\<lparr>opt_mem := Some readMapping\<rparr> else d)"

fun pbSampleTypes :: "ValueType list \<Rightarrow> profileBuilder \<Rightarrow> profileBuilder option" where
  "pbSampleTypes [] b = Some b"
| "pbSampleTypes (st # sts) b =
     (case pbValueType tagProfile_SampleType (vt_Typ st) (vt_Unit st) b of
        None \<Rightarrow> None
      | Some b \<Rightarrow> pbSampleTypes sts b)"

definition NewProfileBuilder :: "i64 \<Rightarrow> memMap list \<Rightarrow> gzWriter \<Rightarrow> ProfileBuilderOptions \<Rightarrow>
    ProfileConfig \<Rightarrow> profileBuilder option" where
  "NewProfileBuilder now readMapping zw opt stc =
     (let b = \<lparr>bd_start = now, bd_end = 0, bd_havePeriod = False, bd_period = 0, bd_zw = zw,
               bd_pb = pb_empty, bd_strings = [[]], bd_stringMap = [[] \<mapsto> 0], bd_locs = [],
               bd_funcs = [],
               bd_deck = \<lparr>dk_pcs = [], dk_frames = [], dk_symbolizeResult = 0, dk_firstPCFrames = 0,
                 dk_firstPCSymbolizeResult = 0\<rparr>,
               bd_opt = opt_mapping readMapping opt\<rparr>
      in do {
           b \<leftarrow> pbValueType tagProfile_PeriodType (vt_Typ (pc_PeriodType stc)) (vt_Unit (pc_PeriodType stc)) b;
           b \<leftarrow> pbSampleTypes (pc_SampleType stc) (on_pb (pb_int64Opt tagProfile_Period (pc_Period stc)) b);
           if pc_DefaultSampleType stc \<noteq> [] then
             (let (i, b) = stringIndex (pc_DefaultSampleType stc) b
              in Some (on_pb (pb_int64Opt tagProfile_DefaultSampleType i) b))
           else Some b
         })"

fun pbMappings :: "nat \<Rightarrow> memMap list \<Rightarrow> profileBuilder \<Rightarrow> profileBuilder option" where
  "pbMappings i [] b = Some b"
| "pbMappings i (m # ms) b =
     (case pbMapping tagProfile_Mapping (word_of_nat (i + 1)) (mm_start m) (mm_end m) (mm_offset m)
             (mm_file m) (mm_buildID m) (mm_funcs m = lookupTried) b of
        None \<Rightarrow> None
      | Some b \<Rightarrow> pbMappings (i + 1) ms b)"

definition Build :: "i64 \<Rightarrow> profileBuilder \<Rightarrow> profileBuilder option" where
  "Build now b =
     (let b = b\<lparr>bd_end := now\<rparr>;
          b = on_pb (pb_int64Opt tagProfile_TimeNanos (bd_start b)) b
      in do {
           b \<leftarrow> (if bd_havePeriod b then
                  do {
                    b \<leftarrow> pbValueType tagProfile_SampleType ''samples'' ''count'' b;
                    b \<leftarrow> pbValueType tagProfile_SampleType ''cpu'' ''nanoseconds'' b;
                    let b = on_pb (pb_int64Opt tagProfile_DurationNanos (bd_end b - bd_start b)) b;
                    b \<leftarrow> pbValueType tagProfile_PeriodType ''cpu'' ''nanoseconds'' b;
                    Some (on_pb (pb_int64Opt tagProfile_Period (bd_period b)) b)
                  }
                else Some b);
           b \<leftarrow> pbMappings 0 (bd_mem b) b;
           let b = on_pb (pb_strings tagProfile_StringTable (bd_strings b)) b;
           Some (b\<lparr>bd_zw := \<lparr>zw_written = zw_written (bd_zw b) @ pb_data (bd_pb b), zw_closed = True\<rparr>\<rparr>)
         })"

end
