(* ===== verification/ProfileMessages.thy ===== *)
theory ProfileMessages
  imports ProfileBuilder "HOL-Library.Sublist"
begin

text \<open>
  What the profile builder writes, as a sequence of profile messages.

  The datatype \<open>profile_msg\<close> has one constructor per field of the profile
  message; strings stand for themselves and become indices of the string table only
  in the wire encoding \<open>msg_fields\<close>, which is given the table as a function
  \<open>\<sigma>\<close>.  The lemmas of this theory say which messages each builder
  operation appends to the stream \<open>bd_stream\<close> (the bytes given to the gzip
  writer followed by the bytes still in the buffer).
\<close>

section \<open>Messages\<close>

datatype profile_msg =
    MValueType nat string string
  | MInt nat u64
  | MDefaultSampleType string
  | MSample "u64 list" "u64 list" "(string \<times> string \<times> i64) option"
  | MMapping u64 u64 u64 u64 string string bool
  | MLocation u64 u64 "(u64 \<times> i64) list" u64
  | MFunction u64 string string string i64
  | MString string

text \<open>A string index is reduced to 64 bits by the conversion to \<^verbatim>\<open>int64\<close>; zero is left out.\<close>

definition ref_field :: "nat \<Rightarrow> nat \<Rightarrow> wire_field list" where
  "ref_field t i = opt_field t (i mod 2 ^ 64)"

definition num_field :: "nat \<Rightarrow> u64 \<Rightarrow> wire_field list" where
  "num_field t v = opt_field t (unat v)"

definition label_body :: "(string \<Rightarrow> nat) \<Rightarrow> string \<times> string \<times> i64 \<Rightarrow> wire_field list" where
  "label_body \<sigma> l = (case l of (k, s, n) \<Rightarrow>
     ref_field 1 (\<sigma> k) @ ref_field 2 (\<sigma> s) @ num_field 3 n)"

definition line_body :: "u64 \<times> i64 \<Rightarrow> wire_field list" where
  "line_body fl = num_field 1 (fst fl) @ num_field 2 (snd fl)"

definition line_fields :: "(u64 \<times> i64) list \<Rightarrow> wire_field list" where
  "line_fields lines = map (\<lambda>fl. LenField 4 (enc_fields (line_body fl))) lines"

definition label_fields :: "(string \<Rightarrow> nat) \<Rightarrow> (string \<times> string \<times> i64) option \<Rightarrow> wire_field list" where
  "label_fields \<sigma> lb = (case lb of None \<Rightarrow> [] | Some l \<Rightarrow> [LenField 3 (enc_fields (label_body \<sigma> l))])"

fun msg_body :: "(string \<Rightarrow> nat) \<Rightarrow> profile_msg \<Rightarrow> wire_field list" where
  "msg_body \<sigma> (MValueType t typ unit) =
     [VarintField 1 (\<sigma> typ mod 2 ^ 64), VarintField 2 (\<sigma> unit mod 2 ^ 64)]"
| "msg_body \<sigma> (MSample vs ls lb) = rep_fields 2 vs @ rep_fields 1 ls @ label_fields \<sigma> lb"
| "msg_body \<sigma> (MMapping i st lim off f bid hf) =
     num_field 1 i @ num_field 2 st @ num_field 3 lim @ num_field 4 off @ ref_field 5 (\<sigma> f) @
     ref_field 6 (\<sigma> bid) @ (if hf then [VarintField 7 1] else [])"
| "msg_body \<sigma> (MLocation i a lines m) = num_field 1 i @ num_field 3 a @ line_fields lines @ num_field 2 m"
| "msg_body \<sigma> (MFunction i n s f l) =
     num_field 1 i @ ref_field 2 (\<sigma> n) @ ref_field 3 (\<sigma> s) @ ref_field 4 (\<sigma> f) @ num_field 5 l"
| "msg_body \<sigma> _ = []"

fun msg_fields :: "(string \<Rightarrow> nat) \<Rightarrow> profile_msg \<Rightarrow> wire_field list" where
  "msg_fields \<sigma> (MValueType t a b) = [LenField t (enc_fields (msg_body \<sigma> (MValueType t a b)))]"
| "msg_fields \<sigma> (MInt t v) = num_field t v"
| "msg_fields \<sigma> (MDefaultSampleType s) = ref_field 14 (\<sigma> s)"
| "msg_fields \<sigma> (MSample vs ls lb) = [LenField 2 (enc_fields (msg_body \<sigma> (MSample vs ls lb)))]"
| "msg_fields \<sigma> (MMapping i st lim off f bid hf) =
     [LenField 3 (enc_fields (msg_body \<sigma> (MMapping i st lim off f bid hf)))]"
| "msg_fields \<sigma> (MLocation i a ls m) = [LenField 4 (enc_fields (msg_body \<sigma> (MLocation i a ls m)))]"
| "msg_fields \<sigma> (MFunction i n s f l) = [LenField 5 (enc_fields (msg_body \<sigma> (MFunction i n s f l)))]"
| "msg_fields \<sigma> (MString s) = [LenField 6 (bytes_of s)]"

fun msg_strings :: "profile_msg \<Rightarrow> string set" where
  "msg_strings (MValueType t a b) = {a, b}"
| "msg_strings (MDefaultSampleType s) = {s}"
| "msg_strings (MSample vs ls lb) = (case lb of None \<Rightarrow> {} | Some (k, s, n) \<Rightarrow> {k, s})"
| "msg_strings (MMapping i st lim off f bid hf) = {f, bid}"
| "msg_strings (MFunction i n s f l) = {n, s, f}"
| "msg_strings _ = {}"

definition enc_msgs :: "(string \<Rightarrow> nat) \<Rightarrow> profile_msg list \<Rightarrow> u8 list" where
  "enc_msgs \<sigma> ms = enc_fields (concat (map (msg_fields \<sigma>) ms))"

definition bd_stream :: "profileBuilder \<Rightarrow> u8 list" where
  "bd_stream b = zw_written (bd_zw b) @ pb_data (bd_pb b)"

lemma enc_msgs_simps [simp]:
  "enc_msgs \<sigma> [] = []"
  "enc_msgs \<sigma> (m # ms) = enc_fields (msg_fields \<sigma> m) @ enc_msgs \<sigma> ms"
  "enc_msgs \<sigma> (ms @ ns) = enc_msgs \<sigma> ms @ enc_msgs \<sigma> ns"
  by (simp_all add: enc_msgs_def)

text \<open>The encoding of a message depends on the table only at the strings of the message.\<close>

lemma msg_fields_cong:
  "\<forall>s \<in> msg_strings m. \<sigma> s = \<tau> s \<Longrightarrow> msg_fields \<sigma> m = msg_fields \<tau> m"
  by (cases m) (auto simp: label_fields_def label_body_def split: option.splits)

lemma enc_msgs_cong:
  assumes "\<forall>m \<in> set ms. \<forall>s \<in> msg_strings m. \<sigma> s = \<tau> s"
  shows "enc_msgs \<sigma> ms = enc_msgs \<tau> ms"
proof -
  have "map (msg_fields \<sigma>) ms = map (msg_fields \<tau>) ms"
    using assms by (auto intro: msg_fields_cong)
  then show ?thesis
    by (simp only: enc_msgs_def)
qed

section \<open>The string table\<close>

definition idx :: "'a list \<Rightarrow> 'a \<Rightarrow> nat" where
  "idx xs s = length (takeWhile (\<lambda>x. x \<noteq> s) xs)"

lemma idx_append [simp]: "s \<in> set xs \<Longrightarrow> idx (xs @ ys) s = idx xs s"
  by (simp add: idx_def)

lemma idx_fresh [simp]: "s \<notin> set xs \<Longrightarrow> idx (xs @ [s]) s = length xs"
  by (induction xs) (auto simp: idx_def)

lemma idx_less: "s \<in> set xs \<Longrightarrow> idx xs s < length xs"
  by (induction xs) (auto simp: idx_def)

lemma nth_idx [simp]: "s \<in> set xs \<Longrightarrow> xs ! idx xs s = s"
  by (induction xs) (auto simp: idx_def)

definition tbl_ok :: "profileBuilder \<Rightarrow> bool" where
  "tbl_ok b \<longleftrightarrow> distinct (bd_strings b) \<and> bd_strings b \<noteq> [] \<and> hd (bd_strings b) = [] \<and>
     bd_stringMap b = (\<lambda>s. if s \<in> set (bd_strings b) then Some (idx (bd_strings b) s) else None)"

definition names :: "profileBuilder \<Rightarrow> string \<Rightarrow> nat" where
  "names b = idx (bd_strings b)"

text \<open>Interning a string touches the string table only.\<close>

definition intern :: "string \<Rightarrow> profileBuilder \<Rightarrow> profileBuilder" where
  "intern s b = snd (stringIndex s b)"

definition sidx :: "string \<Rightarrow> profileBuilder \<Rightarrow> nat" where
  "sidx s b = (case bd_stringMap b s of Some i \<Rightarrow> i | None \<Rightarrow> length (bd_strings b))"

lemma stringIndex_eq: "stringIndex s b = (word_of_nat (sidx s b), intern s b)"
  by (simp add: stringIndex_def sidx_def intern_def Let_def split: option.split)

lemma intern_pb [simp]:
  "intern s (b\<lparr>bd_pb := p\<rparr>) = (intern s b)\<lparr>bd_pb := p\<rparr>"
  "sidx s (b\<lparr>bd_pb := p\<rparr>) = sidx s b"
  by (simp_all add: intern_def stringIndex_def sidx_def Let_def split: option.split)

lemma intern_sel [simp]:
  "bd_pb (intern s b) = bd_pb b" "bd_zw (intern s b) = bd_zw b" "bd_locs (intern s b) = bd_locs b"
  "bd_funcs (intern s b) = bd_funcs b" "bd_deck (intern s b) = bd_deck b"
  "bd_opt (intern s b) = bd_opt b" "bd_start (intern s b) = bd_start b"
  "bd_end (intern s b) = bd_end b" "bd_havePeriod (intern s b) = bd_havePeriod b"
  "bd_period (intern s b) = bd_period b"
  by (simp_all add: intern_def stringIndex_def Let_def split: option.split)

lemma intern_again [simp]: "intern s (intern s b) = intern s b" "sidx s (intern s b) = sidx s b"
  by (simp_all add: intern_def stringIndex_def sidx_def Let_def split: option.split)

lemma bd_strings_intern:
  "tbl_ok b \<Longrightarrow> bd_strings (intern s b) =
     (if s \<in> set (bd_strings b) then bd_strings b else bd_strings b @ [s])"
  by (simp add: tbl_ok_def intern_def stringIndex_def Let_def)

lemma tbl_ok_intern [simp]: "tbl_ok b \<Longrightarrow> tbl_ok (intern s b)"
  by (auto simp: tbl_ok_def intern_def stringIndex_def Let_def fun_eq_iff)

lemma set_strings_intern [simp]:
  "tbl_ok b \<Longrightarrow> set (bd_strings (intern s b)) = insert s (set (bd_strings b))"
  by (auto simp: bd_strings_intern)

lemma sidx_names [simp]: "tbl_ok b \<Longrightarrow> sidx s b = names (intern s b) s"
  by (auto simp: bd_strings_intern names_def) (auto simp: sidx_def tbl_ok_def)

lemma names_intern [simp]:
  "tbl_ok b \<Longrightarrow> s \<in> set (bd_strings b) \<Longrightarrow> names (intern t b) s = names b s"
  by (simp add: names_def bd_strings_intern)

lemma names_upd [simp]: "names (b\<lparr>bd_pb := p\<rparr>) = names b" "tbl_ok (b\<lparr>bd_pb := p\<rparr>) = tbl_ok b"
  by (simp_all add: names_def tbl_ok_def cong: if_cong)

section \<open>Simple messages\<close>

lemma on_pb_simps [simp]:
  "bd_pb (on_pb f b) = f (bd_pb b)"
  "intern s (on_pb f b) = on_pb f (intern s b)"
  "sidx s (on_pb f b) = sidx s b"
  "on_pb f (b\<lparr>bd_pb := p\<rparr>) = b\<lparr>bd_pb := f p\<rparr>"
  "names (on_pb f b) = names b" "tbl_ok (on_pb f b) = tbl_ok b"
  by (simp_all add: on_pb_def)

lemma startMessage_eq:
  "startMessage b = (length (pb_data (bd_pb b)), b\<lparr>bd_pb := (bd_pb b)\<lparr>pb_nest := pb_nest (bd_pb b) + 1\<rparr>\<rparr>)"
  by (simp add: startMessage_def pb_startMessage_def)

lemmas message_simps = startMessage_eq stringIndex_eq on_pb_opt_def Let_def
  unat_word_of_nat_u64 num_field_def ref_field_def line_body_def label_body_def

lemma pbLine_eq:
  assumes "length (pb_tmp (bd_pb b)) = 16"
  shows "pbLine tagLocation_Line f l b =
    Some (b\<lparr>bd_pb := pb_msg 4 (enc_fields (line_body (f, l))) (bd_pb b)\<rparr>)"
  using assms
  by (simp add: pbLine_def message_simps pb_simps)

lemma pbValueType_eq:
  assumes "length (pb_tmp (bd_pb b)) = 16" and "unat tag < 16" and "tbl_ok b"
    and b': "b' = intern unit (intern typ b)"
  shows "pbValueType tag typ unit b =
    Some (b'\<lparr>bd_pb := pb_msg tag (enc_fields (msg_body (names b') (MValueType (unat tag) typ unit))) (bd_pb b)\<rparr>)"
  using assms by (simp add: pbValueType_def message_simps pb_simps)

lemma pbLabel_eq:
  assumes "length (pb_tmp (bd_pb b)) = 16" and "tbl_ok b" and b': "b' = intern str (intern key b)"
  shows "pbLabel tagSample_Label key str num b =
    Some (b'\<lparr>bd_pb := pb_msg 3 (enc_fields (label_body (names b') (key, str, num))) (bd_pb b)\<rparr>)"
  using assms by (simp add: pbLabel_def message_simps pb_simps)

lemma pbMapping_eq:
  assumes "length (pb_tmp (bd_pb b)) = 16" and "tbl_ok b" and b': "b' = intern bid (intern f b)"
  shows "pbMapping tagProfile_Mapping i st lim off f bid hf b =
    Some (b'\<lparr>bd_pb := pb_msg 3 (enc_fields (msg_body (names b') (MMapping i st lim off f bid hf))) (bd_pb b)\<rparr>)"
  using assms by (simp add: pbMapping_def message_simps pb_simps)

definition func_msg :: "newFunc \<Rightarrow> profile_msg" where
  "func_msg fn = MFunction (word_of_nat (nf_id fn)) (nf_name fn) (nf_name fn) (nf_file fn) (nf_startLine fn)"

lemma emitFunction_eq:
  assumes "length (pb_tmp (bd_pb b)) = 16" and "tbl_ok b"
    and b': "b' = intern (nf_file fn) (intern (nf_name fn) b)"
  shows "emitFunction fn b =
    Some (b'\<lparr>bd_pb := pb_msg 5 (enc_fields (msg_body (names b') (func_msg fn))) (bd_pb b)\<rparr>)"
  using assms by (simp add: emitFunction_def message_simps pb_simps func_msg_def)

section \<open>Nested messages\<close>

text \<open>An operation that appends bytes to the buffer and may change the scratch array.\<close>

definition wrote :: "u8 list \<Rightarrow> protobuf \<Rightarrow> protobuf \<Rightarrow> bool" where
  "wrote xs p p' \<longleftrightarrow> pb_data p' = pb_data p @ xs \<and> length (pb_tmp p') = length (pb_tmp p) \<and>
     pb_nest p' = pb_nest p"

lemma wrote_trans: "wrote xs p q \<Longrightarrow> wrote ys q r \<Longrightarrow> wrote (xs @ ys) p r"
  by (simp add: wrote_def)

lemma wrote_msg [simp, intro]: "wrote (enc_field (LenField (unat tag) xs)) p (pb_msg tag xs p)"
  by (simp add: wrote_def)

lemma wrote_append [simp, intro]: "wrote xs p (pb_append xs p)"
  by (simp add: wrote_def)

lemma wrote_rep [simp, intro]: "wrote (enc_fields (rep_fields (unat tag) xs)) p (pb_rep tag xs p)"
  by (simp add: wrote_def)

lemma pb_endMessage_wrote:
  assumes "wrote xs (p\<lparr>pb_nest := pb_nest p + 1\<rparr>) q" and "unat tag < 16" and "length (pb_tmp p) = 16"
  shows "\<exists>q'. pb_endMessage tag (length (pb_data p)) q = Some q' \<and>
    wrote (enc_field (LenField (unat tag) xs)) p q'"
proof -
  have "pb_data q = pb_data p @ xs" and "length (pb_tmp q) = 16" and "pb_nest q = pb_nest p + 1"
    using assms by (simp_all add: wrote_def)
  then have "pb_rotate tag (length (pb_data p)) q =
      Some (q\<lparr>pb_tmp := copy_into 0 (header tag (length xs)) (pb_tmp q),
              pb_data := pb_data p @ header tag (length xs) @ xs\<rparr>)"
    using assms length_header_small [of tag "length xs"] by (intro pb_rotate_eq) simp_all
  with \<open>length (pb_tmp q) = 16\<close> \<open>pb_nest q = pb_nest p + 1\<close> assms(3) show ?thesis
    by (simp add: pb_endMessage_def wrote_def header_def)
qed

section \<open>Emitting messages\<close>

text \<open>
  \<open>emits ms b b'\<close>: between the states \<open>b\<close> and \<open>b'\<close>
  exactly the messages \<open>ms\<close> were appended to the stream, the string table only
  grew, and it holds the strings of the messages.
\<close>

definition pb_ok :: "profileBuilder \<Rightarrow> bool" where
  "pb_ok b \<longleftrightarrow> length (pb_tmp (bd_pb b)) = 16 \<and> pb_nest (bd_pb b) = 0 \<and> tbl_ok b"

definition emits :: "profile_msg list \<Rightarrow> profileBuilder \<Rightarrow> profileBuilder \<Rightarrow> bool" where
  "emits ms b b' \<longleftrightarrow> pb_ok b' \<and> prefix (bd_strings b) (bd_strings b') \<and>
     (\<forall>m \<in> set ms. msg_strings m \<subseteq> set (bd_strings b')) \<and>
     bd_stream b' = bd_stream b @ enc_msgs (names b') ms"

lemma names_prefix:
  "prefix (bd_strings b) (bd_strings b') \<Longrightarrow> s \<in> set (bd_strings b) \<Longrightarrow> names b' s = names b s"
  by (auto simp: names_def elim!: prefixE)

lemma enc_msgs_prefix:
  assumes "prefix (bd_strings b) (bd_strings b')" and "\<forall>m \<in> set ms. msg_strings m \<subseteq> set (bd_strings b)"
  shows "enc_msgs (names b') ms = enc_msgs (names b) ms"
  using assms by (intro enc_msgs_cong) (auto intro: names_prefix)

lemma emits_refl [simp, intro]: "pb_ok b \<Longrightarrow> emits [] b b"
  by (simp add: emits_def)

lemma emits_trans:
  assumes "emits ms b b1" and "emits ns b1 b2"
  shows "emits (ms @ ns) b b2"
proof -
  have "enc_msgs (names b2) ms = enc_msgs (names b1) ms"
    using assms by (intro enc_msgs_prefix) (auto simp: emits_def)
  moreover have "set (bd_strings b1) \<subseteq> set (bd_strings b2)"
    using assms(2) by (simp add: emits_def set_mono_prefix)
  ultimately show ?thesis
    using assms by (auto simp: emits_def)
qed

lemma prefix_intern [simp]: "tbl_ok b \<Longrightarrow> prefix (bd_strings b) (bd_strings (intern s b))"
  by (simp add: bd_strings_intern)

lemma emits_pb:
  assumes "pb_ok b" and "tbl_ok b'" and "prefix (bd_strings b) (bd_strings b')" and "bd_zw b' = bd_zw b"
    and "wrote (enc_msgs (names b') ms) (bd_pb b) p" and "\<forall>m \<in> set ms. msg_strings m \<subseteq> set (bd_strings b')"
  shows "emits ms b (b'\<lparr>bd_pb := p\<rparr>)"
  using assms by (simp add: emits_def pb_ok_def wrote_def bd_stream_def)

lemma flush_sel [simp]:
  "bd_strings (flush b) = bd_strings b" "bd_stringMap (flush b) = bd_stringMap b"
  "bd_locs (flush b) = bd_locs b" "bd_funcs (flush b) = bd_funcs b" "bd_deck (flush b) = bd_deck b"
  "bd_opt (flush b) = bd_opt b" "bd_start (flush b) = bd_start b"
  "bd_end (flush b) = bd_end b" "bd_period (flush b) = bd_period b"
  "bd_havePeriod (flush b) = bd_havePeriod b" "zw_closed (bd_zw (flush b)) = zw_closed (bd_zw b)"
  "bd_stream (flush b) = bd_stream b"
  by (simp_all add: flush_def bd_stream_def)

lemma tbl_flush [simp]: "tbl_ok (flush b) = tbl_ok b" "names (flush b) = names b"
  by (simp_all add: tbl_ok_def names_def cong: if_cong)

lemma emits_flush: "emits ms b b' \<Longrightarrow> emits ms b (flush b')"
  by (simp add: emits_def pb_ok_def) (simp add: flush_def)

text \<open>The fields that writing a message leaves alone.\<close>

definition frame :: "profileBuilder \<Rightarrow> profileBuilder \<Rightarrow> bool" where
  "frame b b' \<longleftrightarrow> bd_locs b' = bd_locs b \<and> bd_funcs b' = bd_funcs b \<and> bd_deck b' = bd_deck b \<and>
     bd_opt b' = bd_opt b \<and> bd_start b' = bd_start b \<and> bd_end b' = bd_end b \<and>
     bd_havePeriod b' = bd_havePeriod b \<and> zw_closed (bd_zw b') = zw_closed (bd_zw b)"

definition emits_only :: "profile_msg list \<Rightarrow> profileBuilder \<Rightarrow> profileBuilder \<Rightarrow> bool" where
  "emits_only ms b b' \<longleftrightarrow> emits ms b b' \<and> frame b b'"

lemma emits_only_trans: "emits_only ms b b1 \<Longrightarrow> emits_only ns b1 b2 \<Longrightarrow> emits_only (ms @ ns) b b2"
  by (auto simp: emits_only_def frame_def intro: emits_trans)

lemma emits_only_refl [simp, intro]: "pb_ok b \<Longrightarrow> emits_only [] b b"
  by (simp add: emits_only_def frame_def emits_refl)

lemma emits_only_pb_ok: "emits_only ms b b' \<Longrightarrow> pb_ok b'"
  by (simp add: emits_only_def emits_def)

lemma emits_only_pb:
  assumes "pb_ok b" and "tbl_ok b'" and "prefix (bd_strings b) (bd_strings b')"
    and "bd_zw b' = bd_zw b" and "frame b b'"
    and "wrote (enc_msgs (names b') ms) (bd_pb b) p" and "\<forall>m \<in> set ms. msg_strings m \<subseteq> set (bd_strings b')"
  shows "emits_only ms b (b'\<lparr>bd_pb := p\<rparr>)"
  using emits_pb [of b b' ms p] assms by (simp add: emits_only_def frame_def)

lemma prefix_intern2 [simp]: "tbl_ok b \<Longrightarrow> prefix (bd_strings b) (bd_strings (intern t (intern s b)))"
  by (rule prefix_order.trans [of _ "bd_strings (intern s b)"]) simp_all

lemma frame_intern [simp]: "frame b (intern s b)" "frame b (intern t (intern s b))"
  by (simp_all add: frame_def)

lemma wrote_len: "unat tag = n \<Longrightarrow> wrote (enc_fields [LenField n xs]) p (pb_msg tag xs p)"
  by (simp add: wrote_def)

lemma pbValueType_emits:
  assumes "pb_ok b" and "unat tag < 16"
  shows "\<exists>b'. pbValueType tag typ unit b = Some b' \<and> emits_only [MValueType (unat tag) typ unit] b b'"
proof -
  let ?b = "intern unit (intern typ b)"
  have "emits_only [MValueType (unat tag) typ unit] b
      (?b\<lparr>bd_pb := pb_msg tag (enc_fields (msg_body (names ?b) (MValueType (unat tag) typ unit))) (bd_pb b)\<rparr>)"
    by (rule emits_only_pb) (use assms in \<open>auto simp: pb_ok_def wrote_def\<close>)
  then show ?thesis
    using pbValueType_eq [OF _ _ _ refl] assms by (simp add: pb_ok_def)
qed

lemma pbMapping_emits:
  assumes "pb_ok b"
  shows "\<exists>b'. pbMapping tagProfile_Mapping i st lim off f bid hf b = Some b' \<and>
    emits_only [MMapping i st lim off f bid hf] b b'"
proof -
  let ?b = "intern bid (intern f b)"
  have "emits_only [MMapping i st lim off f bid hf] b
      (?b\<lparr>bd_pb := pb_msg 3 (enc_fields (msg_body (names ?b) (MMapping i st lim off f bid hf))) (bd_pb b)\<rparr>)"
    by (rule emits_only_pb) (use assms in \<open>auto simp: pb_ok_def wrote_def\<close>)
  then show ?thesis
    using pbMapping_eq [OF _ _ refl] assms by (simp add: pb_ok_def)
qed

lemma emitFunction_emits:
  assumes "pb_ok b"
  shows "\<exists>b'. emitFunction fn b = Some b' \<and> emits_only [func_msg fn] b b'"
proof -
  let ?b = "intern (nf_file fn) (intern (nf_name fn) b)"
  have "emits_only [func_msg fn] b
      (?b\<lparr>bd_pb := pb_msg 5 (enc_fields (msg_body (names ?b) (func_msg fn))) (bd_pb b)\<rparr>)"
    by (rule emits_only_pb) (use assms in \<open>auto simp: pb_ok_def wrote_def func_msg_def\<close>)
  then show ?thesis
    using emitFunction_eq [OF _ _ refl] assms by (simp add: pb_ok_def)
qed

lemma emitFunctions_emits:
  "pb_ok b \<Longrightarrow> \<exists>b'. emitFunctions fns b = Some b' \<and> emits_only (map func_msg fns) b b'"
proof (induction fns arbitrary: b)
  case (Cons fn fns)
  then obtain b1 where b1: "emitFunction fn b = Some b1" "emits_only [func_msg fn] b b1"
    using emitFunction_emits by blast
  with Cons.IH [of b1] obtain b2 where "emitFunctions fns b1 = Some b2" "emits_only (map func_msg fns) b1 b2"
    using emits_only_pb_ok by blast
  with b1 emits_only_trans [OF b1(2)] show ?case
    by fastforce
qed auto

lemma pbSampleTypes_emits:
  "pb_ok b \<Longrightarrow> \<exists>b'. pbSampleTypes sts b = Some b' \<and>
     emits_only (map (\<lambda>st. MValueType 1 (vt_Typ st) (vt_Unit st)) sts) b b'"
proof (induction sts arbitrary: b)
  case (Cons st sts)
  then obtain b1 where b1: "pbValueType tagProfile_SampleType (vt_Typ st) (vt_Unit st) b = Some b1"
      "emits_only [MValueType 1 (vt_Typ st) (vt_Unit st)] b b1"
    using pbValueType_emits [of b tagProfile_SampleType "vt_Typ st" "vt_Unit st"] by auto
  with Cons.IH [of b1] obtain b2 where "pbSampleTypes sts b1 = Some b2"
      "emits_only (map (\<lambda>st. MValueType 1 (vt_Typ st) (vt_Unit st)) sts) b1 b2"
    using emits_only_pb_ok by blast
  with b1 emits_only_trans [OF b1(2)] show ?case
    by fastforce
qed auto

definition mapping_msgs :: "nat \<Rightarrow> memMap list \<Rightarrow> profile_msg list" where
  "mapping_msgs i ms =
     map (\<lambda>(k, m). MMapping (word_of_nat (k + 1)) (mm_start m) (mm_end m) (mm_offset m) (mm_file m)
            (mm_buildID m) (mm_funcs m = lookupTried)) (enumerate i ms)"

lemma pbMappings_emits:
  "pb_ok b \<Longrightarrow> \<exists>b'. pbMappings i ms b = Some b' \<and> emits_only (mapping_msgs i ms) b b'"
proof (induction ms arbitrary: i b)
  case Nil
  then show ?case
    by (auto simp: mapping_msgs_def)
next
  case (Cons m ms)
  let ?m = "MMapping (word_of_nat (i + 1)) (mm_start m) (mm_end m) (mm_offset m) (mm_file m)
            (mm_buildID m) (mm_funcs m = lookupTried)"
  obtain b1 where b1: "pbMapping tagProfile_Mapping (word_of_nat (i + 1)) (mm_start m) (mm_end m)
      (mm_offset m) (mm_file m) (mm_buildID m) (mm_funcs m = lookupTried) b = Some b1"
      "emits_only [?m] b b1"
    using pbMapping_emits [OF Cons.prems] by blast
  with Cons.IH [of b1 "i + 1"] obtain b2 where "pbMappings (i + 1) ms b1 = Some b2"
      "emits_only (mapping_msgs (i + 1) ms) b1 b2"
    using emits_only_pb_ok by blast
  with b1 emits_only_trans [OF b1(2)] show ?case
    by (fastforce simp: mapping_msgs_def)
qed

text \<open>A field of the profile message itself.\<close>

lemma on_pb_emits:
  assumes "pb_ok b" and "\<And>p. f p = pb_append (enc_msgs (names b) ms) p"
    and "\<forall>m \<in> set ms. msg_strings m \<subseteq> set (bd_strings b)"
  shows "emits_only ms b (on_pb f b)"
  unfolding on_pb_def using assms
  by (intro emits_only_pb) (auto simp: pb_ok_def frame_def wrote_def)

lemma int64Opt_emits:
  assumes "pb_ok b" and "unat tag < 16"
  shows "emits_only [MInt (unat tag) v] b (on_pb (pb_int64Opt tag v) b)"
  by (rule on_pb_emits) (use assms in \<open>auto simp: pb_simps num_field_def\<close>)

lemma strings_emits:
  assumes "pb_ok b"
  shows "emits_only (map MString xs) b (on_pb (pb_strings tagProfile_StringTable xs) b)"
proof (rule on_pb_emits [OF assms])
  show "pb_strings tagProfile_StringTable xs p = pb_append (enc_msgs (names b) (map MString xs)) p" for p
    by (simp add: pb_simps enc_msgs_def comp_def concat_map_singleton)
qed auto

definition sample_label :: "i64 \<Rightarrow> (string \<times> string \<times> i64) option" where
  "sample_label blockSize = (if blockSize \<noteq> 0 then Some (''bytes'', [], blockSize) else None)"

text \<open>The optional label of a sample, inside the sample's message.\<close>

lemma label_wrote:
  assumes "length (pb_tmp (bd_pb b)) = 16" and "tbl_ok b"
  shows "\<exists>b' p. (if n \<noteq> 0 then pbLabel tagSample_Label ''bytes'' [] n b else Some b) = Some (b'\<lparr>bd_pb := p\<rparr>) \<and>
    tbl_ok b' \<and> prefix (bd_strings b) (bd_strings b') \<and> bd_zw b' = bd_zw b \<and> frame b b' \<and>
    msg_strings (MSample vs ls (sample_label n)) \<subseteq> set (bd_strings b') \<and>
    wrote (enc_fields (label_fields (names b') (sample_label n))) (bd_pb b) p"
proof (cases "n = 0")
  case True
  then show ?thesis
    using assms by (intro exI [of _ b] exI [of _ "bd_pb b"])
      (simp add: sample_label_def label_fields_def wrote_def frame_def)
next
  case False
  let ?b = "intern [] (intern ''bytes'' b)"
  show ?thesis
    using assms False pbLabel_eq [OF assms refl, of "''bytes''" "[]" n]
    by (intro exI [of _ ?b] exI [of _ "pb_msg 3 (enc_fields (label_body (names ?b) (''bytes'', [], n))) (bd_pb b)"])
      (auto simp: sample_label_def label_fields_def wrote_def)
qed

lemma Sample_emits:
  assumes "pb_ok b"
  shows "\<exists>b'. Sample values locs blockSize b = Some b' \<and>
    emits_only [MSample values locs (sample_label blockSize)] b b'"
proof -
  let ?p0 = "(bd_pb b)\<lparr>pb_nest := pb_nest (bd_pb b) + 1\<rparr>"
  let ?p2 = "pb_rep 1 locs (pb_rep 2 values ?p0)"
  obtain b1 p where label: "(if blockSize \<noteq> 0 then pbLabel tagSample_Label ''bytes'' [] blockSize (b\<lparr>bd_pb := ?p2\<rparr>)
        else Some (b\<lparr>bd_pb := ?p2\<rparr>)) = Some (b1\<lparr>bd_pb := p\<rparr>)"
    and b1: "tbl_ok b1" "prefix (bd_strings b) (bd_strings b1)" "bd_zw b1 = bd_zw b" "frame b b1"
      "msg_strings (MSample values locs (sample_label blockSize)) \<subseteq> set (bd_strings b1)"
    and w: "wrote (enc_fields (label_fields (names b1) (sample_label blockSize))) ?p2 p"
    using label_wrote [of "b\<lparr>bd_pb := ?p2\<rparr>" blockSize "values" locs] assms
    by (auto simp: pb_ok_def frame_def)
  have tmp: "length (pb_tmp (bd_pb b)) = 16"
    using assms by (simp add: pb_ok_def)
  have "wrote (enc_fields (rep_fields 2 values) @ enc_fields (rep_fields 1 locs) @
      enc_fields (label_fields (names b1) (sample_label blockSize))) ?p0 p"
    using w by (simp add: wrote_def)
  then obtain q where q: "pb_endMessage 2 (length (pb_data (bd_pb b))) p = Some q"
    and wq: "wrote (enc_msgs (names b1) [MSample values locs (sample_label blockSize)]) (bd_pb b) q"
    using pb_endMessage_wrote [of _ "bd_pb b" p 2] assms by (fastforce simp: pb_ok_def)
  have "Sample values locs blockSize b = Some (flush (b1\<lparr>bd_pb := q\<rparr>))"
    using tmp label q by (simp add: Sample_def message_simps pb_simps split del: if_split)
  moreover have "emits_only [MSample values locs (sample_label blockSize)] b (b1\<lparr>bd_pb := q\<rparr>)"
    by (rule emits_only_pb) (use assms b1 wq in auto)
  ultimately show ?thesis
    by (auto simp: emits_only_def frame_def intro!: emits_flush)
qed

section \<open>Beginning and end of a profile\<close>

definition start_msgs :: "ProfileConfig \<Rightarrow> profile_msg list" where
  "start_msgs stc =
     [MValueType 11 (vt_Typ (pc_PeriodType stc)) (vt_Unit (pc_PeriodType stc)), MInt 12 (pc_Period stc)] @
     map (\<lambda>st. MValueType 1 (vt_Typ st) (vt_Unit st)) (pc_SampleType stc) @
     (if pc_DefaultSampleType stc \<noteq> [] then [MDefaultSampleType (pc_DefaultSampleType stc)] else [])"

definition new_builder :: "i64 \<Rightarrow> memMap list \<Rightarrow> gzWriter \<Rightarrow> ProfileBuilderOptions \<Rightarrow> profileBuilder" where
  "new_builder now readMapping zw opt =
     \<lparr>bd_start = now, bd_end = 0, bd_havePeriod = False, bd_period = 0, bd_zw = zw,
      bd_pb = pb_empty, bd_strings = [[]], bd_stringMap = [[] \<mapsto> 0], bd_locs = [], bd_funcs = [],
      bd_deck = \<lparr>dk_pcs = [], dk_frames = [], dk_symbolizeResult = 0, dk_firstPCFrames = 0,
        dk_firstPCSymbolizeResult = 0\<rparr>,
      bd_opt = opt_mapping readMapping opt\<rparr>"

lemma pb_ok_new [simp]: "pb_ok (new_builder now readMapping zw opt)"
  by (auto simp: pb_ok_def tbl_ok_def new_builder_def pb_empty_def idx_def fun_eq_iff)

lemma default_emits:
  assumes "pb_ok b"
  shows "emits_only [MDefaultSampleType s] b (on_pb (pb_int64Opt tagProfile_DefaultSampleType
      (fst (stringIndex s b))) (snd (stringIndex s b)))"
proof -
  let ?p = "pb_append (enc_fields (ref_field 14 (names (intern s b) s))) (bd_pb b)"
  have "emits_only [MDefaultSampleType s] b ((intern s b)\<lparr>bd_pb := ?p\<rparr>)"
    by (rule emits_only_pb) (use assms in \<open>auto simp: pb_ok_def\<close>)
  then show ?thesis
    using assms by (simp add: stringIndex_eq on_pb_def pb_simps ref_field_def unat_word_of_nat_u64 pb_ok_def)
qed

lemma NewProfileBuilder_emits:
  "\<exists>b. NewProfileBuilder now readMapping zw opt stc = Some b \<and>
     emits_only (start_msgs stc) (new_builder now readMapping zw opt) b"
proof -
  let ?b0 = "new_builder now readMapping zw opt"
  let ?types = "map (\<lambda>st. MValueType 1 (vt_Typ st) (vt_Unit st)) (pc_SampleType stc)"
  obtain b1 where b1: "pbValueType tagProfile_PeriodType (vt_Typ (pc_PeriodType stc))
      (vt_Unit (pc_PeriodType stc)) ?b0 = Some b1"
      "emits_only [MValueType 11 (vt_Typ (pc_PeriodType stc)) (vt_Unit (pc_PeriodType stc))] ?b0 b1"
    using pbValueType_emits [of ?b0 tagProfile_PeriodType "vt_Typ (pc_PeriodType stc)"
        "vt_Unit (pc_PeriodType stc)"] by auto
  let ?b2 = "on_pb (pb_int64Opt tagProfile_Period (pc_Period stc)) b1"
  have b2: "emits_only [MInt 12 (pc_Period stc)] b1 ?b2"
    using int64Opt_emits [of b1 tagProfile_Period] emits_only_pb_ok [OF b1(2)] by simp
  obtain b3 where b3: "pbSampleTypes (pc_SampleType stc) ?b2 = Some b3" "emits_only ?types ?b2 b3"
    using pbSampleTypes_emits [OF emits_only_pb_ok [OF b2]] by blast
  note b123 = emits_only_trans [OF b1(2) emits_only_trans [OF b2 b3(2)]]
  let ?d = "pc_DefaultSampleType stc"
  have "?d \<noteq> [] \<Longrightarrow> ?thesis"
    using emits_only_trans [OF b123 default_emits [OF emits_only_pb_ok [OF b3(2)], of ?d]] b1(1) b3(1)
    by (simp add: NewProfileBuilder_def start_msgs_def new_builder_def [symmetric] case_prod_beta)
  moreover have "?d = [] \<Longrightarrow> ?thesis"
    using b123 b1(1) b3(1)
    by (simp add: NewProfileBuilder_def start_msgs_def new_builder_def [symmetric])
  ultimately show ?thesis
    by blast
qed

text \<open>
  \<^verbatim>\<open>Build\<close> of a builder without a CPU period, which is every builder of
  this module: the time, the mappings and the string table, and the writer is closed.
\<close>

definition build_msgs :: "profileBuilder \<Rightarrow> profile_msg list" where
  "build_msgs b = MInt 9 (bd_start b) # mapping_msgs 0 (bd_mem b)"

lemma bd_mem_upd [simp]: "bd_mem (on_pb f b) = bd_mem b" "bd_mem (b\<lparr>bd_end := e\<rparr>) = bd_mem b"
  by (simp_all add: bd_mem_def on_pb_def)

lemma Build_emits:
  assumes "pb_ok b" and "\<not> bd_havePeriod b"
  shows "\<exists>b1 b'. Build now b = Some b' \<and> emits (build_msgs b) b b1 \<and> zw_closed (bd_zw b') \<and> bd_opt b' = bd_opt b \<and>
    zw_written (bd_zw b') = bd_stream b1 @ enc_msgs (names b1) (map MString (bd_strings b1))"
proof -
  let ?b0 = "b\<lparr>bd_end := now\<rparr>"
  let ?b1 = "on_pb (pb_int64Opt tagProfile_TimeNanos (bd_start b)) ?b0"
  have "pb_ok ?b0" and stream0: "bd_stream ?b0 = bd_stream b"
    using assms by (simp_all add: pb_ok_def tbl_ok_def bd_stream_def cong: if_cong)
  then have b1: "emits_only [MInt 9 (bd_start b)] ?b0 ?b1"
    using int64Opt_emits [of ?b0 tagProfile_TimeNanos] by simp
  then obtain b2 where b2: "pbMappings 0 (bd_mem ?b1) ?b1 = Some b2" "emits_only (mapping_msgs 0 (bd_mem ?b1)) ?b1 b2"
    using pbMappings_emits [OF emits_only_pb_ok] by blast
  have e02: "emits_only (build_msgs b) ?b0 b2"
    using emits_only_trans [OF b1 b2(2)] by (simp add: build_msgs_def)
  then have "emits (build_msgs b) b b2"
    by (simp add: emits_only_def emits_def stream0)
  moreover define b3 where "b3 = on_pb (pb_strings tagProfile_StringTable (bd_strings b2)) b2"
  have "emits_only (map MString (bd_strings b2)) b2 b3"
    unfolding b3_def by (rule strings_emits) (use b2(2) in \<open>rule emits_only_pb_ok\<close>)
  then have "bd_stream b3 = bd_stream b2 @ enc_msgs (names b2) (map MString (bd_strings b2))"
    by (simp add: emits_only_def emits_def b3_def)
  moreover have "Build now b = Some (b3\<lparr>bd_zw := \<lparr>zw_written = bd_stream b3, zw_closed = True\<rparr>\<rparr>)"
    using assms b2(1) by (simp add: Build_def b3_def bd_stream_def on_pb_def Let_def)
  moreover have "bd_opt b3 = bd_opt b"
    using e02 by (simp add: b3_def on_pb_def emits_only_def frame_def)
  ultimately show ?thesis
    by fastforce
qed

end
