(* ===== verification/ProfileDecode.thy ===== *)
theory ProfileDecode
  imports ProfileMessages
begin

text \<open>
  A decoder for the profile format and the proof that it inverts the encoding.

  The decoder is the specification of what a reader of a profile sees: varint fields
  with the last value winning and zero as the default, packed or unpacked repeated
  fields, nested messages, and strings resolved through the string table.
\<close>

section \<open>The decoder\<close>

definition step_num :: "nat \<Rightarrow> wire_field \<Rightarrow> nat \<Rightarrow> nat" where
  "step_num t f acc = (case f of VarintField t' v \<Rightarrow> (if t' = t then v else acc) | LenField t' bs \<Rightarrow> acc)"

definition get_num :: "nat \<Rightarrow> wire_field list \<Rightarrow> nat" where
  "get_num t fs = fold (step_num t) fs 0"

definition get_lens :: "nat \<Rightarrow> wire_field list \<Rightarrow> u8 list list" where
  "get_lens t fs =
     concat (map (\<lambda>f. case f of VarintField t' v \<Rightarrow> [] | LenField t' bs \<Rightarrow> (if t' = t then [bs] else [])) fs)"

function dec_varints :: "u8 list \<Rightarrow> nat list option" where
  "dec_varints bs =
     (if bs = [] then Some []
      else case dec_varint bs of
        None \<Rightarrow> None
      | Some (v, r) \<Rightarrow> map_option (Cons v) (dec_varints r))"
  by pat_completeness auto
termination
  by (relation "measure length") (auto dest: dec_varint_shorter)

declare dec_varints.simps [simp del]

fun get_reps :: "nat \<Rightarrow> wire_field list \<Rightarrow> nat list option" where
  "get_reps t [] = Some []"
| "get_reps t (VarintField t' v # fs) =
     (if t' = t then map_option (Cons v) (get_reps t fs) else get_reps t fs)"
| "get_reps t (LenField t' bs # fs) =
     (if t' = t then do { vs \<leftarrow> dec_varints bs; ws \<leftarrow> get_reps t fs; Some (vs @ ws) }
      else get_reps t fs)"

definition dec_ref :: "string list \<Rightarrow> nat \<Rightarrow> string option" where
  "dec_ref tbl n = (if n < length tbl then Some (tbl ! n) else None)"

definition dec_line :: "u8 list \<Rightarrow> (u64 \<times> i64) option" where
  "dec_line bs = do { fs \<leftarrow> dec_fields bs; Some (word_of_nat (get_num 1 fs), word_of_nat (get_num 2 fs)) }"

definition dec_label :: "string list \<Rightarrow> u8 list \<Rightarrow> (string \<times> string \<times> i64) option" where
  "dec_label tbl bs =
     do {
       fs \<leftarrow> dec_fields bs;
       k \<leftarrow> dec_ref tbl (get_num 1 fs);
       s \<leftarrow> dec_ref tbl (get_num 2 fs);
       Some (k, s, word_of_nat (get_num 3 fs))
     }"

definition dec_labels :: "string list \<Rightarrow> u8 list list \<Rightarrow> (string \<times> string \<times> i64) option option" where
  "dec_labels tbl bss = (case bss of [] \<Rightarrow> Some None | bs # _ \<Rightarrow> map_option Some (dec_label tbl bs))"

definition dec_body :: "string list \<Rightarrow> nat \<Rightarrow> wire_field list \<Rightarrow> profile_msg option" where
  "dec_body tbl t fs =
     (let num = (\<lambda>k. word_of_nat (get_num k fs)); ref = (\<lambda>k. dec_ref tbl (get_num k fs)) in
      if t = 1 \<or> t = 11 then do { a \<leftarrow> ref 1; b \<leftarrow> ref 2; Some (MValueType t a b) }
      else if t = 2 then
        do {
          vs \<leftarrow> get_reps 2 fs;
          ls \<leftarrow> get_reps 1 fs;
          lb \<leftarrow> dec_labels tbl (get_lens 3 fs);
          Some (MSample (map word_of_nat vs) (map word_of_nat ls) lb)
        }
      else if t = 3 then
        do { f \<leftarrow> ref 5; bid \<leftarrow> ref 6; Some (MMapping (num 1) (num 2) (num 3) (num 4) f bid (get_num 7 fs \<noteq> 0)) }
      else if t = 4 then
        do { ls \<leftarrow> those (map dec_line (get_lens 4 fs)); Some (MLocation (num 1) (num 3) ls (num 2)) }
      else if t = 5 then
        do { n \<leftarrow> ref 2; s \<leftarrow> ref 3; f \<leftarrow> ref 4; Some (MFunction (num 1) n s f (num 5)) }
      else None)"

fun dec_msg :: "string list \<Rightarrow> wire_field \<Rightarrow> profile_msg option" where
  "dec_msg tbl (VarintField t v) =
     (if t = 14 then map_option MDefaultSampleType (dec_ref tbl v) else Some (MInt t (word_of_nat v)))"
| "dec_msg tbl (LenField t bs) =
     (if t = 6 then Some (MString (string_of_bytes bs)) else Option.bind (dec_fields bs) (dec_body tbl t))"

definition dec_profile :: "u8 list \<Rightarrow> profile_msg list option" where
  "dec_profile bs =
     do { fs \<leftarrow> dec_fields bs; those (map (dec_msg (map string_of_bytes (get_lens 6 fs))) fs) }"

section \<open>Reading fields back\<close>

lemma fold_step_num [simp]:
  "fold (step_num t) (num_field t v) 0 = unat v"
  "fold (step_num t) (ref_field t i) 0 = i mod 2 ^ 64"
  by (simp_all add: num_field_def ref_field_def opt_field_def step_num_def)

lemma fold_step_num_other [simp]:
  "t \<noteq> t' \<Longrightarrow> fold (step_num t) (num_field t' v) acc = acc"
  "t \<noteq> t' \<Longrightarrow> fold (step_num t) (ref_field t' i) acc = acc"
  by (simp_all add: num_field_def ref_field_def opt_field_def step_num_def)

lemma fold_step_num_lines [simp]: "fold (step_num t) (line_fields ls) acc = acc"
  by (induction ls) (simp_all add: line_fields_def step_num_def)

lemma fold_step_num_simps [simp]:
  "step_num t (VarintField t' v) acc = (if t' = t then v else acc)"
  "step_num t (LenField t' bs) acc = acc"
  by (simp_all add: step_num_def)

lemma get_lens_simps [simp]:
  "get_lens t [] = []" "get_lens t (fs @ gs) = get_lens t fs @ get_lens t gs"
  "get_lens t (LenField t' bs # fs) = (if t' = t then [bs] else []) @ get_lens t fs"
  "get_lens t (VarintField t' v # fs) = get_lens t fs"
  "get_lens t (num_field t' x) = []" "get_lens t (ref_field t' i) = []"
  by (simp_all add: get_lens_def num_field_def ref_field_def opt_field_def)

lemma get_lens_lines [simp]:
  "get_lens t (line_fields ls) = (if t = 4 then map (\<lambda>fl. enc_fields (line_body fl)) ls else [])"
  by (induction ls) (simp_all add: line_fields_def)

lemma get_lens_reps [simp]:
  "t \<noteq> t' \<Longrightarrow> get_lens t (rep_fields t' xs) = []"
  by (induction xs) (simp_all add: rep_fields_def split: if_splits)

lemma dec_varints_enc: "dec_varints (concat (map (\<lambda>x. enc_varint (unat x)) xs)) = Some (map unat (xs :: u64 list))"
  by (induction xs) (simp_all add: dec_varints.simps [of "_ @ _"] dec_varints.simps [of "[]"])

lemma get_reps_append:
  "get_reps t (fs @ gs) = do { vs \<leftarrow> get_reps t fs; ws \<leftarrow> get_reps t gs; Some (vs @ ws) }"
  by (induction t fs rule: get_reps.induct)
    (auto simp: map_option_case bind_eq_None_conv split: option.splits Option.bind_splits)

lemma get_reps_varints: "get_reps t (map (\<lambda>x. VarintField t' (f x)) xs) = Some (if t = t' then map f xs else [])"
  by (induction xs) auto

lemma get_reps_rep [simp]:
  "get_reps t (rep_fields t' xs) = Some (if t = t' then map unat xs else [])"
  by (simp add: rep_fields_def get_reps_varints dec_varints_enc)

lemma get_reps_label [simp]: "t \<noteq> 3 \<Longrightarrow> get_reps t (label_fields \<sigma> lb) = Some []"
  by (simp add: label_fields_def split: option.splits)

text \<open>Every length of a short enough encoding fits 64 bits.\<close>

lemma fields_ok:
  assumes "length (enc_fields fs) < 2 ^ 64"
  shows "\<forall>f \<in> set fs. field_ok f"
proof
  fix f assume "f \<in> set fs"
  then have "length (enc_field f) \<le> length (enc_fields fs)"
    by (auto simp: enc_fields_def dest!: split_list)
  with assms show "field_ok f"
    by (cases f) (simp_all add: field_ok_def)
qed

lemma dec_fields_short: "length (enc_fields fs) < 2 ^ 64 \<Longrightarrow> dec_fields (enc_fields fs) = Some fs"
  by (rule dec_enc_fields) (rule fields_ok)

lemma LenField_shorter: "LenField t bs \<in> set fs \<Longrightarrow> length bs \<le> length (enc_fields fs)"
  by (auto simp: enc_fields_def dest!: split_list)

section \<open>The round trip\<close>

text \<open>
  A message that the decoder can see: optional numbers are not zero, the default sample
  type is not the empty string, and the tag of a value type is one of the two.
\<close>

fun visible :: "profile_msg \<Rightarrow> bool" where
  "visible (MInt t v) = (v \<noteq> 0)"
| "visible _ = True"

fun msg_ok :: "profile_msg \<Rightarrow> bool" where
  "msg_ok (MValueType t a b) = (t = 1 \<or> t = 11)"
| "msg_ok (MInt t v) = (t \<noteq> 14)"
| "msg_ok (MDefaultSampleType s) = (s \<noteq> [])"
| "msg_ok _ = True"

definition tbl_fits :: "string list \<Rightarrow> bool" where
  "tbl_fits tbl \<longleftrightarrow> length tbl < 2 ^ 64 \<and> tbl \<noteq> [] \<and> hd tbl = []"

lemma dec_ref_idx [simp]:
  assumes "tbl_fits tbl" and "s \<in> set tbl"
  shows "dec_ref tbl (idx tbl s mod 18446744073709551616) = Some s"
  using assms idx_less [of s tbl] by (simp add: dec_ref_def tbl_fits_def)

lemma dec_line_enc:
  assumes "length (enc_fields (line_body fl)) < 2 ^ 64"
  shows "dec_line (enc_fields (line_body fl)) = Some fl"
  using dec_fields_short [OF assms]
  by (simp add: dec_line_def get_num_def) (cases fl, simp add: line_body_def)

lemma dec_lines_enc:
  assumes "\<forall>fl \<in> set ls. length (enc_fields (line_body fl)) < 2 ^ 64"
  shows "those (map dec_line (map (\<lambda>fl. enc_fields (line_body fl)) ls)) = Some ls"
  using assms by (induction ls) (simp_all add: dec_line_enc)

lemma dec_labels_enc:
  assumes "tbl_fits tbl" and "\<forall>k s n. lb = Some (k, s, n) \<longrightarrow> {k, s} \<subseteq> set tbl"
    and "length (enc_fields (label_fields (idx tbl) lb)) < 2 ^ 64"
  shows "dec_labels tbl (get_lens 3 (label_fields (idx tbl) lb)) = Some lb"
proof (cases lb)
  case (Some l)
  then have "dec_fields (enc_fields (label_body (idx tbl) l)) = Some (label_body (idx tbl) l)"
    using assms(3) by (intro dec_fields_short) (simp add: label_fields_def)
  then show ?thesis
    using assms(1,2) Some
    by (cases l) (simp add: label_fields_def dec_labels_def dec_label_def get_num_def label_body_def)
qed (simp add: label_fields_def dec_labels_def)

lemma idx_pos:
  assumes "tbl_fits tbl" and "s \<noteq> []"
  shows "idx tbl s \<noteq> 0"
  using assms by (cases tbl) (auto simp: tbl_fits_def idx_def)

lemma dec_body_enc:
  assumes t: "tbl_fits tbl" and s: "msg_strings m \<subseteq> set tbl"
    and m: "msg_fields (idx tbl) m = [LenField k (enc_fields (msg_body (idx tbl) m))]" "msg_ok m" "k \<noteq> 6"
    and l: "length (enc_fields (msg_body (idx tbl) m)) < 2 ^ 64"
  shows "dec_body tbl k (msg_body (idx tbl) m) = Some m"
proof (cases m)
  case (MInt t v)
  with m show ?thesis
    by (simp add: num_field_def opt_field_def split: if_splits)
next
  case (MDefaultSampleType d)
  with m show ?thesis
    by (simp add: ref_field_def opt_field_def split: if_splits)
next
  case (MSample vs ls lb)
  have "dec_labels tbl (get_lens 3 (label_fields (idx tbl) lb)) = Some lb"
    by (rule dec_labels_enc [OF t]) (use s l MSample in \<open>auto split: option.splits\<close>)
  then show ?thesis
    using m MSample by (simp add: dec_body_def get_reps_append comp_def)
next
  case (MLocation i a ls mid)
  have "\<forall>fl \<in> set ls. length (enc_fields (line_body fl)) < 2 ^ 64"
  proof
    fix fl assume "fl \<in> set ls"
    then have "LenField 4 (enc_fields (line_body fl)) \<in> set (msg_body (idx tbl) m)"
      using MLocation by (auto simp: line_fields_def)
    from LenField_shorter [OF this] l show "length (enc_fields (line_body fl)) < 2 ^ 64"
      by simp
  qed
  with m MLocation show ?thesis
    by (simp add: dec_body_def get_num_def dec_lines_enc del: map_map)
qed (use t s m in \<open>auto simp: dec_body_def get_num_def\<close>)

lemma dec_msg_enc:
  assumes t: "tbl_fits tbl" and s: "msg_strings m \<subseteq> set tbl" and m: "msg_ok m" "visible m"
    and l: "length (enc_fields (msg_fields (idx tbl) m)) < 2 ^ 64"
  shows "\<exists>f. msg_fields (idx tbl) m = [f] \<and> dec_msg tbl f = Some m"
proof -
  have len: ?thesis if f: "msg_fields (idx tbl) m = [LenField k (enc_fields (msg_body (idx tbl) m))]" "k \<noteq> 6" for k
  proof -
    have "length (enc_fields (msg_body (idx tbl) m)) < 2 ^ 64"
      using l f by simp
    then show ?thesis
      using dec_body_enc [OF t s f(1) m(1) f(2)] dec_fields_short f by simp
  qed
  show ?thesis
  proof (cases m)
    case (MDefaultSampleType d)
    then have "idx tbl d mod 2 ^ 64 = idx tbl d" and "idx tbl d \<noteq> 0"
      using idx_less [of d tbl] idx_pos [OF t] t s m by (auto simp: tbl_fits_def)
    then show ?thesis
      using MDefaultSampleType t s dec_ref_idx [of tbl d] by (simp add: ref_field_def opt_field_def)
  qed (use m len in \<open>auto simp: num_field_def opt_field_def unat_eq_0\<close>)
qed

fun msg_string :: "profile_msg \<Rightarrow> string list" where
  "msg_string (MString s) = [s]"
| "msg_string _ = []"

definition msgs_table :: "profile_msg list \<Rightarrow> string list" where
  "msgs_table ms = concat (map msg_string ms)"

lemma msgs_table_simps [simp]:
  "msgs_table [] = []" "msgs_table (m # ms) = msg_string m @ msgs_table ms"
  "msgs_table (ms @ ns) = msgs_table ms @ msgs_table ns" "msgs_table (map MString ss) = ss"
  by (simp_all add: msgs_table_def comp_def concat_map_singleton)

lemma get_lens_label [simp]: "t \<noteq> 3 \<Longrightarrow> get_lens t (label_fields \<sigma> lb) = []"
  by (simp add: label_fields_def split: option.splits)

lemma get_lens_msg: "msg_ok m \<Longrightarrow> get_lens 6 (msg_fields \<sigma> m) = map bytes_of (msg_string m)"
  by (cases m) auto

lemma get_lens_msgs:
  "\<forall>m \<in> set ms. msg_ok m \<Longrightarrow>
   get_lens 6 (concat (map (msg_fields \<sigma>) ms)) = map bytes_of (msgs_table ms)"
  by (induction ms) (simp_all add: get_lens_msg)

lemma length_msg_string: "length (msg_string m) \<le> length (enc_fields (msg_fields \<sigma> m))"
proof (cases m)
  case (MString s)
  have "0 < length (enc_varint 50)"
    using enc_varint_nonempty by blast
  with MString show ?thesis
    by (simp add: Suc_le_eq)
qed simp_all

lemma length_msgs_table: "length (msgs_table ms) \<le> length (enc_msgs \<sigma> ms)"
  by (induction ms) (use length_msg_string in \<open>fastforce intro: add_mono\<close>)+

lemma dec_msgs_enc:
  assumes "tbl_fits tbl" and "\<forall>m \<in> set ms. msg_ok m \<and> msg_strings m \<subseteq> set tbl"
    and "length (enc_msgs (idx tbl) ms) < 2 ^ 64"
  shows "those (map (dec_msg tbl) (concat (map (msg_fields (idx tbl)) ms))) = Some (filter visible ms)"
  using assms(2,3)
proof (induction ms)
  case (Cons m ms)
  then have IH: "those (map (dec_msg tbl) (concat (map (msg_fields (idx tbl)) ms))) = Some (filter visible ms)"
    by simp
  show ?case
  proof (cases "visible m")
    case True
    then obtain f where "msg_fields (idx tbl) m = [f]" and "dec_msg tbl f = Some m"
      using dec_msg_enc [OF assms(1), of m] Cons.prems by auto
    with True IH show ?thesis
      by simp
  next
    case False
    then obtain t where "m = MInt t 0"
      by (cases m) auto
    with IH show ?thesis
      by (simp add: num_field_def opt_field_def)
  qed
qed simp

lemma dec_profile_enc:
  assumes "msgs_table ms = tbl" and "tbl \<noteq> []" and "hd tbl = []"
    and ok: "\<forall>m \<in> set ms. msg_ok m \<and> msg_strings m \<subseteq> set tbl"
    and l: "length (enc_msgs (idx tbl) ms) < 2 ^ 64"
  shows "dec_profile (enc_msgs (idx tbl) ms) = Some (filter visible ms)"
proof -
  have "tbl_fits tbl"
    using assms length_msgs_table [of ms "idx tbl"] by (simp add: tbl_fits_def)
  moreover have "dec_fields (enc_msgs (idx tbl) ms) = Some (concat (map (msg_fields (idx tbl)) ms))"
    using l unfolding enc_msgs_def by (rule dec_fields_short)
  moreover have "map string_of_bytes (get_lens 6 (concat (map (msg_fields (idx tbl)) ms))) = tbl"
    using ok assms(1) by (simp add: get_lens_msgs comp_def)
  ultimately show ?thesis
    using dec_msgs_enc [of tbl ms] ok l by (simp add: dec_profile_def)
qed

end
