(* ===== verification/Locations.thy ===== *)
theory Locations
  imports ProfileDecode
begin

text \<open>
  Correctness of the locations: \<^verbatim>\<open>emitLocation\<close> and
  \<^verbatim>\<open>LocsForStack\<close> of
  \<^verbatim>\<open>godeltaprof/internal/pprof/proto.go\<close>.

  The reference \<open>groups\<close> splits a stack into inline groups without any
  cache; the loop of the code, with its location cache, its deck of pending frames and
  its look-ups before and after emitting, is shown to give the location of every group,
  and every location message is shown to hold the frames of its group.
\<close>

section \<open>Functions and lines\<close>

lemma update_fresh: "k \<notin> fst ` set al \<Longrightarrow> AList.update k v al = al @ [(k, v)]"
  by (induction al) auto

lemma map_of_append_key: "k \<in> fst ` set xs \<Longrightarrow> map_of (xs @ ys) k = map_of xs k"
  by (auto simp: map_add_def dest!: weak_map_of_SomeI split: option.splits)

text \<open>The numbers of a table: 1, 2, \<dots> in insertion order, with distinct keys.\<close>

definition numbered :: "('k \<times> nat) list \<Rightarrow> bool" where
  "numbered fs \<longleftrightarrow> distinct (map fst fs) \<and> map snd fs = [1..<Suc (length fs)]"

lemma numbered_pos: "numbered fs \<Longrightarrow> map_of fs k = Some i \<Longrightarrow> 0 < i \<and> i \<le> length fs"
proof -
  assume "numbered fs" and "map_of fs k = Some i"
  then have "i \<in> set (map snd fs)"
    by (force dest: map_of_SomeD)
  with \<open>numbered fs\<close> show ?thesis
    by (auto simp: numbered_def)
qed

lemma numbered_snoc [simp]:
  "numbered fs \<Longrightarrow> k \<notin> fst ` set fs \<Longrightarrow> numbered (fs @ [(k, Suc (length fs))])"
  by (simp add: numbered_def)

text \<open>The function table after a list of frames, and the functions it gained.\<close>

definition add_func :: "runtime_env \<Rightarrow> runtime_Frame \<Rightarrow> (string \<times> nat) list \<Rightarrow> (string \<times> nat) list" where
  "add_func rt f fs =
     (if rt_FrameSymbolName rt f \<in> fst ` set fs then fs
      else fs @ [(rt_FrameSymbolName rt f, Suc (length fs))])"

definition func_of :: "runtime_env \<Rightarrow> bool \<Rightarrow> runtime_Frame \<Rightarrow> nat \<Rightarrow> newFunc" where
  "func_of rt generics f i =
     \<lparr>nf_id = i, nf_name = (if generics then rt_FrameSymbolName rt f else fr_Function f),
      nf_file = fr_File f, nf_startLine = rt_FrameStartLine rt f\<rparr>"

fun new_funcs :: "runtime_env \<Rightarrow> bool \<Rightarrow> runtime_Frame list \<Rightarrow> (string \<times> nat) list \<Rightarrow> newFunc list" where
  "new_funcs rt g [] fs = []"
| "new_funcs rt g (f # frs) fs =
     (if rt_FrameSymbolName rt f \<in> fst ` set fs then [] else [func_of rt g f (Suc (length fs))]) @
     new_funcs rt g frs (add_func rt f fs)"

definition frame_lines :: "runtime_env \<Rightarrow> (string \<times> nat) list \<Rightarrow> runtime_Frame list \<Rightarrow> (u64 \<times> i64) list" where
  "frame_lines rt fs frs =
     map (\<lambda>f. (word_of_nat (the (map_of fs (rt_FrameSymbolName rt f))), fr_Line f)) frs"

lemma numbered_add_func [simp]: "numbered fs \<Longrightarrow> numbered (add_func rt f fs)"
  by (simp add: add_func_def)

lemma numbered_fold_add_func [simp]: "numbered fs \<Longrightarrow> numbered (fold (add_func rt) frs fs)"
  by (induction frs arbitrary: fs) simp_all

lemma prefix_fold_add_func [simp]: "prefix fs (fold (add_func rt) frs fs)"
proof (induction frs arbitrary: fs)
  case (Cons f frs)
  have "prefix fs (add_func rt f fs)"
    by (simp add: add_func_def)
  then show ?case
    using Cons [of "add_func rt f fs"] by (simp add: prefix_order.trans)
qed simp

lemma fold_add_func_keys [simp]:
  "fst ` set (fold (add_func rt) frs fs) = fst ` set fs \<union> rt_FrameSymbolName rt ` set frs"
  by (induction frs arbitrary: fs) (auto simp: add_func_def)

lemma map_of_prefix: "prefix fs fs' \<Longrightarrow> k \<in> fst ` set fs \<Longrightarrow> map_of fs' k = map_of fs k"
  by (auto elim!: prefixE simp del: map_of_append intro!: map_of_append_key)

lemma frame_lines_prefix:
  "prefix fs fs' \<Longrightarrow> \<forall>f \<in> set frs. rt_FrameSymbolName rt f \<in> fst ` set fs \<Longrightarrow>
   frame_lines rt fs' frs = frame_lines rt fs frs"
  unfolding frame_lines_def by (rule map_cong [OF refl]) (metis map_of_prefix)

text \<open>The loop over the frames of a location.\<close>

lemma getFuncID_eq:
  assumes "numbered (bd_funcs b)"
  shows "getFuncID rt f b nf =
    (the (map_of (add_func rt f (bd_funcs b)) (rt_FrameSymbolName rt f)),
     b\<lparr>bd_funcs := add_func rt f (bd_funcs b)\<rparr>,
     nf @ new_funcs rt (opt_GenericsFrames (bd_opt b)) [f] (bd_funcs b))"
proof (cases "map_of (bd_funcs b) (rt_FrameSymbolName rt f)")
  case None
  then have "rt_FrameSymbolName rt f \<notin> fst ` set (bd_funcs b)"
    by (simp add: map_of_eq_None_iff)
  with None show ?thesis
    by (simp add: getFuncID_def Let_def add_func_def update_fresh func_of_def map_add_def)
next
  case (Some i)
  then have "rt_FrameSymbolName rt f \<in> fst ` set (bd_funcs b)"
    by (metis domI dom_map_of_conv_image_fst)
  with Some numbered_pos [OF assms Some] show ?thesis
    by (simp add: getFuncID_def Let_def add_func_def)
qed

lemma emitLines_eq:
  assumes "numbered (bd_funcs b)" and "length (pb_tmp (bd_pb b)) = 16"
  shows "\<exists>p. emitLines rt frs b nf =
      Some (b\<lparr>bd_pb := p, bd_funcs := fold (add_func rt) frs (bd_funcs b)\<rparr>,
            nf @ new_funcs rt (opt_GenericsFrames (bd_opt b)) frs (bd_funcs b)) \<and>
    wrote (enc_fields (line_fields (frame_lines rt (fold (add_func rt) frs (bd_funcs b)) frs))) (bd_pb b) p"
  using assms
proof (induction frs arbitrary: b nf)
  case Nil
  then show ?case
    by (intro exI [of _ "bd_pb b"]) (simp add: wrote_def line_fields_def frame_lines_def)
next
  case (Cons f frs)
  let ?fs = "add_func rt f (bd_funcs b)" and ?g = "opt_GenericsFrames (bd_opt b)"
  let ?i = "the (map_of ?fs (rt_FrameSymbolName rt f))"
  let ?q = "pb_msg 4 (enc_fields (line_body (word_of_nat ?i, fr_Line f))) (bd_pb b)"
  let ?b1 = "b\<lparr>bd_funcs := ?fs, bd_pb := ?q\<rparr>"
  let ?fs' = "fold (add_func rt) frs ?fs"
  have "rt_FrameSymbolName rt f \<in> fst ` set ?fs"
    by (auto simp: add_func_def)
  then have i: "the (map_of ?fs' (rt_FrameSymbolName rt f)) = ?i"
    using map_of_prefix [OF prefix_fold_add_func] by metis
  obtain p where p: "emitLines rt frs ?b1 (nf @ new_funcs rt ?g [f] (bd_funcs b)) =
      Some (?b1\<lparr>bd_pb := p, bd_funcs := ?fs'\<rparr>, (nf @ new_funcs rt ?g [f] (bd_funcs b)) @ new_funcs rt ?g frs ?fs)"
    and w: "wrote (enc_fields (line_fields (frame_lines rt ?fs' frs))) ?q p"
    using Cons.IH [of ?b1 "nf @ new_funcs rt ?g [f] (bd_funcs b)"] Cons.prems by auto
  have "emitLines rt (f # frs) b nf = emitLines rt frs ?b1 (nf @ new_funcs rt ?g [f] (bd_funcs b))"
    using Cons.prems pbLine_eq [of "b\<lparr>bd_funcs := ?fs\<rparr>" "word_of_nat ?i" "fr_Line f"]
    by (simp add: getFuncID_eq del: new_funcs.simps)
  moreover have "wrote (enc_fields (line_fields (frame_lines rt ?fs' (f # frs)))) (bd_pb b) p"
    using w i by (simp add: wrote_def frame_lines_def line_fields_def)
  ultimately show ?case
    using p by (intro exI [of _ p]) simp
qed

section \<open>Emitting a location\<close>

definition mapping_id :: "uintptr \<Rightarrow> profileBuilder \<Rightarrow> u64" where
  "mapping_id addr b = (case findMapping addr 0 (bd_mem b) of None \<Rightarrow> 0 | Some i \<Rightarrow> word_of_nat (i + 1))"

definition mark_mapping :: "uintptr \<Rightarrow> profileBuilder \<Rightarrow> ProfileBuilderOptions" where
  "mark_mapping addr b =
     (case findMapping addr 0 (bd_mem b) of
        None \<Rightarrow> bd_opt b
      | Some i \<Rightarrow> (bd_opt b)\<lparr>opt_mem := Some ((bd_mem b)[i := (bd_mem b ! i)
            \<lparr>mm_funcs := mm_funcs (bd_mem b ! i) OR dk_symbolizeResult (bd_deck b)\<rparr>])\<rparr>)"

lemma mapping_cong:
  assumes "bd_opt b = bd_opt c" and "bd_deck b = bd_deck c"
  shows "mapping_id addr b = mapping_id addr c" and "mark_mapping addr b = mark_mapping addr c"
  unfolding mapping_id_def mark_mapping_def bd_mem_def assms by (rule refl)+

lemma emitMappingID_eq:
  "emitMappingID addr b =
     b\<lparr>bd_pb := pb_append (enc_fields (num_field 2 (mapping_id addr b))) (bd_pb b),
       bd_opt := mark_mapping addr b\<rparr>"
  by (simp add: emitMappingID_def mapping_id_def mark_mapping_def on_pb_def num_field_def opt_field_def
      pb_simps Let_def bd_mem_def split: option.split)

definition deck_info :: "nat \<Rightarrow> pcDeck \<Rightarrow> locInfo" where
  "deck_info i d =
     \<lparr>li_id = i, li_pcs = dk_pcs d, li_firstPCFrames = take (dk_firstPCFrames d) (dk_frames d),
      li_firstPCSymbolizeResult = dk_firstPCSymbolizeResult d\<rparr>"

definition loc_msgs :: "runtime_env \<Rightarrow> profileBuilder \<Rightarrow> profile_msg list" where
  "loc_msgs rt b =
     MLocation (word_of_nat (Suc (length (bd_locs b)))) (fr_PC (hd (dk_frames (bd_deck b))))
       (frame_lines rt (fold (add_func rt) (dk_frames (bd_deck b)) (bd_funcs b)) (dk_frames (bd_deck b)))
       (mapping_id (hd (dk_pcs (bd_deck b))) b) #
     map func_msg (new_funcs rt (opt_GenericsFrames (bd_opt b)) (dk_frames (bd_deck b)) (bd_funcs b))"

lemma emits_deck: "emits ms b b' \<Longrightarrow> emits ms b (b'\<lparr>bd_deck := d\<rparr>)"
  by (simp add: emits_def pb_ok_def tbl_ok_def names_def bd_stream_def cong: if_cong)

lemma emitLocation_emits:
  assumes ok: "pb_ok b" "numbered (bd_funcs b)"
    and deck: "dk_pcs (bd_deck b) = addr # pcs" "dk_frames (bd_deck b) = fr # frs" (is "_ = ?frs")
    and fresh: "addr \<notin> fst ` set (bd_locs b)"
  shows "\<exists>b'. emitLocation rt b = Some (Suc (length (bd_locs b)), b') \<and> emits (loc_msgs rt b) b b' \<and>
    bd_locs b' = bd_locs b @ [(addr, deck_info (Suc (length (bd_locs b))) (bd_deck b))] \<and>
    bd_funcs b' = fold (add_func rt) (dk_frames (bd_deck b)) (bd_funcs b) \<and>
    bd_deck b' = deck_reset (bd_deck b) \<and> bd_opt b' = mark_mapping addr b \<and>
    bd_start b' = bd_start b \<and> bd_havePeriod b' = bd_havePeriod b \<and> zw_closed (bd_zw b') = zw_closed (bd_zw b)"
proof -
  let ?i = "Suc (length (bd_locs b))" and ?p0 = "(bd_pb b)\<lparr>pb_nest := pb_nest (bd_pb b) + 1\<rparr>"
  let ?locs = "bd_locs b @ [(addr, deck_info ?i (bd_deck b))]"
  let ?fs = "fold (add_func rt) ?frs (bd_funcs b)"
  let ?p1 = "pb_append (enc_fields (num_field 1 (word_of_nat ?i)) @ enc_fields (num_field 3 (fr_PC fr))) ?p0"
  have tmp: "length (pb_tmp (bd_pb b)) = 16"
    using ok by (simp add: pb_ok_def)
  let ?b1 = "b\<lparr>bd_locs := ?locs, bd_pb := ?p1\<rparr>"
  let ?new = "new_funcs rt (opt_GenericsFrames (bd_opt b)) ?frs (bd_funcs b)"
  obtain p2 where lines: "emitLines rt ?frs ?b1 [] = Some (?b1\<lparr>bd_pb := p2, bd_funcs := ?fs\<rparr>, ?new)"
    and w2: "wrote (enc_fields (line_fields (frame_lines rt ?fs ?frs))) ?p1 p2"
    using emitLines_eq [of ?b1 rt ?frs "[]"] ok tmp by auto
  let ?b2 = "?b1\<lparr>bd_pb := p2, bd_funcs := ?fs\<rparr>"
  let ?p3 = "pb_append (enc_fields (num_field 2 (mapping_id addr b))) p2"
  let ?b3 = "b\<lparr>bd_locs := ?locs, bd_funcs := ?fs, bd_opt := mark_mapping addr b\<rparr>"
  have map3: "emitMappingID addr ?b2 = ?b3\<lparr>bd_pb := ?p3\<rparr>"
    using mapping_cong [of ?b2 b addr] by (simp add: emitMappingID_eq)
  have "wrote (enc_fields (msg_body (names b) (hd (loc_msgs rt b)))) ?p0 ?p3"
    using w2 deck by (simp add: wrote_def loc_msgs_def)
  then obtain q where q: "pb_endMessage 4 (length (pb_data (bd_pb b))) ?p3 = Some q"
    and wq: "wrote (enc_msgs (names b) [hd (loc_msgs rt b)]) (bd_pb b) q"
    using pb_endMessage_wrote [of _ "bd_pb b" ?p3 4] tmp by (fastforce simp: loc_msgs_def)
  have e1: "emits [hd (loc_msgs rt b)] b (?b3\<lparr>bd_pb := q\<rparr>)"
    using wq ok by (intro emits_pb)
      (simp_all add: pb_ok_def tbl_ok_def names_def loc_msgs_def cong: if_cong)
  then obtain b4 where b4: "emitFunctions ?new (?b3\<lparr>bd_pb := q\<rparr>) = Some b4"
      "emits_only (map func_msg ?new) (?b3\<lparr>bd_pb := q\<rparr>) b4"
    using emitFunctions_emits unfolding emits_def by blast
  have "emits (loc_msgs rt b) b b4"
    using emits_trans [OF e1, of "map func_msg ?new" b4] b4(2) deck
    by (simp add: emits_only_def loc_msgs_def)
  then have "emits (loc_msgs rt b) b ((flush b4)\<lparr>bd_deck := deck_reset (bd_deck b)\<rparr>)"
    by (intro emits_flush emits_deck)
  moreover have "emitLocation rt b =
      do {
        (b', newFuncs) \<leftarrow> emitLines rt ?frs ?b1 [];
        b' \<leftarrow> on_pb_opt (pb_endMessage 4 (length (pb_data (bd_pb b)))) (emitMappingID addr b');
        b' \<leftarrow> emitFunctions newFuncs b';
        Some (?i, (flush b')\<lparr>bd_deck := deck_reset (bd_deck b')\<rparr>)
      }"
    using deck fresh by (simp add: emitLocation_def startMessage_eq Let_def num_field_def pb_simps
        update_fresh deck_info_def on_pb_def del: emitLines.simps)
  then have "emitLocation rt b = Some (?i, (flush b4)\<lparr>bd_deck := deck_reset (bd_deck b)\<rparr>)"
    unfolding lines using map3 q b4 by (simp add: on_pb_opt_def emits_only_def frame_def)
  ultimately show ?thesis
    using b4(2) deck by (auto simp: emits_only_def frame_def)
qed

section \<open>The invariant of the builder\<close>

fun loc_view :: "profile_msg list \<Rightarrow> (u64 \<times> u64 \<times> (u64 \<times> i64) list) list" where
  "loc_view [] = []"
| "loc_view (MLocation i a ls m # ms) = (i, a, ls) # loc_view ms"
| "loc_view (_ # ms) = loc_view ms"

fun func_view :: "profile_msg list \<Rightarrow> profile_msg list" where
  "func_view [] = []"
| "func_view (MFunction i n s f l # ms) = MFunction i n s f l # func_view ms"
| "func_view (_ # ms) = func_view ms"

lemma loc_view_append [simp]: "loc_view (ms @ ns) = loc_view ms @ loc_view ns"
  by (induction ms rule: loc_view.induct) simp_all

lemma func_view_append [simp]: "func_view (ms @ ns) = func_view ms @ func_view ns"
  by (induction ms rule: func_view.induct) simp_all

lemma view_funcs [simp]:
  "loc_view (map func_msg fns) = []" "func_view (map func_msg fns) = map func_msg fns"
  by (induction fns) (simp_all add: func_msg_def)

definition pc_frames :: "runtime_env \<Rightarrow> uintptr \<Rightarrow> runtime_Frame list" where
  "pc_frames rt a = fst (allFrames rt a)"

text \<open>The location of an address: its number, first address and lines.\<close>

definition loc_entry :: "runtime_env \<Rightarrow> (uintptr \<Rightarrow> uintptr list) \<Rightarrow> (string \<times> nat) list \<Rightarrow>
    uintptr \<times> locInfo \<Rightarrow> u64 \<times> u64 \<times> (u64 \<times> i64) list" where
  "loc_entry rt inl fs al =
     (word_of_nat (li_id (snd al)), fr_PC (hd (pc_frames rt (fst al))),
      frame_lines rt fs (concat (map (pc_frames rt) (inl (fst al)))))"

definition func_entry :: "runtime_env \<Rightarrow> bool \<Rightarrow> string \<times> nat \<Rightarrow> profile_msg \<Rightarrow> bool" where
  "func_entry rt g ni m \<longleftrightarrow>
     (\<exists>f. rt_FrameSymbolName rt f = fst ni \<and> m = func_msg (func_of rt g f (snd ni)))"

definition cached_ok :: "runtime_env \<Rightarrow> (uintptr \<Rightarrow> uintptr list) \<Rightarrow> uintptr \<Rightarrow> locInfo \<Rightarrow> bool" where
  "cached_ok rt inl a l \<longleftrightarrow> li_pcs l = inl a \<and> (li_firstPCFrames l, li_firstPCSymbolizeResult l) = allFrames rt a \<and>
     pc_frames rt a \<noteq> [] \<and> inl a \<noteq> []"

definition written :: "profile_msg list \<Rightarrow> profileBuilder \<Rightarrow> bool" where
  "written ms b \<longleftrightarrow> pb_ok b \<and> (\<forall>m \<in> set ms. msg_strings m \<subseteq> set (bd_strings b)) \<and>
     bd_stream b = enc_msgs (names b) ms"

definition loc_table :: "profileBuilder \<Rightarrow> (uintptr \<times> nat) list" where
  "loc_table b = map (\<lambda>(a, l). (a, li_id l)) (bd_locs b)"

definition bd_inv :: "runtime_env \<Rightarrow> (uintptr \<Rightarrow> uintptr list) \<Rightarrow> profile_msg list \<Rightarrow> profileBuilder \<Rightarrow> bool" where
  "bd_inv rt inl ms b \<longleftrightarrow>
     written ms b \<and> numbered (bd_funcs b) \<and> numbered (loc_table b) \<and>
     (\<forall>(a, l) \<in> set (bd_locs b). cached_ok rt inl a l \<and>
        (\<forall>p \<in> set (inl a). \<forall>f \<in> set (pc_frames rt p). rt_FrameSymbolName rt f \<in> fst ` set (bd_funcs b))) \<and>
     loc_view ms = map (loc_entry rt inl (bd_funcs b)) (bd_locs b) \<and>
     list_all2 (func_entry rt (opt_GenericsFrames (bd_opt b))) (bd_funcs b) (func_view ms) \<and>
     \<not> bd_havePeriod b \<and> \<not> zw_closed (bd_zw b)"

lemma written_emits: "written ms b \<Longrightarrow> emits ns b b' \<Longrightarrow> written (ms @ ns) b'"
  using enc_msgs_prefix [of b b' ms] set_mono_prefix [of "bd_strings b" "bd_strings b'"]
  by (auto simp: written_def emits_def)

text \<open>Writing messages that are neither locations nor functions.\<close>

lemma bd_inv_emits_only:
  assumes "bd_inv rt inl ms b" and "emits_only ns b b'" and "loc_view ns = []" "func_view ns = []"
  shows "bd_inv rt inl (ms @ ns) b'"
  using assms written_emits [of ms b ns b']
  by (simp add: bd_inv_def emits_only_def frame_def loc_table_def)

lemma new_funcs_entries:
  "\<exists>ks. fold (add_func rt) frs fs = fs @ ks \<and>
     list_all2 (func_entry rt g) ks (map func_msg (new_funcs rt g frs fs))"
proof (induction frs arbitrary: fs)
  case (Cons f frs)
  obtain ks where ks: "fold (add_func rt) frs (add_func rt f fs) = add_func rt f fs @ ks"
    "list_all2 (func_entry rt g) ks (map func_msg (new_funcs rt g frs (add_func rt f fs)))"
    using Cons by blast
  show ?case
  proof (cases "rt_FrameSymbolName rt f \<in> fst ` set fs")
    case True
    then have "add_func rt f fs = fs"
      by (simp add: add_func_def)
    with True ks show ?thesis
      by simp
  next
    case False
    have "func_entry rt g (rt_FrameSymbolName rt f, Suc (length fs)) (func_msg (func_of rt g f (Suc (length fs))))"
      by (auto simp: func_entry_def)
    moreover have "add_func rt f fs = fs @ [(rt_FrameSymbolName rt f, Suc (length fs))]"
      using False by (simp add: add_func_def)
    ultimately show ?thesis
      using False ks by simp
  qed
qed simp

section \<open>The deck\<close>

text \<open>The deck after adding a list of program counters to the empty deck.\<close>

definition deck_of :: "runtime_env \<Rightarrow> uintptr list \<Rightarrow> pcDeck" where
  "deck_of rt pcs = fold (\<lambda>a. deck_append a (fst (allFrames rt a)) (snd (allFrames rt a))) pcs
     \<lparr>dk_pcs = [], dk_frames = [], dk_symbolizeResult = 0, dk_firstPCFrames = 0,
      dk_firstPCSymbolizeResult = 0\<rparr>"

lemma deck_of_Nil: "deck_of rt [] = deck_reset d"
  by (simp add: deck_of_def deck_reset_def)

lemma deck_of_snoc [simp]:
  "deck_append a (fst (allFrames rt a)) (snd (allFrames rt a)) (deck_of rt pcs) = deck_of rt (pcs @ [a])"
  by (simp add: deck_of_def)

lemma deck_of_sel [simp]:
  "dk_pcs (deck_of rt pcs) = pcs" "dk_frames (deck_of rt pcs) = concat (map (pc_frames rt) pcs)"
  by (induction pcs rule: rev_induct)
    (simp_all add: deck_of_def deck_reset_def deck_append_def Let_def pc_frames_def)

lemma deck_of_first:
  "pcs \<noteq> [] \<Longrightarrow> dk_firstPCFrames (deck_of rt pcs) = length (pc_frames rt (hd pcs)) \<and>
     dk_firstPCSymbolizeResult (deck_of rt pcs) = snd (allFrames rt (hd pcs))"
proof (induction pcs rule: rev_induct)
  case (snoc a pcs)
  show ?case
  proof (cases "pcs = []")
    case True
    then show ?thesis
      by (simp add: deck_of_def deck_append_def deck_reset_def Let_def pc_frames_def)
  next
    case False
    with snoc show ?thesis
      by (simp add: deck_of_snoc [symmetric] deck_append_def Let_def pc_frames_def del: deck_of_snoc)
  qed
qed simp

section \<open>Inline groups\<close>

text \<open>
  The program counters that belong to the location of the frame \<open>lf\<close>:
  each one's first frame is an inlined caller of the last frame before it.
\<close>

fun ext :: "runtime_env \<Rightarrow> runtime_Frame \<Rightarrow> uintptr list \<Rightarrow> uintptr list" where
  "ext rt lf [] = []"
| "ext rt lf (a # stk) =
     (if pc_frames rt a \<noteq> [] \<and> inlined_in rt lf (hd (pc_frames rt a))
      then a # ext rt (last (pc_frames rt a)) stk else [])"

function groups :: "runtime_env \<Rightarrow> uintptr list \<Rightarrow> uintptr list list" where
  "groups rt [] = []"
| "groups rt (a # stk) =
     (if pc_frames rt a = [] then groups rt stk
      else (a # ext rt (last (pc_frames rt a)) stk) #
           groups rt (drop (length (ext rt (last (pc_frames rt a)) stk)) stk))"
  by pat_completeness auto
termination
  by (relation "measure (\<lambda>(rt, stk). length stk)") auto

text \<open>The groups of a stack whose first group has begun with \<open>pcs\<close>.\<close>

definition groups_from :: "runtime_env \<Rightarrow> uintptr list \<Rightarrow> uintptr list \<Rightarrow> uintptr list list" where
  "groups_from rt pcs stk =
     (if pcs = [] then groups rt stk
      else (let g = ext rt (last (pc_frames rt (last pcs))) stk in (pcs @ g) # groups rt (drop (length g) stk)))"

text \<open>
  The runtime's promise: an address that begins a group begins the same group
  \<open>inl a\<close> in every stack, after the expansion of a truncated stack.
\<close>

definition stack_ok :: "(uintptr \<Rightarrow> uintptr list) \<Rightarrow> uintptr list list \<Rightarrow> bool" where
  "stack_ok inl gs \<longleftrightarrow> (\<forall>g \<in> set gs. g = inl (hd g))"

lemma ext_prefix: "prefix (ext rt lf stk) stk"
  by (induction stk arbitrary: lf) simp_all

lemma groups_from_simps:
  "groups_from rt [] [] = []"
  "pcs \<noteq> [] \<Longrightarrow> groups_from rt pcs [] = [pcs]"
  "pc_frames rt a \<noteq> [] \<Longrightarrow> groups_from rt [] (a # stk) = groups_from rt [a] stk"
  "pcs \<noteq> [] \<Longrightarrow> pc_frames rt a \<noteq> [] \<Longrightarrow> inlined_in rt (last (pc_frames rt (last pcs))) (hd (pc_frames rt a)) \<Longrightarrow>
     groups_from rt pcs (a # stk) = groups_from rt (pcs @ [a]) stk"
  "pcs \<noteq> [] \<Longrightarrow> \<not> inlined_in rt (last (pc_frames rt (last pcs))) (hd (pc_frames rt a)) \<Longrightarrow>
     groups_from rt pcs (a # stk) = pcs # groups_from rt [] (a # stk)"
  "pcs \<noteq> [] \<Longrightarrow> pc_frames rt a = [] \<Longrightarrow> groups_from rt pcs (a # stk) = pcs # groups_from rt [] stk"
  "pc_frames rt a = [] \<Longrightarrow> groups_from rt [] (a # stk) = groups_from rt [] stk"
  by (simp_all add: groups_from_def Let_def)

lemma groups_skip:
  assumes "stack_ok inl (groups_from rt [] (a # stk))" and "pc_frames rt a \<noteq> []"
  shows "length (inl a) \<le> Suc (length stk)"
    and "groups_from rt [] (a # stk) = inl a # groups_from rt [] (drop (length (inl a)) (a # stk))"
    and "inl a \<noteq> []" "hd (inl a) = a"
proof -
  let ?g = "ext rt (last (pc_frames rt a)) stk"
  have g: "inl a = a # ?g"
    using assms by (simp add: groups_from_def stack_ok_def)
  with ext_prefix [of rt "last (pc_frames rt a)" stk] show "length (inl a) \<le> Suc (length stk)"
    by (auto dest: prefix_length_le)
  show "groups_from rt [] (a # stk) = inl a # groups_from rt [] (drop (length (inl a)) (a # stk))"
    using g assms(2) by (simp add: groups_from_def)
  show "inl a \<noteq> []" "hd (inl a) = a"
    using g by simp_all
qed

lemma stack_ok_Cons [simp]: "stack_ok inl (g # gs) \<longleftrightarrow> g = inl (hd g) \<and> stack_ok inl gs"
  by (simp add: stack_ok_def)

section \<open>Emitting keeps the invariant\<close>

definition loc_id :: "profileBuilder \<Rightarrow> uintptr \<Rightarrow> u64" where
  "loc_id b a = word_of_nat (the (map_of (loc_table b) a))"

definition has_loc :: "profileBuilder \<Rightarrow> uintptr \<Rightarrow> bool" where
  "has_loc b a \<longleftrightarrow> a \<in> fst ` set (bd_locs b)"

definition grows :: "profileBuilder \<Rightarrow> profileBuilder \<Rightarrow> bool" where
  "grows b b' \<longleftrightarrow> prefix (bd_locs b) (bd_locs b') \<and> bd_start b' = bd_start b \<and>
     opt_GenericsFrames (bd_opt b') = opt_GenericsFrames (bd_opt b)"

fun is_table :: "profile_msg \<Rightarrow> bool" where
  "is_table (MLocation i a ls m) = True"
| "is_table (MFunction i n s f l) = True"
| "is_table _ = False"

definition loop_inv :: "runtime_env \<Rightarrow> (uintptr \<Rightarrow> uintptr list) \<Rightarrow> profile_msg list \<Rightarrow> uintptr list \<Rightarrow>
    profileBuilder \<Rightarrow> bool" where
  "loop_inv rt inl ms pcs b \<longleftrightarrow> bd_inv rt inl ms b \<and> bd_deck b = deck_of rt pcs \<and>
     (\<forall>p \<in> set pcs. pc_frames rt p \<noteq> []) \<and> (pcs \<noteq> [] \<longrightarrow> \<not> has_loc b (hd pcs))"

lemma grows_trans: "grows b b1 \<Longrightarrow> grows b1 b2 \<Longrightarrow> grows b b2"
  by (auto simp: grows_def)

lemma grows_refl [simp]: "grows b b"
  by (simp add: grows_def)

lemma grows_has_loc: "grows b b' \<Longrightarrow> has_loc b a \<Longrightarrow> has_loc b' a"
  by (auto simp: grows_def has_loc_def dest: set_mono_prefix)

lemma loc_table_keys: "fst ` set (loc_table b) = fst ` set (bd_locs b)"
  by (force simp: loc_table_def image_image)

lemma grows_loc_id: "grows b b' \<Longrightarrow> has_loc b a \<Longrightarrow> loc_id b' a = loc_id b a"
  using map_of_prefix [of "loc_table b" "loc_table b'" a]
  by (simp add: grows_def has_loc_def loc_id_def loc_table_keys) (simp add: loc_table_def map_mono_prefix)

lemma opt_GenericsFrames_mark [simp]: "opt_GenericsFrames (mark_mapping a b) = opt_GenericsFrames (bd_opt b)"
  by (simp add: mark_mapping_def split: option.split)

lemma deck_info_cached:
  assumes "inl a = a # pcs" and "pc_frames rt a \<noteq> []"
  shows "cached_ok rt inl a (deck_info i (deck_of rt (a # pcs)))"
  using assms deck_of_first [of "a # pcs" rt] by (simp add: cached_ok_def deck_info_def) (simp add: pc_frames_def)

lemma loc_entry_prefix:
  assumes "prefix fs fs'"
    and "\<forall>p \<in> set (inl (fst al)). \<forall>f \<in> set (pc_frames rt p). rt_FrameSymbolName rt f \<in> fst ` set fs"
  shows "loc_entry rt inl fs' al = loc_entry rt inl fs al"
  using assms by (auto simp: loc_entry_def intro!: frame_lines_prefix)

lemma bd_inv_emitted:
  assumes inv: "bd_inv rt inl ms b" and em: "emits (loc_msgs rt b) b b'"
    and deck: "bd_deck b = deck_of rt (a # pcs)" "inl a = a # pcs" "pc_frames rt a \<noteq> []"
    and fresh: "\<not> has_loc b a"
    and locs: "bd_locs b' = bd_locs b @ [(a, deck_info (Suc (length (bd_locs b))) (bd_deck b))]"
    and funcs: "bd_funcs b' = fold (add_func rt) (dk_frames (bd_deck b)) (bd_funcs b)"
    and rest: "bd_opt b' = mark_mapping a b" "bd_havePeriod b' = bd_havePeriod b"
      "zw_closed (bd_zw b') = zw_closed (bd_zw b)"
  shows "bd_inv rt inl (ms @ loc_msgs rt b) b'"
  unfolding bd_inv_def
proof (intro conjI)
  let ?frs = "concat (map (pc_frames rt) (a # pcs))" and ?l = "deck_info (Suc (length (bd_locs b))) (bd_deck b)"
  have funcs': "bd_funcs b' = fold (add_func rt) ?frs (bd_funcs b)"
    using funcs deck(1) by (simp only: deck_of_sel)
  then have pre: "prefix (bd_funcs b) (bd_funcs b')"
    by (simp only: prefix_fold_add_func)
  have keys: "fst ` set (bd_funcs b') = fst ` set (bd_funcs b) \<union> rt_FrameSymbolName rt ` set ?frs"
    by (simp only: funcs' fold_add_func_keys)
  show "written (ms @ loc_msgs rt b) b'"
    using inv em by (auto simp: bd_inv_def intro: written_emits)
  show "numbered (bd_funcs b')"
    using inv by (simp add: bd_inv_def funcs)
  have "loc_table b' = loc_table b @ [(a, Suc (length (loc_table b)))]"
    by (simp add: loc_table_def locs deck_info_def)
  then show "numbered (loc_table b')"
    using inv fresh by (simp add: bd_inv_def has_loc_def loc_table_keys)
  show "\<forall>(a, l) \<in> set (bd_locs b'). cached_ok rt inl a l \<and>
      (\<forall>p \<in> set (inl a). \<forall>f \<in> set (pc_frames rt p). rt_FrameSymbolName rt f \<in> fst ` set (bd_funcs b'))"
    using inv deck_info_cached [of inl a pcs rt, OF deck(2,3)] unfolding locs keys
    by (fastforce simp: bd_inv_def deck)
  have "map (loc_entry rt inl (bd_funcs b')) (bd_locs b) = map (loc_entry rt inl (bd_funcs b)) (bd_locs b)"
    using inv by (intro map_cong [OF refl] loc_entry_prefix [OF pre]) (auto simp: bd_inv_def)
  moreover have "loc_view (loc_msgs rt b) = [loc_entry rt inl (bd_funcs b') (a, ?l)]"
    using deck funcs by (simp add: loc_msgs_def loc_entry_def deck_info_def)
  ultimately show "loc_view (ms @ loc_msgs rt b) = map (loc_entry rt inl (bd_funcs b')) (bd_locs b')"
    using inv by (simp add: bd_inv_def locs)
  obtain ks where "bd_funcs b' = bd_funcs b @ ks"
      "list_all2 (func_entry rt (opt_GenericsFrames (bd_opt b))) ks (func_view (loc_msgs rt b))"
    using new_funcs_entries [of rt "dk_frames (bd_deck b)" "bd_funcs b" "opt_GenericsFrames (bd_opt b)"] funcs
    by (auto simp: loc_msgs_def)
  then show "list_all2 (func_entry rt (opt_GenericsFrames (bd_opt b'))) (bd_funcs b') (func_view (ms @ loc_msgs rt b))"
    using inv rest by (simp add: bd_inv_def list_all2_appendI)
qed (use inv rest in \<open>simp_all add: bd_inv_def\<close>)

lemma emitInto_ok:
  assumes inv: "loop_inv rt inl ms pcs b" and g: "pcs = [] \<or> pcs = inl (hd pcs)"
  shows "\<exists>b' ns. emitInto rt locs b = Some (locs @ (if pcs = [] then [] else [loc_id b' (hd pcs)]), b') \<and>
    loop_inv rt inl (ms @ ns) [] b' \<and> (\<forall>m \<in> set ns. is_table m) \<and> grows b b' \<and>
    (pcs \<noteq> [] \<longrightarrow> has_loc b' (hd pcs))"
proof (cases pcs)
  case Nil
  then have "emitInto rt locs b = Some (locs, b)"
    using inv by (simp add: emitInto_def emitLocation_def loop_inv_def deck_reset_def)
  with Nil inv show ?thesis
    by (intro exI [of _ b] exI [of _ "[]"]) simp
next
  case (Cons a pcs')
  have inv': "bd_inv rt inl ms b" "bd_deck b = deck_of rt pcs" "\<not> has_loc b a" and ne: "pc_frames rt a \<noteq> []"
    using inv Cons by (auto simp: loop_inv_def)
  obtain fr frs where frs: "dk_frames (bd_deck b) = fr # frs"
    using ne Cons inv' by (cases "pc_frames rt a") simp_all
  have "pb_ok b" "numbered (bd_funcs b)"
    using inv' by (simp_all add: bd_inv_def written_def)
  moreover have "dk_pcs (bd_deck b) = a # pcs'" "a \<notin> fst ` set (bd_locs b)"
    using inv' Cons by (simp_all add: has_loc_def)
  ultimately obtain b' where em: "emitLocation rt b = Some (Suc (length (bd_locs b)), b')" "emits (loc_msgs rt b) b b'"
    and locs: "bd_locs b' = bd_locs b @ [(a, deck_info (Suc (length (bd_locs b))) (bd_deck b))]"
    and rest: "bd_funcs b' = fold (add_func rt) (dk_frames (bd_deck b)) (bd_funcs b)"
      "bd_deck b' = deck_reset (bd_deck b)" "bd_opt b' = mark_mapping a b" "bd_start b' = bd_start b"
      "bd_havePeriod b' = bd_havePeriod b" "zw_closed (bd_zw b') = zw_closed (bd_zw b)"
    using emitLocation_emits [OF _ _ _ frs] by blast
  have "bd_inv rt inl (ms @ loc_msgs rt b) b'"
    by (rule bd_inv_emitted [where pcs = pcs', OF inv'(1) em(2) _ _ ne inv'(3) locs rest(1,3,5,6)]) (use g Cons inv' in auto)
  moreover have "bd_deck b' = deck_of rt []"
    using rest by (metis deck_of_Nil)
  moreover have "loc_id b' a = word_of_nat (Suc (length (bd_locs b)))"
  proof -
    have "map_of (loc_table b) a = None"
      using inv'(3) by (simp add: map_of_eq_None_iff loc_table_keys has_loc_def)
    moreover have "loc_table b' = loc_table b @ [(a, Suc (length (bd_locs b)))]"
      by (simp add: loc_table_def locs deck_info_def)
    ultimately show ?thesis
      by (simp add: loc_id_def map_add_def)
  qed
  moreover have "\<forall>m \<in> set (loc_msgs rt b). is_table m"
    by (auto simp: loc_msgs_def func_msg_def)
  ultimately show ?thesis
    using Cons em(1) locs rest(3,4)
    by (intro exI [of _ b'] exI [of _ "loc_msgs rt b"])
      (auto simp: emitInto_def loop_inv_def grows_def has_loc_def)
qed

section \<open>The loop over the stack\<close>

text \<open>What the rest of the loop delivers from a state of the loop.\<close>

definition delivers :: "runtime_env \<Rightarrow> (uintptr \<Rightarrow> uintptr list) \<Rightarrow> profile_msg list \<Rightarrow> profileBuilder \<Rightarrow>
    u64 list \<Rightarrow> uintptr list list \<Rightarrow> (u64 list \<times> profileBuilder) option \<Rightarrow> bool" where
  "delivers rt inl ms b locs gs r \<longleftrightarrow>
     (\<exists>b' ns. r = Some (locs @ map (\<lambda>g. loc_id b' (hd g)) gs, b') \<and> bd_inv rt inl (ms @ ns) b' \<and>
        (\<forall>m \<in> set ns. is_table m) \<and> grows b b' \<and> (\<forall>g \<in> set gs. has_loc b' (hd g)))"

lemma delivers_after:
  assumes d: "delivers rt inl (ms @ ns) b1 (locs @ map (\<lambda>g. loc_id b1 (hd g)) hs) gs r"
    and "\<forall>m \<in> set ns. is_table m" and "grows b b1" and hs: "\<forall>g \<in> set hs. has_loc b1 (hd g)"
  shows "delivers rt inl ms b locs (hs @ gs) r"
proof -
  obtain b' ns' where r: "r = Some ((locs @ map (\<lambda>g. loc_id b1 (hd g)) hs) @ map (\<lambda>g. loc_id b' (hd g)) gs, b')"
    and b': "bd_inv rt inl ((ms @ ns) @ ns') b'" "\<forall>m \<in> set ns'. is_table m" "grows b1 b'"
      "\<forall>g \<in> set gs. has_loc b' (hd g)"
    using d unfolding delivers_def by blast
  have "map (\<lambda>g. loc_id b1 (hd g)) hs = map (\<lambda>g. loc_id b' (hd g)) hs"
    using hs b'(3) by (simp add: grows_loc_id)
  then show ?thesis
    using r b' assms unfolding delivers_def
    by (intro exI [of _ b'] exI [of _ "ns @ ns'"]) (auto intro: grows_trans grows_has_loc)
qed

lemma tryAdd_deck:
  assumes "\<forall>p \<in> set pcs. pc_frames rt p \<noteq> []" and "pc_frames rt a \<noteq> []"
  shows "tryAdd rt a (fst (allFrames rt a)) (snd (allFrames rt a)) (deck_of rt pcs) =
    (if pcs = [] \<or> inlined_in rt (last (pc_frames rt (last pcs))) (hd (pc_frames rt a))
     then Some (True, deck_of rt (pcs @ [a])) else Some (False, deck_of rt pcs))"
proof (cases pcs rule: rev_cases)
  case Nil
  then show ?thesis
    using deck_of_snoc [of a rt "[]"] by (simp add: tryAdd_def deck_reset_def)
next
  case (snoc ps p)
  with assms obtain f fs where f: "pc_frames rt a = f # fs" and "pc_frames rt p \<noteq> []"
    by (cases "pc_frames rt a") auto
  then show ?thesis
    using snoc deck_of_snoc [of a rt pcs] by (simp add: tryAdd_def pc_frames_def)
qed

lemma bd_inv_set_deck: "bd_inv rt inl ms b \<Longrightarrow> bd_inv rt inl ms (set_deck d b)"
  by (simp add: bd_inv_def written_def pb_ok_def tbl_ok_def names_def bd_stream_def loc_table_def
      set_deck_def cong: if_cong)

lemma loop_inv_extend:
  assumes "loop_inv rt inl ms pcs b" and "pc_frames rt a \<noteq> []" and "pcs = [] \<Longrightarrow> \<not> has_loc b a"
  shows "loop_inv rt inl ms (pcs @ [a]) (set_deck (deck_of rt (pcs @ [a])) b)"
proof -
  have "bd_inv rt inl ms (set_deck d b)" for d
    using assms(1) by (simp add: loop_inv_def bd_inv_set_deck)
  then show ?thesis
    using assms by (auto simp: loop_inv_def set_deck_def has_loc_def hd_append)
qed

lemma map_of_locs:
  assumes "bd_inv rt inl ms b"
  shows "map_of (bd_locs b) a = None \<longleftrightarrow> \<not> has_loc b a"
    and "map_of (bd_locs b) a = Some l \<Longrightarrow> cached_ok rt inl a l \<and> loc_id b a = word_of_nat (li_id l) \<and> has_loc b a"
proof -
  have t: "map_of (loc_table b) a = map_option li_id (map_of (bd_locs b) a)"
    by (simp add: loc_table_def map_of_map)
  show "map_of (bd_locs b) a = None \<longleftrightarrow> \<not> has_loc b a"
    by (simp add: map_of_eq_None_iff has_loc_def)
  show "map_of (bd_locs b) a = Some l \<Longrightarrow> cached_ok rt inl a l \<and> loc_id b a = word_of_nat (li_id l) \<and> has_loc b a"
    using assms t by (auto simp: bd_inv_def loc_id_def has_loc_def dest!: map_of_SomeD intro: rev_image_eqI)
qed

text \<open>The loop body in the four situations it distinguishes.\<close>

definition skip_cached :: "runtime_env \<Rightarrow> locInfo \<Rightarrow> uintptr list \<Rightarrow> u64 list \<Rightarrow> profileBuilder \<Rightarrow>
    (u64 list \<times> profileBuilder) option" where
  "skip_cached rt l stk locs b =
     Option.bind (stk_from (length (li_pcs l)) stk) (\<lambda>stk'. locs_loop rt stk' (locs @ [word_of_nat (li_id l)]) b)"

lemma loop_inv_facts:
  assumes "loop_inv rt inl ms pcs b"
  shows "bd_deck b = deck_of rt pcs" "\<forall>p \<in> set pcs. pc_frames rt p \<noteq> []" "bd_inv rt inl ms b"
    and "map_of (bd_locs b) a = Some l \<Longrightarrow> allFrames rt a = (li_firstPCFrames l, li_firstPCSymbolizeResult l)"
    and "map_of (bd_locs b) a = Some l \<Longrightarrow> pc_frames rt a \<noteq> []"
  using assms map_of_locs(2) [of rt inl ms b a l] by (auto simp: loop_inv_def cached_ok_def)

definition joins :: "runtime_env \<Rightarrow> uintptr list \<Rightarrow> uintptr \<Rightarrow> bool" where
  "joins rt pcs a \<longleftrightarrow> inlined_in rt (last (pc_frames rt (last pcs))) (hd (pc_frames rt a))"

lemma loop_add:
  assumes inv: "loop_inv rt inl ms pcs b" and a: "pc_frames rt a \<noteq> []"
    and j: "if pcs = [] then \<not> has_loc b a else joins rt pcs a"
  shows "locs_loop rt (a # stk) locs b = locs_loop rt stk locs (set_deck (deck_of rt (pcs @ [a])) b)"
proof (cases "map_of (bd_locs b) a")
  case None
  then have "locs_new rt (a # stk) locs b = Some (stk, locs, set_deck (deck_of rt (pcs @ [a])) b)"
    using a j tryAdd_deck [OF loop_inv_facts(2) [OF inv] a] loop_inv_facts(1) [OF inv]
    by (simp add: locs_new_def Let_def joins_def case_prod_beta split: if_splits) (simp_all add: pc_frames_def)
  with None show ?thesis
    by (simp add: locs_loop.simps [of rt "a # stk"])
next
  case (Some l)
  then have ne: "pcs \<noteq> []"
    using j map_of_locs(2) [OF loop_inv_facts(3) [OF inv] Some] by auto
  then have "locs_cached rt l (a # stk) locs b = Some (stk, locs, set_deck (deck_of rt (pcs @ [a])) b)"
    using j tryAdd_deck [OF loop_inv_facts(2) [OF inv] a] loop_inv_facts(1) [OF inv]
      loop_inv_facts(4) [OF inv Some]
    by (simp add: locs_cached_def Let_def joins_def)
  with Some show ?thesis
    by (simp add: locs_loop.simps [of rt "a # stk"])
qed

lemma loop_skip:
  assumes inv: "loop_inv rt inl ms pcs b" and l: "map_of (bd_locs b) a = Some l"
    and j: "pcs = [] \<or> \<not> joins rt pcs a"
  shows "locs_loop rt (a # stk) locs b =
    Option.bind (emitInto rt locs b) (\<lambda>(locs, b). skip_cached rt l (a # stk) locs b)"
proof -
  have "locs_cached rt l (a # stk) locs b =
      do { (locs, b) \<leftarrow> emitInto rt locs b; stk' \<leftarrow> stk_from (length (li_pcs l)) (a # stk);
           Some (stk', locs @ [word_of_nat (li_id l)], b) }"
    using j tryAdd_deck [OF loop_inv_facts(2) [OF inv] loop_inv_facts(5) [OF inv l]]
      loop_inv_facts(1) [OF inv] loop_inv_facts(4) [OF inv l]
    by (auto simp: locs_cached_def Let_def joins_def)
  with l show ?thesis
    by (cases "emitInto rt locs b") (auto simp: locs_loop.simps [of rt "a # stk"] skip_cached_def)
qed

lemma loop_none:
  assumes inv: "loop_inv rt inl ms pcs b" and a: "pc_frames rt a = []"
  shows "locs_loop rt (a # stk) locs b = Option.bind (emitInto rt locs b) (\<lambda>(locs, b). locs_loop rt stk locs b)"
proof -
  have "map_of (bd_locs b) a = None"
    using a loop_inv_facts(5) [OF inv] by (cases "map_of (bd_locs b) a") auto
  moreover have "locs_new rt (a # stk) locs b = do { (locs, b) \<leftarrow> emitInto rt locs b; Some (stk, locs, b) }"
    using a by (simp add: locs_new_def Let_def case_prod_beta pc_frames_def)
  ultimately show ?thesis
    by (cases "emitInto rt locs b") (auto simp: locs_loop.simps [of rt "a # stk"])
qed

lemma loop_emit:
  assumes inv: "loop_inv rt inl ms pcs b" and a: "pc_frames rt a \<noteq> []" "\<not> has_loc b a"
    and j: "pcs \<noteq> []" "\<not> joins rt pcs a"
  shows "locs_loop rt (a # stk) locs b =
    Option.bind (emitInto rt locs b) (\<lambda>(locs, b).
      case map_of (bd_locs b) a of
        Some l \<Rightarrow> skip_cached rt l (a # stk) locs b
      | None \<Rightarrow> Option.bind (tryAdd rt a (fst (allFrames rt a)) (snd (allFrames rt a)) (bd_deck b))
                  (\<lambda>r. locs_loop rt stk locs (set_deck (snd r) b)))"
proof -
  have "map_of (bd_locs b) a = None"
    using a map_of_locs(1) [OF loop_inv_facts(3) [OF inv]] by simp
  moreover have "\<not> inlined_in rt (last (pc_frames rt (last pcs))) (hd (pc_frames rt a))"
    using j(2) by (simp add: joins_def)
  ultimately show ?thesis
    using a(1) j(1) tryAdd_deck [OF loop_inv_facts(2) [OF inv] a(1)] loop_inv_facts(1) [OF inv]
    by (cases "emitInto rt locs b")
      (auto simp: locs_loop.simps [of rt "a # stk"] locs_new_def Let_def case_prod_beta pc_frames_def
        skip_cached_def split: option.split)
qed

lemma stack_ok_pending:
  "stack_ok inl (if pcs = [] then [] else [pcs]) \<Longrightarrow> pcs = [] \<or> pcs = inl (hd pcs)"
  by (auto simp: stack_ok_def split: if_splits)

text \<open>Emitting the pending group and going on.\<close>

lemma emit_then:
  assumes inv: "loop_inv rt inl ms pcs b" and g: "stack_ok inl (if pcs = [] then [] else [pcs])"
    and k: "\<And>ns b1 locs. loop_inv rt inl (ms @ ns) [] b1 \<Longrightarrow> grows b b1 \<Longrightarrow>
      delivers rt inl (ms @ ns) b1 locs gs (k (locs, b1))"
  shows "delivers rt inl ms b locs ((if pcs = [] then [] else [pcs]) @ gs) (Option.bind (emitInto rt locs b) k)"
proof -
  obtain b1 ns where e: "emitInto rt locs b = Some (locs @ (if pcs = [] then [] else [loc_id b1 (hd pcs)]), b1)"
    and b1: "loop_inv rt inl (ms @ ns) [] b1" "\<forall>m \<in> set ns. is_table m" "grows b b1"
      "pcs \<noteq> [] \<longrightarrow> has_loc b1 (hd pcs)"
    using emitInto_ok [OF inv, of locs] stack_ok_pending [OF g] by blast
  have "delivers rt inl (ms @ ns) b1 (locs @ map (\<lambda>g. loc_id b1 (hd g)) (if pcs = [] then [] else [pcs])) gs
      (Option.bind (emitInto rt locs b) k)"
    using k [OF b1(1,3)] e by simp
  then show ?thesis
    by (rule delivers_after) (use b1 in auto)
qed

lemma skip_delivers:
  assumes inv: "loop_inv rt inl ms [] b" and l: "map_of (bd_locs b) a = Some l"
    and ok: "stack_ok inl (groups_from rt [] (a # stk))"
    and IH: "\<And>stk' locs. length stk' \<le> length stk \<Longrightarrow> stack_ok inl (groups_from rt [] stk') \<Longrightarrow>
      delivers rt inl ms b locs (groups_from rt [] stk') (locs_loop rt stk' locs b)"
  shows "delivers rt inl ms b locs (groups_from rt [] (a # stk)) (skip_cached rt l (a # stk) locs b)"
proof -
  let ?stk = "drop (length (inl a)) (a # stk)"
  note a = map_of_locs(2) [OF loop_inv_facts(3) [OF inv] l]
  note skip = groups_skip [OF ok loop_inv_facts(5) [OF inv l]]
  have "length ?stk \<le> length stk"
    using skip(3) by (cases "inl a") simp_all
  then have "delivers rt inl ms b (locs @ [loc_id b a]) (groups_from rt [] ?stk)
      (locs_loop rt ?stk (locs @ [loc_id b a]) b)"
    using IH ok skip(2) by simp
  moreover have "skip_cached rt l (a # stk) locs b = locs_loop rt ?stk (locs @ [loc_id b a]) b"
    using skip(1) a by (simp add: skip_cached_def stk_from_def cached_ok_def)
  ultimately have "delivers rt inl (ms @ []) b (locs @ map (\<lambda>g. loc_id b (hd g)) [inl a]) (groups_from rt [] ?stk)
      (skip_cached rt l (a # stk) locs b)"
    using skip(4) by simp
  then have "delivers rt inl ms b locs ([inl a] @ groups_from rt [] ?stk) (skip_cached rt l (a # stk) locs b)"
    by (rule delivers_after) (use a skip(4) in auto)
  then show ?thesis
    using skip(2) by simp
qed

lemma set_deck_delivers:
  "delivers rt inl ms (set_deck d b) locs gs r \<Longrightarrow> delivers rt inl ms b locs gs r"
  by (simp add: delivers_def grows_def set_deck_def)

lemma groups_from_emit:
  "pc_frames rt a = [] \<Longrightarrow>
   groups_from rt pcs (a # stk) = (if pcs = [] then [] else [pcs]) @ groups_from rt [] stk"
  "pcs = [] \<or> \<not> joins rt pcs a \<Longrightarrow>
   groups_from rt pcs (a # stk) = (if pcs = [] then [] else [pcs]) @ groups_from rt [] (a # stk)"
  "pc_frames rt a \<noteq> [] \<Longrightarrow> pcs = [] \<or> joins rt pcs a \<Longrightarrow>
   groups_from rt pcs (a # stk) = groups_from rt (pcs @ [a]) stk"
  by (cases "pcs = []"; auto simp: groups_from_simps joins_def)+

lemma stack_ok_append [simp]: "stack_ok inl (gs @ hs) \<longleftrightarrow> stack_ok inl gs \<and> stack_ok inl hs"
  by (auto simp: stack_ok_def)

lemma grows_map_of:
  "grows b b' \<Longrightarrow> map_of (bd_locs b) a = Some l \<Longrightarrow> map_of (bd_locs b') a = Some l"
  unfolding grows_def by (metis domI dom_map_of_conv_image_fst map_of_prefix)

text \<open>One step of the loop, when the loop is right for every shorter stack.\<close>

lemma loop_step_delivers:
  assumes inv: "loop_inv rt inl ms pcs b" and ok: "stack_ok inl (groups_from rt pcs (a # s))"
    and IH: "\<And>ms pcs b locs stk'. loop_inv rt inl ms pcs b \<Longrightarrow> length stk' \<le> length s \<Longrightarrow>
      stack_ok inl (groups_from rt pcs stk') \<Longrightarrow>
      delivers rt inl ms b locs (groups_from rt pcs stk') (locs_loop rt stk' locs b)"
  shows "delivers rt inl ms b locs (groups_from rt pcs (a # s)) (locs_loop rt (a # s) locs b)"
proof -
  let ?pend = "if pcs = [] then [] else [pcs]"
  have add: "delivers rt inl ms b locs (groups_from rt (pcs @ [a]) s)
      (locs_loop rt s locs (set_deck (deck_of rt (pcs @ [a])) b))"
    if "loop_inv rt inl ms pcs b" "pc_frames rt a \<noteq> []" "pcs = [] \<Longrightarrow> \<not> has_loc b a"
      "stack_ok inl (groups_from rt (pcs @ [a]) s)" for ms pcs b locs
    using IH [OF loop_inv_extend] that by (blast intro: set_deck_delivers)
  consider (none) "pc_frames rt a = []"
    | (ext) "pc_frames rt a \<noteq> []" "if pcs = [] then \<not> has_loc b a else joins rt pcs a"
    | (skip) l where "map_of (bd_locs b) a = Some l" "pcs = [] \<or> \<not> joins rt pcs a"
    | (emit) "pc_frames rt a \<noteq> []" "\<not> has_loc b a" "pcs \<noteq> []" "\<not> joins rt pcs a"
    using map_of_locs(1) [OF loop_inv_facts(3) [OF inv], of a]
    by (cases "pcs = []"; cases "map_of (bd_locs b) a") auto
  then show ?thesis
  proof cases
    case none
    note gs = groups_from_emit(1) [OF none, of pcs s]
    show ?thesis
      unfolding loop_none [OF inv none] gs
      by (rule emit_then [OF inv]) (use ok gs IH in auto)
  next
    case ext
    then have "groups_from rt pcs (a # s) = groups_from rt (pcs @ [a]) s"
      by (intro groups_from_emit(3)) (auto split: if_splits)
    then show ?thesis
      using loop_add [OF inv ext] add [OF inv ext(1)] ok ext(2) by simp
  next
    case (skip l)
    note gs = groups_from_emit(2) [OF skip(2), of s]
    show ?thesis
      unfolding loop_skip [OF inv skip] gs
    proof (rule emit_then [OF inv])
      show "stack_ok inl ?pend"
        using ok gs by simp
      fix ns b1 locs assume b1: "loop_inv rt inl (ms @ ns) [] b1" "grows b b1"
      have "delivers rt inl (ms @ ns) b1 locs (groups_from rt [] (a # s)) (skip_cached rt l (a # s) locs b1)"
        by (rule skip_delivers [OF b1(1) grows_map_of [OF b1(2) skip(1)]]) (use ok gs IH b1 in auto)
      then show "delivers rt inl (ms @ ns) b1 locs (groups_from rt [] (a # s))
          (case (locs, b1) of (locs, b) \<Rightarrow> skip_cached rt l (a # s) locs b)"
        by simp
    qed
  next
    case emit
    note gs = groups_from_emit(2) [OF disjI2 [OF emit(4)], of s]
    show ?thesis
      unfolding loop_emit [OF inv emit] gs
    proof (rule emit_then [OF inv])
      show "stack_ok inl ?pend"
        using ok gs by simp
      fix ns b1 locs assume b1: "loop_inv rt inl (ms @ ns) [] b1" "grows b b1"
      show "delivers rt inl (ms @ ns) b1 locs (groups_from rt [] (a # s))
          (case (locs, b1) of (locs, b) \<Rightarrow>
             case map_of (bd_locs b) a of
               None \<Rightarrow> Option.bind (tryAdd rt a (fst (allFrames rt a)) (snd (allFrames rt a)) (bd_deck b))
                          (\<lambda>r. locs_loop rt s locs (set_deck (snd r) b))
             | Some l \<Rightarrow> skip_cached rt l (a # s) locs b)"
      proof (cases "map_of (bd_locs b1) a")
        case None
        then have "\<not> has_loc b1 a"
          using map_of_locs(1) [OF loop_inv_facts(3) [OF b1(1)]] by simp
        with None show ?thesis
          using add [OF b1(1) emit(1)] ok gs
            tryAdd_deck [of "[]" rt a] emit(1) loop_inv_facts(1) [OF b1(1)] groups_from_emit(3) [OF emit(1), of "[]" s]
          by simp
      next
        case (Some l)
        have "delivers rt inl (ms @ ns) b1 locs (groups_from rt [] (a # s)) (skip_cached rt l (a # s) locs b1)"
          by (rule skip_delivers [OF b1(1) Some]) (use ok gs IH b1 in auto)
        with Some show ?thesis
          by simp
      qed
    qed
  qed
qed

lemma locs_loop_delivers:
  assumes "loop_inv rt inl ms pcs b" and "stack_ok inl (groups_from rt pcs stk)"
  shows "delivers rt inl ms b locs (groups_from rt pcs stk) (locs_loop rt stk locs b)"
  using assms
proof (induction "length stk" arbitrary: stk pcs ms b locs rule: less_induct)
  case less
  note inv = less.prems(1) and ok = less.prems(2)
  show ?case
  proof (cases stk)
    case Nil
    have "delivers rt inl ms b locs ((if pcs = [] then [] else [pcs]) @ []) (Option.bind (emitInto rt locs b) Some)"
    proof (rule emit_then [OF inv])
      show "stack_ok inl (if pcs = [] then [] else [pcs])"
        using ok Nil by (cases "pcs = []") (simp_all add: groups_from_simps)
    qed (auto simp: loop_inv_def delivers_def intro: exI [of _ "[]"])
    then show ?thesis
      using Nil by (cases "pcs = []") (simp_all add: locs_loop.simps groups_from_simps)
  next
    case (Cons a s)
    show ?thesis
      unfolding Cons by (rule loop_step_delivers) (use less Cons in auto)
  qed
qed

lemma LocsForStack_delivers:
  assumes "bd_inv rt inl ms b" and "stack_ok inl (groups rt (rt_expandFinalInlineFrame rt stk))"
  shows "delivers rt inl ms b [] (groups rt (rt_expandFinalInlineFrame rt stk)) (LocsForStack rt stk b)"
proof -
  let ?b = "set_deck (deck_reset (bd_deck b)) b" and ?stk = "rt_expandFinalInlineFrame rt stk"
  have "loop_inv rt inl ms [] ?b"
    using bd_inv_set_deck [OF assms(1)] by (simp add: loop_inv_def set_deck_def deck_of_Nil [of rt "bd_deck b"])
  then have "delivers rt inl ms ?b [] (groups_from rt [] ?stk) (locs_loop rt ?stk [] ?b)"
    by (rule locs_loop_delivers) (use assms in \<open>simp add: groups_from_def\<close>)
  then show ?thesis
    by (simp add: LocsForStack_def groups_from_def set_deck_delivers)
qed

end
