(* ===== verification/BuilderInterface.thy ===== *)
theory BuilderInterface
  imports Locations
begin

text \<open>
  The interface \<^verbatim>\<open>ProfileBuilder\<close> of
  \<^verbatim>\<open>godeltaprof/internal/pprof/builder.go\<close>, what it promises to the
  delta profilers, and the proof that the builder of \<^verbatim>\<open>proto.go\<close> keeps
  the promise.

  The contract is the locale \<open>profile_builder\<close>: \<open>rep b xs\<close> says
  that the builder holds the samples \<open>xs\<close> (values, stack and block size), and
  \<open>final b xs\<close> that it has written a profile of these samples.  For the
  real builder, \<open>final\<close> is about the bytes handed to the gzip writer: they
  decode to a profile in which every sample resolves, through the locations and
  functions, to the frames of its stack.
\<close>

section \<open>The interface\<close>

type_synonym sample = "i64 list \<times> uintptr list \<times> i64"

record 'b builder_ops =
  op_LocsForStack :: "uintptr list \<Rightarrow> 'b \<Rightarrow> (u64 list \<times> 'b) option"
  op_Sample :: "i64 list \<Rightarrow> u64 list \<Rightarrow> i64 \<Rightarrow> 'b \<Rightarrow> 'b option"
  op_Build :: "'b \<Rightarrow> 'b option"

definition proto_ops :: "runtime_env \<Rightarrow> i64 \<Rightarrow> profileBuilder builder_ops" where
  "proto_ops rt now = \<lparr>op_LocsForStack = LocsForStack rt, op_Sample = Sample, op_Build = Build now\<rparr>"

definition emit_sample :: "'b builder_ops \<Rightarrow> sample \<Rightarrow> 'b \<Rightarrow> 'b option" where
  "emit_sample ops s b =
     (case s of (vs, stk, n) \<Rightarrow> Option.bind (op_LocsForStack ops stk b) (\<lambda>(locs, b). op_Sample ops vs locs n b))"

text \<open>A client that records a list of samples.\<close>

fun add_samples :: "'b builder_ops \<Rightarrow> sample list \<Rightarrow> 'b \<Rightarrow> 'b option" where
  "add_samples ops [] b = Some b"
| "add_samples ops (x # xs) b = Option.bind (emit_sample ops x b) (add_samples ops xs)"

locale profile_builder =
  fixes ops :: "'b builder_ops"
    and rep :: "'b \<Rightarrow> sample list \<Rightarrow> bool"
    and final :: "'b \<Rightarrow> sample list \<Rightarrow> bool"
    and denotes :: "'b \<Rightarrow> uintptr list \<Rightarrow> u64 list \<Rightarrow> bool"
    and valid :: "uintptr list \<Rightarrow> bool"
    and hidden :: "uintptr list \<Rightarrow> bool"
  assumes locs_law: "rep b xs \<Longrightarrow> valid stk \<Longrightarrow>
      \<exists>locs b'. op_LocsForStack ops stk b = Some (locs, b') \<and> rep b' xs \<and> denotes b' stk locs"
    and hidden_law: "denotes b stk locs \<Longrightarrow> locs = [] \<longleftrightarrow> hidden stk"
    and sample_law: "rep b xs \<Longrightarrow> denotes b stk locs \<Longrightarrow>
      \<exists>b'. op_Sample ops values locs blockSize b = Some b' \<and> rep b' (xs @ [(values, stk, blockSize)])"
    and build_law: "rep b xs \<Longrightarrow> \<exists>b'. op_Build ops b = Some b' \<and> final b' xs"
begin

lemma add_sample:
  assumes "rep b xs" and "valid stk"
  shows "\<exists>b'. Option.bind (op_LocsForStack ops stk b) (\<lambda>(locs, b). op_Sample ops values locs blockSize b) = Some b' \<and>
    rep b' (xs @ [(values, stk, blockSize)])"
  using locs_law [OF assms] sample_law by fastforce

lemma emit_sample_ok:
  "rep b ys \<Longrightarrow> valid (fst (snd s)) \<Longrightarrow> \<exists>b'. emit_sample ops s b = Some b' \<and> rep b' (ys @ [s])"
  using add_sample [of b ys "fst (snd s)" "fst s" "snd (snd s)"] by (cases s) (simp add: emit_sample_def)

lemma add_samples_ok:
  assumes "rep b ys" and "\<forall>x \<in> set xs. valid (fst (snd x))"
  shows "\<exists>b'. add_samples ops xs b = Some b' \<and> rep b' (ys @ xs)"
  using assms
proof (induction xs arbitrary: b ys)
  case (Cons x xs)
  obtain b1 where "emit_sample ops x b = Some b1" "rep b1 (ys @ [x])"
    using emit_sample_ok [OF Cons.prems(1), of x] Cons.prems(2) by auto
  with Cons.IH [of b1 "ys @ [x]"] Cons.prems(2) show ?case
    by auto
qed auto

end

section \<open>The profile a reader sees\<close>

fun sample_view :: "profile_msg list \<Rightarrow> (i64 list \<times> u64 list \<times> (string \<times> string \<times> i64) option) list" where
  "sample_view [] = []"
| "sample_view (MSample vs ls lb # ms) = (vs, ls, lb) # sample_view ms"
| "sample_view (_ # ms) = sample_view ms"

definition func_names :: "profile_msg list \<Rightarrow> (u64 \<times> string) list" where
  "func_names P = map (\<lambda>m. case m of MFunction i n s f l \<Rightarrow> (i, n)) (func_view P)"

definition resolve_line :: "profile_msg list \<Rightarrow> u64 \<times> i64 \<Rightarrow> (string \<times> i64) option" where
  "resolve_line P fl = map_option (\<lambda>n. (n, snd fl)) (map_of (func_names P) (fst fl))"

definition resolve_loc :: "profile_msg list \<Rightarrow> u64 \<Rightarrow> (string \<times> i64) list option" where
  "resolve_loc P i = (case map_of (loc_view P) i of None \<Rightarrow> None | Some (a, ls) \<Rightarrow> those (map (resolve_line P) ls))"

definition read_profile :: "profile_msg list \<Rightarrow>
    (i64 list \<times> (string \<times> i64) list option list \<times> (string \<times> string \<times> i64) option) list" where
  "read_profile P = map (\<lambda>(vs, ids, lb). (vs, map (resolve_loc P) ids, lb)) (sample_view P)"

text \<open>The profile of a list of samples: for each stack its inline groups, for each group its frames.\<close>

definition group_lines :: "runtime_env \<Rightarrow> uintptr list \<Rightarrow> (string \<times> i64) list" where
  "group_lines rt g = map (\<lambda>f. (rt_FrameSymbolName rt f, fr_Line f)) (concat (map (pc_frames rt) g))"

definition stack_groups :: "runtime_env \<Rightarrow> uintptr list \<Rightarrow> uintptr list list" where
  "stack_groups rt stk = groups rt (rt_expandFinalInlineFrame rt stk)"

definition expected_profile :: "runtime_env \<Rightarrow> sample list \<Rightarrow>
    (i64 list \<times> (string \<times> i64) list option list \<times> (string \<times> string \<times> i64) option) list" where
  "expected_profile rt xs =
     map (\<lambda>(vs, stk, n). (vs, map (\<lambda>g. Some (group_lines rt g)) (stack_groups rt stk), sample_label n)) xs"

lemma sample_view_append [simp]: "sample_view (ms @ ns) = sample_view ms @ sample_view ns"
  by (induction ms rule: sample_view.induct) simp_all

lemma read_profile_cong:
  assumes "sample_view P = sample_view Q" and "loc_view P = loc_view Q" and "func_view P = func_view Q"
  shows "read_profile P = read_profile Q"
  unfolding read_profile_def resolve_loc_def [abs_def] resolve_line_def [abs_def] func_names_def assms ..

lemma views_visible [simp]:
  "sample_view (filter visible ms) = sample_view ms"
  "loc_view (filter visible ms) = loc_view ms" "func_view (filter visible ms) = func_view ms"
proof -
  show "sample_view (filter visible ms) = sample_view ms"
    by (induction ms rule: sample_view.induct) simp_all
  show "loc_view (filter visible ms) = loc_view ms"
    by (induction ms rule: loc_view.induct) simp_all
  show "func_view (filter visible ms) = func_view ms"
    by (induction ms rule: func_view.induct) simp_all
qed

lemma sample_view_tables: "\<forall>m \<in> set ms. is_table m \<Longrightarrow> sample_view ms = []"
  by (induction ms rule: sample_view.induct) auto

section \<open>Resolving the locations of a builder\<close>

lemma word_of_nat_inj: "i < 2 ^ 64 \<Longrightarrow> j < 2 ^ 64 \<Longrightarrow> word_of_nat i = (word_of_nat j :: u64) \<longleftrightarrow> i = j"
  by (metis mod_less unat_word_of_nat_u64)

lemma map_of_numbered:
  assumes "numbered fs" and "length fs < 2 ^ 64" and "map_of fs k = Some i"
  shows "map_of (map (\<lambda>(k, i). (word_of_nat i :: u64, v k)) fs) (word_of_nat i) = Some (v k)"
proof (rule map_of_is_SomeI)
  have "inj_on (word_of_nat :: nat \<Rightarrow> u64) (set (map snd fs))"
    using assms(1,2) by (auto simp: inj_on_def numbered_def word_of_nat_inj)
  moreover have "distinct (map snd fs)"
    using assms(1) unfolding numbered_def by (metis distinct_upt)
  ultimately have "distinct (map word_of_nat (map snd fs) :: u64 list)"
    by (subst distinct_map) blast
  then show "distinct (map fst (map (\<lambda>(k, i). (word_of_nat i :: u64, v k)) fs))"
    by (simp add: comp_def case_prod_beta)
  show "(word_of_nat i, v k) \<in> set (map (\<lambda>(k, i). (word_of_nat i, v k)) fs)"
    using map_of_SomeD [OF assms(3)] by force
qed

lemma func_names_entries:
  assumes "list_all2 (func_entry rt True) fs (func_view P)"
  shows "func_names P = map (\<lambda>(k, i). (word_of_nat i, k)) fs"
proof -
  have "list_all2 (func_entry rt True) fs ms \<Longrightarrow>
      map (\<lambda>m. case m of MFunction i n s f l \<Rightarrow> (i, n)) ms = map (\<lambda>(k, i). (word_of_nat i, k)) fs" for ms
    by (induction fs ms rule: list_all2_induct)
      (auto simp: func_entry_def func_msg_def func_of_def)
  then show ?thesis
    using assms by (simp add: func_names_def)
qed

lemma those_map_Some: "\<forall>x \<in> set xs. f x = Some (g x) \<Longrightarrow> those (map f xs) = Some (map g xs)"
  by (induction xs) auto

definition fits :: "profileBuilder \<Rightarrow> bool" where
  "fits b \<longleftrightarrow> length (bd_locs b) < 2 ^ 64 \<and> length (bd_funcs b) < 2 ^ 64"

lemma resolve_line_ok:
  assumes inv: "bd_inv rt inl P b" "fits b" "opt_GenericsFrames (bd_opt b)"
    and f: "rt_FrameSymbolName rt f \<in> fst ` set (bd_funcs b)"
  shows "resolve_line P (word_of_nat (the (map_of (bd_funcs b) (rt_FrameSymbolName rt f))), fr_Line f) =
    Some (rt_FrameSymbolName rt f, fr_Line f)"
proof -
  obtain i where i: "map_of (bd_funcs b) (rt_FrameSymbolName rt f) = Some i"
    using f by (metis domD dom_map_of_conv_image_fst)
  have "func_names P = map (\<lambda>(k, i). (word_of_nat i, k)) (bd_funcs b)"
    using inv func_names_entries [of rt "bd_funcs b" P] by (simp add: bd_inv_def)
  then have "map_of (func_names P) (word_of_nat i) = Some (rt_FrameSymbolName rt f)"
    using map_of_numbered [of "bd_funcs b" _ i "\<lambda>k. k"] i inv by (simp add: bd_inv_def fits_def)
  with i show ?thesis
    by (simp add: resolve_line_def)
qed

lemma resolve_loc_ok:
  assumes inv: "bd_inv rt inl P b" "fits b" "opt_GenericsFrames (bd_opt b)" and a: "has_loc b a"
  shows "resolve_loc P (loc_id b a) = Some (group_lines rt (inl a))"
proof -
  let ?v = "\<lambda>a. (fr_PC (hd (pc_frames rt a)), frame_lines rt (bd_funcs b) (concat (map (pc_frames rt) (inl a))))"
  obtain l where l: "map_of (bd_locs b) a = Some l" and mem: "(a, l) \<in> set (bd_locs b)"
    using a by (metis domD dom_map_of_conv_image_fst has_loc_def map_of_SomeD)
  then have i: "map_of (loc_table b) a = Some (li_id l)"
    by (simp add: loc_table_def map_of_map)
  have "loc_view P = map (\<lambda>(a, i). (word_of_nat i, ?v a)) (loc_table b)"
    using inv(1) by (simp add: bd_inv_def loc_entry_def loc_table_def comp_def case_prod_beta)
  then have "map_of (loc_view P) (loc_id b a) = Some (?v a)"
    using map_of_numbered [of "loc_table b" a "li_id l" ?v] i inv
    by (simp add: bd_inv_def fits_def loc_id_def) (simp add: loc_table_def)
  moreover have "those (map (resolve_line P) (snd (?v a))) = Some (group_lines rt (inl a))"
    unfolding group_lines_def frame_lines_def snd_conv map_map
    by (rule those_map_Some) (use inv(1) mem in \<open>fastforce simp: bd_inv_def intro!: resolve_line_ok [OF inv]\<close>)
  ultimately show ?thesis
    by (simp add: resolve_loc_def)
qed

section \<open>The builder of proto.go keeps the contract\<close>

fun is_sample :: "profile_msg \<Rightarrow> bool" where
  "is_sample (MSample vs ls lb) = True"
| "is_sample _ = False"

definition known :: "runtime_env \<Rightarrow> profileBuilder \<Rightarrow> uintptr list \<Rightarrow> bool" where
  "known rt b stk \<longleftrightarrow> (\<forall>g \<in> set (stack_groups rt stk). has_loc b (hd g))"

definition stack_valid :: "runtime_env \<Rightarrow> (uintptr \<Rightarrow> uintptr list) \<Rightarrow> uintptr list \<Rightarrow> bool" where
  "stack_valid rt inl stk \<longleftrightarrow> stack_ok inl (stack_groups rt stk)"

definition stack_locs :: "runtime_env \<Rightarrow> profileBuilder \<Rightarrow> uintptr list \<Rightarrow> u64 list" where
  "stack_locs rt b stk = map (\<lambda>g. loc_id b (hd g)) (stack_groups rt stk)"

definition pb_denotes :: "runtime_env \<Rightarrow> (uintptr \<Rightarrow> uintptr list) \<Rightarrow> profileBuilder \<Rightarrow> uintptr list \<Rightarrow> u64 list \<Rightarrow> bool" where
  "pb_denotes rt inl b stk locs \<longleftrightarrow> stack_valid rt inl stk \<and> known rt b stk \<and> locs = stack_locs rt b stk"

definition sample_entry :: "runtime_env \<Rightarrow> profileBuilder \<Rightarrow> sample \<Rightarrow>
    i64 list \<times> u64 list \<times> (string \<times> string \<times> i64) option" where
  "sample_entry rt b x = (case x of (vs, stk, n) \<Rightarrow> (vs, stack_locs rt b stk, sample_label n))"

definition pb_rep :: "runtime_env \<Rightarrow> (uintptr \<Rightarrow> uintptr list) \<Rightarrow> ProfileConfig \<Rightarrow> bool \<Rightarrow> profileBuilder \<Rightarrow> sample list \<Rightarrow> bool" where
  "pb_rep rt inl stc generics b xs \<longleftrightarrow> opt_GenericsFrames (bd_opt b) = generics \<and>
     (\<exists>ms. bd_inv rt inl (start_msgs stc @ ms) b \<and> (\<forall>m \<in> set ms. is_table m \<or> is_sample m) \<and>
        sample_view ms = map (sample_entry rt b) xs \<and>
        (\<forall>(vs, stk, n) \<in> set xs. stack_valid rt inl stk \<and> known rt b stk))"

definition profile_of :: "runtime_env \<Rightarrow> u8 list \<Rightarrow> sample list \<Rightarrow> bool" where
  "profile_of rt out xs \<longleftrightarrow> (\<exists>P. dec_profile out = Some P \<and> read_profile P = expected_profile rt xs)"

definition pb_final :: "runtime_env \<Rightarrow> bool \<Rightarrow> profileBuilder \<Rightarrow> sample list \<Rightarrow> bool" where
  "pb_final rt generics b xs \<longleftrightarrow> zw_closed (bd_zw b) \<and> opt_GenericsFrames (bd_opt b) = generics \<and>
     (generics \<and> length (zw_written (bd_zw b)) < 2 ^ 64 \<longrightarrow>
      profile_of rt (zw_written (bd_zw b)) xs)"

lemma stack_locs_grows: "grows b b' \<Longrightarrow> known rt b stk \<Longrightarrow> stack_locs rt b' stk = stack_locs rt b stk"
  by (auto simp: stack_locs_def known_def grows_loc_id)

lemma known_grows: "grows b b' \<Longrightarrow> known rt b stk \<Longrightarrow> known rt b' stk"
  by (auto simp: known_def grows_has_loc)

lemma pb_rep_grows:
  assumes "bd_inv rt inl (start_msgs stc @ ms) b" "\<forall>m \<in> set ms. is_table m \<or> is_sample m"
    "sample_view ms = map (sample_entry rt b) xs"
    "\<forall>(vs, stk, n) \<in> set xs. stack_valid rt inl stk \<and> known rt b stk"
    and "bd_inv rt inl (start_msgs stc @ ms @ ns) b'" "\<forall>m \<in> set ns. is_table m \<or> is_sample m"
    and g: "grows b b'" "opt_GenericsFrames (bd_opt b) = g" and "sample_view ns = map (sample_entry rt b') ys"
    and "\<forall>(vs, stk, n) \<in> set ys. stack_valid rt inl stk \<and> known rt b' stk"
  shows "pb_rep rt inl stc g b' (xs @ ys)"
proof -
  have "map (sample_entry rt b') xs = map (sample_entry rt b) xs"
    using assms(4) by (fastforce simp: sample_entry_def stack_locs_grows [OF g(1)])
  with assms show ?thesis
    unfolding pb_rep_def by (intro conjI exI [of _ "ms @ ns"]) (auto simp: grows_def intro: known_grows [OF g(1)])
qed

lemma pb_locs_law:
  assumes "pb_rep rt inl stc g b xs" and v: "stack_valid rt inl stk"
  shows "\<exists>locs b'. LocsForStack rt stk b = Some (locs, b') \<and> pb_rep rt inl stc g b' xs \<and>
    pb_denotes rt inl b' stk locs"
proof -
  obtain ms where ms: "bd_inv rt inl (start_msgs stc @ ms) b" "\<forall>m \<in> set ms. is_table m \<or> is_sample m"
      "sample_view ms = map (sample_entry rt b) xs"
      "\<forall>(vs, stk, n) \<in> set xs. stack_valid rt inl stk \<and> known rt b stk"
    and gf: "opt_GenericsFrames (bd_opt b) = g"
    using assms by (auto simp: pb_rep_def)
  obtain b' ns where r: "LocsForStack rt stk b = Some (stack_locs rt b' stk, b')"
    and b': "bd_inv rt inl (start_msgs stc @ ms @ ns) b'" "\<forall>m \<in> set ns. is_table m" "grows b b'" "known rt b' stk"
    using LocsForStack_delivers [OF ms(1), of stk] v
    by (auto simp: delivers_def stack_valid_def stack_groups_def stack_locs_def known_def)
  have "pb_rep rt inl stc g b' (xs @ [])"
    by (rule pb_rep_grows [OF ms b'(1) _ b'(3) gf]) (use b' in \<open>auto simp: sample_view_tables\<close>)
  with r b' v show ?thesis
    by (auto simp: pb_denotes_def)
qed

lemma pb_sample_law:
  assumes "pb_rep rt inl stc g b xs" and d: "pb_denotes rt inl b stk locs"
  shows "\<exists>b'. Sample values locs blockSize b = Some b' \<and> pb_rep rt inl stc g b' (xs @ [(values, stk, blockSize)])"
proof -
  obtain ms where ms: "bd_inv rt inl (start_msgs stc @ ms) b" "\<forall>m \<in> set ms. is_table m \<or> is_sample m"
      "sample_view ms = map (sample_entry rt b) xs"
      "\<forall>(vs, stk, n) \<in> set xs. stack_valid rt inl stk \<and> known rt b stk"
    and gf: "opt_GenericsFrames (bd_opt b) = g"
    using assms by (auto simp: pb_rep_def)
  obtain b' where r: "Sample values locs blockSize b = Some b'"
    and e: "emits_only [MSample values locs (sample_label blockSize)] b b'"
    using Sample_emits [of b "values" locs blockSize] ms(1) by (auto simp: bd_inv_def written_def)
  have inv': "bd_inv rt inl (start_msgs stc @ ms @ [MSample values locs (sample_label blockSize)]) b'"
    using bd_inv_emits_only [OF ms(1) e] by simp
  have gr: "grows b b'"
    using e by (simp add: emits_only_def frame_def grows_def)
  have "pb_rep rt inl stc g b' (xs @ [(values, stk, blockSize)])"
    by (rule pb_rep_grows [OF ms inv' _ gr gf])
      (use d stack_locs_grows [OF gr] known_grows [OF gr] in \<open>auto simp: pb_denotes_def sample_entry_def\<close>)
  with r show ?thesis
    by blast
qed

text \<open>The end of the profile: everything written so far, the mappings and the string table decode.\<close>

lemma length_enc_LenField: "0 < length (enc_field (LenField t xs))"
  by simp

lemma length_loc_view: "length (loc_view ms) \<le> length (enc_msgs \<sigma> ms)"
proof (induction ms rule: loc_view.induct)
  case (2 i a ls m ms)
  with length_enc_LenField [of 4 "enc_fields (msg_body \<sigma> (MLocation i a ls m))"] show ?case
    by (simp del: enc_field.simps msg_body.simps length_greater_0_conv)
qed (simp_all add: le_trans [OF _ le_add2])

lemma length_func_view: "length (func_view ms) \<le> length (enc_msgs \<sigma> ms)"
proof (induction ms rule: func_view.induct)
  case (2 i n s f l ms)
  with length_enc_LenField [of 5 "enc_fields (msg_body \<sigma> (MFunction i n s f l))"] show ?case
    by (simp del: enc_field.simps msg_body.simps length_greater_0_conv)
qed (simp_all add: le_trans [OF _ le_add2])

lemma start_msgs_ok: "m \<in> set (start_msgs stc) \<Longrightarrow> msg_ok m \<and> msg_string m = []"
  by (auto simp: start_msgs_def split: if_splits)

lemma build_msgs_ok: "m \<in> set (build_msgs b) \<Longrightarrow> msg_ok m \<and> msg_string m = []"
  by (auto simp: build_msgs_def mapping_msgs_def)

lemma sample_msgs_ok: "is_table m \<or> is_sample m \<Longrightarrow> msg_ok m \<and> msg_string m = []"
  by (cases m) auto

lemma msgs_table_Nil: "\<forall>m \<in> set ms. msg_string m = [] \<Longrightarrow> msgs_table ms = []"
  by (simp add: msgs_table_def)

lemma start_views [simp]: "loc_view (start_msgs stc) = []" "func_view (start_msgs stc) = []" "sample_view (start_msgs stc) = []"
proof -
  let ?t = "\<lambda>st. MValueType 1 (vt_Typ st) (vt_Unit st)"
  have "loc_view (map ?t sts) = []" "func_view (map ?t sts) = []" "sample_view (map ?t sts) = []" for sts
    by (induction sts) simp_all
  then show "loc_view (start_msgs stc) = []" "func_view (start_msgs stc) = []" "sample_view (start_msgs stc) = []"
    by (simp_all add: start_msgs_def)
qed

lemma string_views [simp]:
  "loc_view (map MString ss) = []" "func_view (map MString ss) = []" "sample_view (map MString ss) = []"
  by (induction ss) simp_all

lemma mapping_views [simp]:
  "loc_view (mapping_msgs i mm) = []" "func_view (mapping_msgs i mm) = []" "sample_view (mapping_msgs i mm) = []"
  by (induction mm arbitrary: i) (simp_all add: mapping_msgs_def)

lemma build_views [simp]:
  "loc_view (build_msgs b) = []" "func_view (build_msgs b) = []" "sample_view (build_msgs b) = []"
  by (simp_all add: build_msgs_def)

lemma Build_output:
  assumes inv: "bd_inv rt inl (start_msgs stc @ ms) b" "\<forall>m \<in> set ms. is_table m \<or> is_sample m"
  shows "\<exists>b' tbl. Build now b = Some b' \<and> zw_closed (bd_zw b') \<and> bd_opt b' = bd_opt b \<and>
    (length (zw_written (bd_zw b')) < 2 ^ 64 \<longrightarrow> fits b \<and>
     dec_profile (zw_written (bd_zw b')) =
       Some (filter visible (start_msgs stc @ ms @ build_msgs b @ map MString tbl)))"
proof -
  obtain b1 b' where r: "Build now b = Some b'" "zw_closed (bd_zw b')" "bd_opt b' = bd_opt b"
    and e: "emits (build_msgs b) b b1"
    and out: "zw_written (bd_zw b') = bd_stream b1 @ enc_msgs (names b1) (map MString (bd_strings b1))"
    using Build_emits [of b now] inv by (auto simp: bd_inv_def written_def)
  let ?ms = "(start_msgs stc @ ms) @ build_msgs b" and ?tbl = "bd_strings b1"
  have w: "written ?ms b1"
    using written_emits [of "start_msgs stc @ ms" b] inv(1) e unfolding bd_inv_def by blast
  then have enc: "zw_written (bd_zw b') = enc_msgs (idx ?tbl) (?ms @ map MString ?tbl)"
    by (simp add: written_def out names_def)
  have ok: "\<forall>m \<in> set ?ms. msg_ok m \<and> msg_string m = []"
    using start_msgs_ok build_msgs_ok sample_msgs_ok inv(2) by auto
  then have "msgs_table (?ms @ map MString ?tbl) = ?tbl"
    using msgs_table_Nil [of ?ms] by simp
  moreover have "?tbl \<noteq> []" "hd ?tbl = []"
    using w by (simp_all add: written_def pb_ok_def tbl_ok_def)
  moreover have "\<forall>m \<in> set (?ms @ map MString ?tbl). msg_ok m \<and> msg_strings m \<subseteq> set ?tbl"
    using ok w by (auto simp: written_def)
  ultimately have "length (zw_written (bd_zw b')) < 2 ^ 64 \<Longrightarrow> dec_profile (zw_written (bd_zw b')) =
      Some (filter visible (?ms @ map MString ?tbl))"
    unfolding enc by (rule dec_profile_enc)
  moreover have "length (bd_locs b) \<le> length (zw_written (bd_zw b'))"
    using length_loc_view [of "?ms @ map MString ?tbl" "idx ?tbl"] inv(1) by (simp add: enc bd_inv_def)
  moreover have "length (bd_funcs b) \<le> length (zw_written (bd_zw b'))"
    using length_func_view [of "?ms @ map MString ?tbl" "idx ?tbl"] inv(1)
    by (auto simp: enc bd_inv_def dest: list_all2_lengthD)
  ultimately have "length (zw_written (bd_zw b')) < 2 ^ 64 \<longrightarrow> fits b \<and> dec_profile (zw_written (bd_zw b')) =
      Some (filter visible (start_msgs stc @ ms @ build_msgs b @ map MString ?tbl))"
    unfolding fits_def append_assoc by linarith
  with r show ?thesis
    by blast
qed

lemma resolve_stack_locs:
  assumes inv: "bd_inv rt inl P b" "fits b" "opt_GenericsFrames (bd_opt b)"
    and stk: "stack_valid rt inl stk" "known rt b stk"
  shows "map (resolve_loc P) (stack_locs rt b stk) = map (\<lambda>g. Some (group_lines rt g)) (stack_groups rt stk)"
  unfolding stack_locs_def map_map
proof (rule map_cong [OF refl])
  fix g assume "g \<in> set (stack_groups rt stk)"
  then have "g = inl (hd g)" "has_loc b (hd g)"
    using stk by (auto simp: stack_valid_def known_def stack_ok_def)
  then show "(resolve_loc P \<circ> (\<lambda>g. loc_id b (hd g))) g = Some (group_lines rt g)"
    using resolve_loc_ok [OF inv, of "hd g"] by simp
qed

lemma read_profile_ok:
  assumes inv: "bd_inv rt inl P b" "fits b" "opt_GenericsFrames (bd_opt b)"
    and "sample_view P = map (sample_entry rt b) xs"
    and xs: "\<forall>(vs, stk, n) \<in> set xs. stack_valid rt inl stk \<and> known rt b stk"
  shows "read_profile P = expected_profile rt xs"
  using assms(4) xs resolve_stack_locs [OF inv]
  by (fastforce simp: read_profile_def expected_profile_def sample_entry_def)

lemma pb_build_law:
  assumes "pb_rep rt inl stc g b xs"
  shows "\<exists>b'. Build now b = Some b' \<and> pb_final rt g b' xs"
proof -
  obtain ms where ms: "bd_inv rt inl (start_msgs stc @ ms) b" "\<forall>m \<in> set ms. is_table m \<or> is_sample m"
      "sample_view ms = map (sample_entry rt b) xs"
      "\<forall>(vs, stk, n) \<in> set xs. stack_valid rt inl stk \<and> known rt b stk"
    and gf: "opt_GenericsFrames (bd_opt b) = g"
    using assms by (auto simp: pb_rep_def)
  obtain b' tbl where r: "Build now b = Some b'" "zw_closed (bd_zw b')" "bd_opt b' = bd_opt b"
    and out: "length (zw_written (bd_zw b')) < 2 ^ 64 \<Longrightarrow> fits b \<and> dec_profile (zw_written (bd_zw b')) =
      Some (filter visible (start_msgs stc @ ms @ build_msgs b @ map MString tbl))"
    using Build_output [OF ms(1,2), of now] by blast
  let ?P = "filter visible (start_msgs stc @ ms @ build_msgs b @ map MString tbl)"
  have "read_profile ?P = read_profile (start_msgs stc @ ms)"
    by (rule read_profile_cong) simp_all
  also have "g \<Longrightarrow> fits b \<Longrightarrow> \<dots> = expected_profile rt xs"
    using read_profile_ok [OF ms(1) _ _ _ ms(4)] ms(3) gf by simp
  finally have "pb_final rt g b' xs"
    using r(2,3) gf out by (auto simp: pb_final_def profile_of_def)
  with r show ?thesis
    by blast
qed

lemma pb_hidden_law: "pb_denotes rt inl b stk locs \<Longrightarrow> locs = [] \<longleftrightarrow> stack_groups rt stk = []"
  by (auto simp: pb_denotes_def stack_locs_def)

interpretation pbi: profile_builder "proto_ops rt now" "pb_rep rt inl stc g" "pb_final rt g" "pb_denotes rt inl"
    "stack_valid rt inl" "\<lambda>stk. stack_groups rt stk = []" for rt now inl stc g
  by unfold_locales
    (simp_all add: proto_ops_def pb_hidden_law pb_build_law pb_sample_law pb_locs_law)

lemma bd_inv_new:
  assumes "zw_written zw = []" and "\<not> zw_closed zw"
  shows "bd_inv rt inl [] (new_builder now readMapping zw opt)"
  using assms pb_ok_new [of now readMapping zw opt]
  by (simp add: bd_inv_def written_def bd_stream_def new_builder_def pb_empty_def numbered_def loc_table_def)

lemma NewProfileBuilder_rep:
  assumes "zw_written zw = []" and "\<not> zw_closed zw"
  shows "\<exists>b. NewProfileBuilder now readMapping zw opt stc = Some b \<and> pb_rep rt inl stc (opt_GenericsFrames opt) b []"
proof -
  let ?b0 = "new_builder now readMapping zw opt"
  obtain b where b: "NewProfileBuilder now readMapping zw opt stc = Some b" "emits_only (start_msgs stc) ?b0 b"
    using NewProfileBuilder_emits by blast
  have "bd_inv rt inl ([] @ start_msgs stc) b"
    by (rule bd_inv_emits_only [OF bd_inv_new [OF assms] b(2)]) simp_all
  moreover have "opt_GenericsFrames (bd_opt b) = opt_GenericsFrames opt"
    using b(2) by (simp add: emits_only_def frame_def new_builder_def opt_mapping_def)
  ultimately have "pb_rep rt inl stc (opt_GenericsFrames opt) b []"
    unfolding pb_rep_def by (intro conjI exI [of _ "[]"]) simp_all
  then show ?thesis
    using b(1) by blast
qed

end
