(* ===== verification/ExampleRuntime.thy ===== *)
theory ExampleRuntime
  imports BuilderInterface
begin

text \<open>
  A small runtime on which the hypotheses about the runtime hold: every address is one
  frame of the same function and nothing is inlined.  It instantiates the parameters of
  the theorems in their examples.
\<close>

definition example_frame :: "uintptr \<Rightarrow> runtime_Frame" where
  "example_frame a = \<lparr>fr_PC = a, fr_Func = True, fr_Function = ''main.work'', fr_File = ''main.go'',
     fr_Line = 7, fr_Entry = a, fr_info = 0\<rparr>"

definition example_rt :: runtime_env where
  "example_rt = \<lparr>rt_CallersFrames = (\<lambda>a. [example_frame a]), rt_FrameSymbolName = fr_Function,
     rt_FrameStartLine = (\<lambda>f. 1), rt_expandFinalInlineFrame = (\<lambda>stk. stk)\<rparr>"

definition example_inl :: "uintptr \<Rightarrow> uintptr list" where
  "example_inl a = [a]"

definition example_zw :: gzWriter where
  "example_zw = \<lparr>zw_written = [], zw_closed = False\<rparr>"

definition example_opt :: ProfileBuilderOptions where
  "example_opt = \<lparr>opt_GenericsFrames = True, opt_LazyMapping = True, opt_mem = None\<rparr>"

definition example_stc :: ProfileConfig where
  "example_stc = \<lparr>pc_PeriodType = \<lparr>vt_Typ = ''space'', vt_Unit = ''bytes''\<rparr>, pc_Period = 1,
     pc_SampleType = [\<lparr>vt_Typ = ''n'', vt_Unit = ''count''\<rparr>], pc_DefaultSampleType = []\<rparr>"

lemma pc_frames_example:
  "pc_frames example_rt a = [if a = 0 then (example_frame a)\<lparr>fr_PC := a - 1\<rparr> else example_frame a]"
  by (simp add: pc_frames_def allFrames_def frames_Next_def example_rt_def example_frame_def Let_def)

lemma pc_frames_example_facts [simp]:
  "pc_frames example_rt a \<noteq> []" "fr_Func (last (pc_frames example_rt a))"
  by (simp_all add: pc_frames_example example_frame_def)

lemma ext_example [simp]: "fr_Func lf \<Longrightarrow> ext example_rt lf stk = []"
  by (cases stk) (simp_all add: inlined_in_def)

lemma groups_example [simp]: "groups example_rt stk = map (\<lambda>a. [a]) stk"
  by (induction stk) simp_all

lemma stack_groups_example [simp]: "stack_groups example_rt stk = map (\<lambda>a. [a]) stk"
  by (simp add: stack_groups_def) (simp add: example_rt_def)

lemma group_lines_example [simp]: "group_lines example_rt [a] = [(''main.work'', 7)]"
  by (simp add: group_lines_def pc_frames_example) (simp add: example_rt_def example_frame_def)

lemma stack_valid_example [simp]: "stack_valid example_rt example_inl stk"
  by (auto simp: stack_valid_def stack_ok_def example_inl_def)

section \<open>Properties of the builder\<close>

text \<open>
  C4. \<^verbatim>\<open>LocsForStack\<close> never panics on a stack that
  agrees with the runtime's inline groups: it returns one location number per group of the
  expanded stack, each number resolves in the emitted messages to exactly the frames of
  its group, and the numbers of locations emitted before do not change.
\<close>

theorem LocsForStack_groups:
  assumes "bd_inv rt inl ms b" and "stack_valid rt inl stk"
  shows "\<exists>b' ns. LocsForStack rt stk b = Some (stack_locs rt b' stk, b') \<and> bd_inv rt inl (ms @ ns) b' \<and>
    (\<forall>m \<in> set ns. is_table m) \<and> (\<forall>a. has_loc b a \<longrightarrow> loc_id b' a = loc_id b a) \<and>
    (fits b' \<and> opt_GenericsFrames (bd_opt b) \<longrightarrow>
     map (resolve_loc (ms @ ns)) (stack_locs rt b' stk) = map (\<lambda>g. Some (group_lines rt g)) (stack_groups rt stk))"
proof -
  obtain b' ns where r: "LocsForStack rt stk b = Some (stack_locs rt b' stk, b')"
    and b': "bd_inv rt inl (ms @ ns) b'" "\<forall>m \<in> set ns. is_table m" "grows b b'" "known rt b' stk"
    using LocsForStack_delivers [OF assms(1), of stk] assms(2)
    by (auto simp: delivers_def stack_valid_def stack_groups_def stack_locs_def known_def)
  have "map (resolve_loc (ms @ ns)) (stack_locs rt b' stk) = map (\<lambda>g. Some (group_lines rt g)) (stack_groups rt stk)"
    if "fits b'" "opt_GenericsFrames (bd_opt b)"
    by (rule resolve_stack_locs [OF b'(1) that(1)]) (use that b' assms(2) in \<open>auto simp: grows_def\<close>)
  then show ?thesis
    using r b' grows_loc_id [OF b'(3)] by blast
qed

theorem LocsForStack_groups_witness:
  "\<exists>b'. LocsForStack example_rt [7, 9] (new_builder 0 [] example_zw example_opt) =
     Some (stack_locs example_rt b' [7, 9], b') \<and> stack_groups example_rt [7, 9] = [[7], [9]]"
proof -
  have "bd_inv example_rt example_inl [] (new_builder 0 [] example_zw example_opt)"
    by (rule bd_inv_new) (simp_all add: example_zw_def)
  from LocsForStack_groups [OF this stack_valid_example, of "[7, 9]"] show ?thesis
    by auto
qed

text \<open>
  C3. A profile built from a list of samples with
  \<^verbatim>\<open>NewProfileBuilder\<close>, \<^verbatim>\<open>LocsForStack\<close> and \<^verbatim>\<open>Sample\<close> for
  each sample, and \<^verbatim>\<open>Build\<close> is complete and readable: no operation panics,
  the gzip writer is closed, and decoding the bytes it was given and resolving locations,
  functions and strings gives back exactly the samples, in order, with the frames of
  their stacks.
\<close>

theorem builder_roundtrip:
  assumes "zw_written zw = []" and "\<not> zw_closed zw" and "opt_GenericsFrames opt"
    and "\<forall>x \<in> set xs. stack_valid rt inl (fst (snd x))"
  shows "\<exists>b b1 b2. NewProfileBuilder t0 maps zw opt stc = Some b \<and>
    add_samples (proto_ops rt t1) xs b = Some b1 \<and> Build t1 b1 = Some b2 \<and> zw_closed (bd_zw b2) \<and>
    (length (zw_written (bd_zw b2)) < 2 ^ 64 \<longrightarrow>
     (\<exists>P. dec_profile (zw_written (bd_zw b2)) = Some P \<and> read_profile P = expected_profile rt xs))"
proof -
  obtain b where b: "NewProfileBuilder t0 maps zw opt stc = Some b" "pb_rep rt inl stc True b []"
    using NewProfileBuilder_rep [OF assms(1,2), of t0 maps opt stc rt inl] assms(3) by auto
  obtain b1 where b1: "add_samples (proto_ops rt t1) xs b = Some b1" "pb_rep rt inl stc True b1 xs"
    using pbi.add_samples_ok [OF b(2) assms(4)] by auto
  obtain b2 where "Build t1 b1 = Some b2" "pb_final rt True b2 xs"
    using pb_build_law [OF b1(2)] by blast
  with b b1 show ?thesis
    by (auto simp: pb_final_def profile_of_def)
qed

theorem builder_roundtrip_witness:
  "\<exists>b b1 b2. NewProfileBuilder 0 [] example_zw example_opt example_stc = Some b \<and>
     add_samples (proto_ops example_rt 5) [([3], [7, 9], 0)] b = Some b1 \<and> Build 5 b1 = Some b2 \<and>
     zw_closed (bd_zw b2)"
  using builder_roundtrip [of example_zw example_opt "[([3], [7, 9], 0)]" example_rt example_inl 0 "[]" example_stc 5]
  by (auto simp: example_zw_def example_opt_def)

end
