(* ===== verification/DeltaCommon.thy ===== *)
theory DeltaCommon
  imports ExampleRuntime ProfMap
begin

text \<open>
  What the heap and the mutex delta profiler share.

  Both make two passes over the runtime's records: the first adds every record to the
  accumulator of its key, the second visits every record again, and the first visit of
  a key turns the accumulator into a sample while later visits find nothing to do.
  The lemmas give the outcome of each pass in closed form: the accumulator holds the
  sum over the records of the key, and the samples are those of the keys in the order
  of their first record.
\<close>

section \<open>Floating point\<close>

text \<open>
  The operations on \<^verbatim>\<open>float64\<close> the profilers use; the theorems hold
  for every interpretation of them.
\<close>

record 'f float64_ops =
  fo_of_int64 :: "i64 \<Rightarrow> 'f"
  fo_to_int64 :: "'f \<Rightarrow> i64"
  fo_div :: "'f \<Rightarrow> 'f \<Rightarrow> 'f"
  fo_mul :: "'f \<Rightarrow> 'f \<Rightarrow> 'f"
  fo_sub :: "'f \<Rightarrow> 'f \<Rightarrow> 'f"
  fo_neg :: "'f \<Rightarrow> 'f"
  fo_exp :: "'f \<Rightarrow> 'f"

section \<open>Keys in order of first occurrence\<close>

fun firsts :: "'a list \<Rightarrow> 'a list" where
  "firsts [] = []"
| "firsts (x # xs) = x # removeAll x (firsts xs)"

lemma set_firsts [simp]: "set (firsts xs) = set xs"
  by (induction xs) auto

lemma distinct_firsts [simp]: "distinct (firsts xs)"
  by (induction xs) (simp_all add: distinct_removeAll)

definition keys_of :: "('x \<Rightarrow> 'k option) \<Rightarrow> 'x list \<Rightarrow> 'k list" where
  "keys_of key xs = List.map_filter key xs"

lemma keys_of_simps [simp]:
  "keys_of key [] = []"
  "keys_of key (x # xs) = (case key x of None \<Rightarrow> keys_of key xs | Some k \<Rightarrow> k # keys_of key xs)"
  by (simp_all add: keys_of_def List.map_filter_def split: option.split)

lemma mem_keys_of: "k \<in> set (keys_of key xs) \<longleftrightarrow> (\<exists>x \<in> set xs. key x = Some k)"
  by (induction xs) (auto split: option.split)

section \<open>The first pass\<close>

definition with_key :: "('x \<Rightarrow> 'k option) \<Rightarrow> 'k \<Rightarrow> 'x list \<Rightarrow> 'x list" where
  "with_key key k xs = filter (\<lambda>x. key x = Some k) xs"

definition summed :: "'v \<Rightarrow> ('x \<Rightarrow> 'k option) \<Rightarrow> ('x \<Rightarrow> 'v \<Rightarrow> 'v) \<Rightarrow> 'x list \<Rightarrow> ('k \<rightharpoonup> 'v) \<Rightarrow> ('k \<rightharpoonup> 'v)" where
  "summed z key add xs A =
     (\<lambda>k. if k \<in> set (keys_of key xs) then Some (fold add (with_key key k xs) (entry_or z A k)) else A k)"

lemma with_key_none: "k \<notin> set (keys_of key xs) \<Longrightarrow> with_key key k xs = []"
  by (auto simp: with_key_def mem_keys_of filter_empty_conv)

lemma entry_or_summed [simp]:
  "entry_or z (summed z key add xs A) k = fold add (with_key key k xs) (entry_or z A k)"
  by (simp add: summed_def entry_or_def with_key_none)

lemma map_each_accumulate:
  "map_each z key (\<lambda>x v b. Some (add x v, b)) xs A b = Some (summed z key add xs A, b)"
proof (induction xs arbitrary: A)
  case (Cons x xs)
  show ?case
  proof (cases "key x")
    case None
    with Cons show ?thesis
      by (simp add: summed_def with_key_def fun_eq_iff)
  next
    case (Some k)
    with Cons with_key_none [of _ key xs] show ?thesis
      by (auto simp: summed_def with_key_def fun_eq_iff entry_or_def)
  qed
qed (simp add: summed_def)

section \<open>The second pass\<close>

text \<open>
  A visit of a key computes the new values of its entry and perhaps a sample; a second
  visit changes nothing.
\<close>

definition settled :: "('k \<Rightarrow> 'v \<Rightarrow> 'v \<times> 's option) \<Rightarrow> bool" where
  "settled step \<longleftrightarrow> (\<forall>k v. step k (fst (step k v)) = (fst (step k v), None))"

definition visit :: "('k \<Rightarrow> 'v \<Rightarrow> 'v \<times> 's option) \<Rightarrow> ('s \<Rightarrow> 'b \<Rightarrow> 'b option) \<Rightarrow> 'k \<Rightarrow> 'v \<Rightarrow> 'b \<Rightarrow>
    ('v \<times> 'b) option" where
  "visit step emit k v b =
     (case step k v of
        (v', None) \<Rightarrow> Some (v', b)
      | (v', Some s) \<Rightarrow> map_option (Pair v') (emit s b))"

definition visited :: "'v \<Rightarrow> ('k \<Rightarrow> 'v \<Rightarrow> 'v \<times> 's option) \<Rightarrow> 'k list \<Rightarrow> ('k \<rightharpoonup> 'v) \<Rightarrow> ('k \<rightharpoonup> 'v)" where
  "visited z step ks A = (\<lambda>k. if k \<in> set ks then Some (fst (step k (entry_or z A k))) else A k)"

definition samples_of :: "'v \<Rightarrow> ('k \<Rightarrow> 'v \<Rightarrow> 'v \<times> 's option) \<Rightarrow> 'k list \<Rightarrow> ('k \<rightharpoonup> 'v) \<Rightarrow> 's list" where
  "samples_of z step ks A = List.map_filter (\<lambda>k. snd (step k (entry_or z A k))) (firsts ks)"

lemma map_filter_removeAll:
  "f k = None \<Longrightarrow> List.map_filter f (removeAll k ks) = List.map_filter f ks"
  by (induction ks) (auto simp: List.map_filter_def)

lemma samples_of_Cons:
  assumes "settled step"
  shows "samples_of z step (k # ks) A =
    (case snd (step k (entry_or z A k)) of None \<Rightarrow> [] | Some s \<Rightarrow> [s]) @
    samples_of z step ks (A(k \<mapsto> fst (step k (entry_or z A k))))"
proof -
  let ?A = "A(k \<mapsto> fst (step k (entry_or z A k)))"
  have "snd (step k (entry_or z ?A k)) = None"
    using assms by (simp add: settled_def entry_or_def)
  then have "samples_of z step ks ?A =
      List.map_filter (\<lambda>k. snd (step k (entry_or z ?A k))) (removeAll k (firsts ks))"
    by (simp add: samples_of_def map_filter_removeAll)
  also have "\<dots> = List.map_filter (\<lambda>k. snd (step k (entry_or z A k))) (removeAll k (firsts ks))"
    by (auto simp: List.map_filter_def entry_or_def intro!: map_cong filter_cong)
  finally show ?thesis
    by (simp add: samples_of_def List.map_filter_simps split: option.split)
qed

lemma visited_Cons:
  assumes "settled step"
  shows "visited z step ks (A(k \<mapsto> fst (step k (entry_or z A k)))) = visited z step (k # ks) A"
  using assms by (auto simp: visited_def settled_def entry_or_def fun_eq_iff)

text \<open>Both passes and the end of the profile.\<close>

definition two_pass :: "'p \<times> 'a \<Rightarrow> 'b builder_ops \<Rightarrow> ('x \<Rightarrow> (uintptr list \<times> uintptr) option) \<Rightarrow>
    ('x \<Rightarrow> 'p \<times> 'a \<Rightarrow> 'p \<times> 'a) \<Rightarrow> ('x \<Rightarrow> 'p \<times> 'a \<Rightarrow> 'b \<Rightarrow> (('p \<times> 'a) \<times> 'b) option) \<Rightarrow> 'x list \<Rightarrow>
    ('p, 'a) profMap \<Rightarrow> 'b \<Rightarrow> (('p, 'a) profMap \<times> 'b) option" where
  "two_pass z bops key add body xs m b =
     (let lookup = (\<lambda>k. Lookup z (fst k) (snd k)) in
      do {
        (m, b) \<leftarrow> for_each lookup pm_get pm_put key (\<lambda>r v b. Some (add r v, b)) xs m b;
        (m, b) \<leftarrow> for_each lookup pm_get pm_put key body xs m b;
        b \<leftarrow> op_Build bops b;
        Some (m, b)
      })"

context profile_builder
begin

lemma map_each_visit:
  assumes "settled step" and "rep b ys"
    and body: "\<forall>x \<in> set xs. \<forall>k v b. key x = Some k \<longrightarrow> body x v b = visit step emit k v b"
    and emit: "\<forall>k \<in> set (keys_of key xs). \<forall>v s b ys. snd (step k v) = Some s \<longrightarrow> rep b ys \<longrightarrow>
      (\<exists>b'. emit s b = Some b' \<and> rep b' (ys @ [f s]))"
  shows "\<exists>b'. map_each z key body xs A b = Some (visited z step (keys_of key xs) A, b') \<and>
    rep b' (ys @ map f (samples_of z step (keys_of key xs) A))"
  using assms(2-4)
proof (induction xs arbitrary: A b ys)
  case Nil
  then show ?case
    by (simp add: visited_def samples_of_def List.map_filter_def)
next
  case (Cons x xs)
  show ?case
  proof (cases "key x")
    case None
    with Cons show ?thesis
      by simp
  next
    case (Some k)
    let ?v = "entry_or z A k" and ?A = "A(k \<mapsto> fst (step k (entry_or z A k)))"
    obtain b1 where b1: "visit step emit k ?v b = Some (fst (step k ?v), b1)"
      and rep1: "rep b1 (ys @ (case snd (step k ?v) of None \<Rightarrow> [] | Some s \<Rightarrow> [f s]))"
    proof (cases "snd (step k ?v)")
      case None
      with Cons.prems(1) that [of b] show ?thesis
        by (cases "step k ?v") (simp add: visit_def)
    next
      case s: (Some s)
      have "k \<in> set (keys_of key (x # xs))"
        using Some by simp
      with s Cons.prems obtain b1 where "emit s b = Some b1" "rep b1 (ys @ [f s])"
        by blast
      with s that [of b1] show ?thesis
        by (cases "step k ?v") (simp add: visit_def)
    qed
    obtain b' where "map_each z key body xs ?A b1 = Some (visited z step (keys_of key xs) ?A, b')"
      "rep b' ((ys @ (case snd (step k ?v) of None \<Rightarrow> [] | Some s \<Rightarrow> [f s])) @ map f (samples_of z step (keys_of key xs) ?A))"
      using Cons.IH [OF rep1, of ?A] Cons.prems(2,3) Some by (auto simp del: fun_upd_apply)
    with Some b1 Cons.prems(2) show ?thesis
      using visited_Cons [OF assms(1)] samples_of_Cons [OF assms(1)]
      by (cases "snd (step k ?v)") (auto simp: fun_upd_def)
  qed
qed

lemma two_pass_ok:
  assumes inv: "pm_inv z m" and keys: "\<forall>x \<in> set xs. \<forall>k. key x = Some k \<longrightarrow> length (fst k) \<le> 1024"
    and "settled step" and "rep b ys"
    and body: "\<forall>x \<in> set xs. \<forall>k v b. key x = Some k \<longrightarrow> body x v b = visit step emit k v b"
    and emit: "\<forall>k \<in> set (keys_of key xs). \<forall>v s b ys. snd (step k v) = Some s \<longrightarrow> rep b ys \<longrightarrow>
      (\<exists>b'. emit s b = Some b' \<and> rep b' (ys @ [f s]))"
  shows "\<exists>m' b'. two_pass z ops key add body xs m b = Some (m', b') \<and> pm_inv z m' \<and>
    pm_abs m' = visited z step (keys_of key xs) (summed z key add xs (pm_abs m)) \<and>
    final b' (ys @ map f (samples_of z step (keys_of key xs) (summed z key add xs (pm_abs m))))"
proof -
  let ?lookup = "\<lambda>k. Lookup z (fst k) (snd k)"
  obtain m1 where m1: "for_each ?lookup pm_get pm_put key (\<lambda>r v b. Some (add r v, b)) xs m b = Some (m1, b)"
    "pm_abs m1 = summed z key add xs (pm_abs m)" "pm_inv z m1"
    using pm.for_each_simulates [where b = b, OF inv keys map_each_accumulate] by blast
  obtain b2 where b2: "map_each z key body xs (pm_abs m1) b = Some (visited z step (keys_of key xs) (pm_abs m1), b2)"
    "rep b2 (ys @ map f (samples_of z step (keys_of key xs) (pm_abs m1)))"
    using map_each_visit [OF assms(3,4) body emit] by blast
  obtain m2 where m2: "for_each ?lookup pm_get pm_put key body xs m1 b = Some (m2, b2)"
    "pm_abs m2 = visited z step (keys_of key xs) (pm_abs m1)" "pm_inv z m2"
    using pm.for_each_simulates [OF m1(3) keys b2(1)] by blast
  obtain b3 where "op_Build ops b2 = Some b3" "final b3 (ys @ map f (samples_of z step (keys_of key xs) (pm_abs m1)))"
    using build_law [OF b2(2)] by blast
  with m1 m2 show ?thesis
    by (auto simp: two_pass_def)
qed

end

end
