(* ===== verification/DeltaMutex.thy ===== *)
theory DeltaMutex
  imports DeltaCommon
begin

text \<open>
  The delta profiler for mutex and block profiles,
  \<^verbatim>\<open>godeltaprof/internal/pprof/delta_mutex.go\<close> and
  \<^verbatim>\<open>mutex_scale_go20.go\<close>, and its specification as a function from the
  previous totals and the records to the samples and the new totals.
\<close>

section \<open>The profiler\<close>

record BlockProfileRecord =
  br_Count :: i64
  br_Cycles :: i64
  br_Stack :: "uintptr list"

definition blockRecordStack :: "BlockProfileRecord \<Rightarrow> uintptr list" where
  "blockRecordStack r = br_Stack r"

record mutexPrevValue =
  mp_count :: i64
  mp_inanosec :: i64

record mutexAccValue =
  ma_count :: i64
  ma_cycles :: i64

definition mutex_zero :: "mutexPrevValue \<times> mutexAccValue" where
  "mutex_zero = (\<lparr>mp_count = 0, mp_inanosec = 0\<rparr>, \<lparr>ma_count = 0, ma_cycles = 0\<rparr>)"

type_synonym DeltaMutexProfiler = "(mutexPrevValue, mutexAccValue) profMap"

text \<open>\<^verbatim>\<open>MutexProfileScaler\<close> is a struct without fields.\<close>

type_synonym MutexProfileScaler = unit

definition ScaleMutexProfile :: "MutexProfileScaler \<Rightarrow> i64 \<Rightarrow> 'f \<Rightarrow> i64 \<times> 'f" where
  "ScaleMutexProfile sc cnt ns = (cnt, ns)"

definition mutex_key :: "BlockProfileRecord \<Rightarrow> (uintptr list \<times> uintptr) option" where
  "mutex_key r = Some (blockRecordStack r, 0)"

text \<open>The body of the first loop, on the entry's values.\<close>

definition mutex_add :: "BlockProfileRecord \<Rightarrow> mutexPrevValue \<times> mutexAccValue \<Rightarrow> mutexPrevValue \<times> mutexAccValue" where
  "mutex_add r v =
     (case v of (prev, acc) \<Rightarrow>
        (prev, acc\<lparr>ma_count := ma_count acc + br_Count r, ma_cycles := ma_cycles acc + br_Cycles r\<rparr>))"

text \<open>The body of the second loop, on the entry's values and the builder.\<close>

definition mutex_delta :: "'f float64_ops \<Rightarrow> 'f \<Rightarrow> MutexProfileScaler \<Rightarrow> 'b builder_ops \<Rightarrow> BlockProfileRecord \<Rightarrow>
    mutexPrevValue \<times> mutexAccValue \<Rightarrow> 'b \<Rightarrow> ((mutexPrevValue \<times> mutexAccValue) \<times> 'b) option" where
  "mutex_delta fo cpuGHz scaler ops r v b =
     (case v of (prev, acc) \<Rightarrow>
        (let stk = blockRecordStack r; accCount = ma_count acc; accCycles = ma_cycles acc in
         if accCount = 0 \<and> accCycles = 0 then Some ((prev, acc), b)
         else
           (let acc = \<lparr>ma_count = 0, ma_cycles = 0\<rparr>;
                (count, nanosec) = ScaleMutexProfile scaler accCount (fo_div fo (fo_of_int64 fo accCycles) cpuGHz);
                inanosec = fo_to_int64 fo nanosec;
                v0 = count - mp_count prev;
                v1 = inanosec - mp_inanosec prev;
                prev = \<lparr>mp_count = count, mp_inanosec = inanosec\<rparr>
            in if sint v0 < 0 \<or> sint v1 < 0 then Some ((prev, acc), b)
               else if v0 = 0 \<and> v1 = 0 then Some ((prev, acc), b)
               else
                 do {
                   (locs, b) \<leftarrow> op_LocsForStack ops stk b;
                   b \<leftarrow> op_Sample ops [v0, v1] locs 0 b;
                   Some ((prev, acc), b)
                 })))"

definition PrintCountCycleProfile :: "'f float64_ops \<Rightarrow> i64 \<Rightarrow> 'b builder_ops \<Rightarrow> MutexProfileScaler \<Rightarrow>
    BlockProfileRecord list \<Rightarrow> DeltaMutexProfiler \<Rightarrow> 'b \<Rightarrow> (DeltaMutexProfiler \<times> 'b) option" where
  "PrintCountCycleProfile fo cyclesPerSecond ops scaler records m b =
     (let cpuGHz = fo_div fo (fo_of_int64 fo cyclesPerSecond) (fo_of_int64 fo 1000000000);
          lookup = (\<lambda>k. Lookup mutex_zero (fst k) (snd k))
      in do {
           (m, b) \<leftarrow> for_each lookup pm_get pm_put mutex_key (\<lambda>r v b. Some (mutex_add r v, b)) records m b;
           (m, b) \<leftarrow> for_each lookup pm_get pm_put mutex_key (mutex_delta fo cpuGHz scaler ops) records m b;
           b \<leftarrow> op_Build ops b;
           Some (m, b)
         })"

definition MutexProfileConfig :: ProfileConfig where
  "MutexProfileConfig =
     \<lparr>pc_PeriodType = \<lparr>vt_Typ = ''contentions'', vt_Unit = ''count''\<rparr>, pc_Period = 1,
      pc_SampleType = [\<lparr>vt_Typ = ''contentions'', vt_Unit = ''count''\<rparr>,
                       \<lparr>vt_Typ = ''delay'', vt_Unit = ''nanoseconds''\<rparr>],
      pc_DefaultSampleType = []\<rparr>"

section \<open>The specification\<close>

definition cpu_ghz :: "'f float64_ops \<Rightarrow> i64 \<Rightarrow> 'f" where
  "cpu_ghz fo cps = fo_div fo (fo_of_int64 fo cps) (fo_of_int64 fo 1000000000)"

text \<open>The totals of a stack in a list of records, and the same in nanoseconds.\<close>

definition mutex_totals :: "BlockProfileRecord list \<Rightarrow> uintptr list \<Rightarrow> i64 \<times> i64" where
  "mutex_totals rs stk =
     (let mine = filter (\<lambda>r. br_Stack r = stk) rs
      in (sum_list (map br_Count mine), sum_list (map br_Cycles mine)))"

definition mutex_scaled :: "'f float64_ops \<Rightarrow> i64 \<Rightarrow> i64 \<times> i64 \<Rightarrow> mutexPrevValue" where
  "mutex_scaled fo cps t =
     \<lparr>mp_count = fst t,
      mp_inanosec = fo_to_int64 fo (fo_div fo (fo_of_int64 fo (snd t)) (cpu_ghz fo cps))\<rparr>"

text \<open>The new total of a stack, unless nothing was recorded for it.\<close>

definition mutex_next :: "'f float64_ops \<Rightarrow> i64 \<Rightarrow> BlockProfileRecord list \<Rightarrow> (uintptr list \<Rightarrow> mutexPrevValue) \<Rightarrow>
    uintptr list \<Rightarrow> mutexPrevValue" where
  "mutex_next fo cps rs prev stk =
     (if mutex_totals rs stk = (0, 0) then prev stk else mutex_scaled fo cps (mutex_totals rs stk))"

text \<open>The sample of a stack: what was added since the last profile, if it did not shrink.\<close>

definition mutex_sample :: "'f float64_ops \<Rightarrow> i64 \<Rightarrow> BlockProfileRecord list \<Rightarrow> (uintptr list \<Rightarrow> mutexPrevValue) \<Rightarrow>
    uintptr list \<Rightarrow> sample option" where
  "mutex_sample fo cps rs prev stk =
     (let p' = mutex_next fo cps rs prev stk;
          v0 = mp_count p' - mp_count (prev stk); v1 = mp_inanosec p' - mp_inanosec (prev stk)
      in if sint v0 < 0 \<or> sint v1 < 0 \<or> (v0 = 0 \<and> v1 = 0) then None else Some ([v0, v1], stk, 0))"

definition mutex_samples :: "'f float64_ops \<Rightarrow> i64 \<Rightarrow> BlockProfileRecord list \<Rightarrow> (uintptr list \<Rightarrow> mutexPrevValue) \<Rightarrow>
    sample list" where
  "mutex_samples fo cps rs prev = List.map_filter (mutex_sample fo cps rs prev) (firsts (map br_Stack rs))"

text \<open>Between two profiles every accumulator is zero; the state is the previous totals.\<close>

definition mutex_ok :: "DeltaMutexProfiler \<Rightarrow> bool" where
  "mutex_ok m \<longleftrightarrow> pm_inv mutex_zero m \<and> (\<forall>k v. pm_abs m k = Some v \<longrightarrow> snd v = snd mutex_zero)"

definition mutex_prevs :: "DeltaMutexProfiler \<Rightarrow> uintptr list \<Rightarrow> mutexPrevValue" where
  "mutex_prevs m stk = fst (entry_or mutex_zero (pm_abs m) (stk, 0))"

section \<open>Correctness\<close>

definition mutex_step :: "'f float64_ops \<Rightarrow> i64 \<Rightarrow> uintptr list \<times> uintptr \<Rightarrow> mutexPrevValue \<times> mutexAccValue \<Rightarrow>
    (mutexPrevValue \<times> mutexAccValue) \<times> sample option" where
  "mutex_step fo cps k v =
     (let t = (ma_count (snd v), ma_cycles (snd v)); p' = mutex_scaled fo cps t;
          v0 = mp_count p' - mp_count (fst v); v1 = mp_inanosec p' - mp_inanosec (fst v)
      in if t = (0, 0) then (v, None)
         else ((p', snd mutex_zero),
           if sint v0 < 0 \<or> sint v1 < 0 \<or> (v0 = 0 \<and> v1 = 0) then None else Some ([v0, v1], fst k, 0)))"

lemma mutex_delta_visit:
  assumes "mutex_key r = Some k"
  shows "mutex_delta fo (cpu_ghz fo cps) sc ops r v b = visit (mutex_step fo cps) (emit_sample ops) k v b"
proof -
  have "k = (br_Stack r, 0)"
    using assms by (simp add: mutex_key_def blockRecordStack_def)
  then show ?thesis
    by (cases v; cases "op_LocsForStack ops (br_Stack r) b")
      (auto simp: mutex_delta_def visit_def mutex_step_def mutex_scaled_def ScaleMutexProfile_def Let_def
        blockRecordStack_def emit_sample_def mutex_zero_def map_option_case split: option.split)
qed

lemma settled_mutex_step: "settled (mutex_step fo cps)"
  by (auto simp: settled_def mutex_step_def mutex_zero_def Let_def)

lemma fold_mutex_add:
  "fold mutex_add rs (prev, acc) =
     (prev, acc\<lparr>ma_count := ma_count acc + sum_list (map br_Count rs),
                ma_cycles := ma_cycles acc + sum_list (map br_Cycles rs)\<rparr>)"
  by (induction rs arbitrary: acc) (simp_all add: mutex_add_def add.assoc)

lemma keys_of_mutex: "keys_of mutex_key rs = map (\<lambda>r. (br_Stack r, 0)) rs"
  by (induction rs) (simp_all add: mutex_key_def blockRecordStack_def)

lemma firsts_map_inj: "inj f \<Longrightarrow> firsts (map f xs) = map f (firsts xs)"
  by (induction xs) (simp_all add: map_removeAll_inj)

lemma PrintCountCycleProfile_two_pass:
  "PrintCountCycleProfile fo cps ops sc rs m b =
     two_pass mutex_zero ops mutex_key mutex_add (mutex_delta fo (cpu_ghz fo cps) sc ops) rs m b"
  by (simp add: PrintCountCycleProfile_def two_pass_def cpu_ghz_def Let_def)

lemma mutex_summed:
  assumes "mutex_ok m"
  shows "entry_or mutex_zero (summed mutex_zero mutex_key mutex_add rs (pm_abs m)) (stk, 0) =
    (mutex_prevs m stk, \<lparr>ma_count = fst (mutex_totals rs stk), ma_cycles = snd (mutex_totals rs stk)\<rparr>)"
proof -
  have "snd (entry_or mutex_zero (pm_abs m) (stk, 0)) = snd mutex_zero"
    using assms by (auto simp: mutex_ok_def entry_or_def split: option.split)
  then have "entry_or mutex_zero (pm_abs m) (stk, 0) = (mutex_prevs m stk, snd mutex_zero)"
    by (simp add: mutex_prevs_def prod_eq_iff)
  moreover have "with_key mutex_key (stk, 0) rs = filter (\<lambda>r. br_Stack r = stk) rs"
    by (simp add: with_key_def mutex_key_def blockRecordStack_def)
  ultimately show ?thesis
    by (simp add: fold_mutex_add mutex_totals_def mutex_zero_def Let_def)
qed

lemma mutex_step_sample:
  "snd (mutex_step fo cps (stk, 0) (prev stk, \<lparr>ma_count = fst (mutex_totals rs stk), ma_cycles = snd (mutex_totals rs stk)\<rparr>)) =
     mutex_sample fo cps rs prev stk"
  "fst (fst (mutex_step fo cps (stk, 0) (prev stk, \<lparr>ma_count = fst (mutex_totals rs stk), ma_cycles = snd (mutex_totals rs stk)\<rparr>))) =
     mutex_next fo cps rs prev stk"
  "snd (fst (mutex_step fo cps k v)) = snd mutex_zero"
  by (auto simp: mutex_step_def mutex_sample_def mutex_next_def Let_def mutex_zero_def prod_eq_iff)

lemma mutex_visited:
  assumes "mutex_ok m"
    and abs: "pm_abs m' = visited mutex_zero (mutex_step fo cps) (keys_of mutex_key rs)
      (summed mutex_zero mutex_key mutex_add rs (pm_abs m))"
  shows "mutex_prevs m' = mutex_next fo cps rs (mutex_prevs m)"
    and "pm_abs m' k = Some v \<Longrightarrow> snd v = snd mutex_zero"
proof -
  let ?S = "summed mutex_zero mutex_key mutex_add rs (pm_abs m)"
  show "mutex_prevs m' = mutex_next fo cps rs (mutex_prevs m)"
  proof
    fix stk
    show "mutex_prevs m' stk = mutex_next fo cps rs (mutex_prevs m) stk"
    proof (cases "(stk, 0) \<in> set (keys_of mutex_key rs)")
      case True
      then have "pm_abs m' (stk, 0) = Some (fst (mutex_step fo cps (stk, 0) (entry_or mutex_zero ?S (stk, 0))))"
        by (simp add: abs visited_def)
      then show ?thesis
        unfolding mutex_summed [OF assms(1)]
        by (simp add: mutex_prevs_def [of m'] entry_or_def mutex_step_sample)
    next
      case False
      then have "pm_abs m' (stk, 0) = pm_abs m (stk, 0)" and "filter (\<lambda>r. br_Stack r = stk) rs = []"
        by (auto simp: abs visited_def summed_def keys_of_mutex filter_empty_conv)
      then show ?thesis
        by (simp add: mutex_prevs_def entry_or_def mutex_next_def mutex_totals_def)
    qed
  qed
  show "snd v = snd mutex_zero" if "pm_abs m' k = Some v"
  proof (cases "k \<in> set (keys_of mutex_key rs)")
    case True
    with that abs have "v = fst (mutex_step fo cps k (entry_or mutex_zero ?S k))"
      by (simp add: visited_def)
    then show ?thesis
      by (simp add: mutex_step_sample(3))
  next
    case False
    with that abs have "pm_abs m k = Some v"
      by (simp add: visited_def summed_def)
    with assms(1) show ?thesis
      unfolding mutex_ok_def by blast
  qed
qed

lemma mutex_samples_of:
  assumes "mutex_ok m"
  shows "samples_of mutex_zero (mutex_step fo cps) (keys_of mutex_key rs)
    (summed mutex_zero mutex_key mutex_add rs (pm_abs m)) = mutex_samples fo cps rs (mutex_prevs m)"
proof -
  have "firsts (keys_of mutex_key rs) = map (\<lambda>stk. (stk, 0)) (firsts (map br_Stack rs))"
    using firsts_map_inj [of "\<lambda>stk. (stk, 0)" "map br_Stack rs"] by (simp add: keys_of_mutex inj_def comp_def)
  then show ?thesis
    unfolding samples_of_def mutex_samples_def
    by (simp only: List.map_filter_def filter_map map_map comp_def mutex_summed [OF assms] mutex_step_sample(1))
qed

context profile_builder
begin

lemma PrintCountCycleProfile_ok:
  assumes "rep b ys" and ok: "mutex_ok m"
    and stacks: "\<forall>r \<in> set rs. length (br_Stack r) \<le> 1024 \<and> valid (br_Stack r)"
  shows "\<exists>m' b'. PrintCountCycleProfile fo cps ops sc rs m b = Some (m', b') \<and> mutex_ok m' \<and>
    mutex_prevs m' = mutex_next fo cps rs (mutex_prevs m) \<and>
    final b' (ys @ mutex_samples fo cps rs (mutex_prevs m))"
proof -
  have emit: "\<forall>k \<in> set (keys_of mutex_key rs). \<forall>v s b ys. snd (mutex_step fo cps k v) = Some s \<longrightarrow> rep b ys \<longrightarrow>
      (\<exists>b'. emit_sample ops s b = Some b' \<and> rep b' (ys @ [s]))"
    using stacks by (auto simp: keys_of_mutex mutex_step_def Let_def split: if_splits intro!: emit_sample_ok)
  obtain m' b' where "PrintCountCycleProfile fo cps ops sc rs m b = Some (m', b')" "pm_inv mutex_zero m'"
    and abs: "pm_abs m' = visited mutex_zero (mutex_step fo cps) (keys_of mutex_key rs)
      (summed mutex_zero mutex_key mutex_add rs (pm_abs m))"
    and "final b' (ys @ mutex_samples fo cps rs (mutex_prevs m))"
    using two_pass_ok [where f = "\<lambda>s. s", OF _ _ settled_mutex_step assms(1) _ emit, of mutex_zero m "mutex_delta fo (cpu_ghz fo cps) sc ops" mutex_add]
      ok stacks mutex_delta_visit [of _ _ fo cps sc ops]
    unfolding PrintCountCycleProfile_two_pass mutex_samples_of [OF ok]
    by (auto simp: mutex_ok_def mutex_key_def blockRecordStack_def)
  with mutex_visited [OF ok abs] show ?thesis
    by (auto simp: mutex_ok_def)
qed

end

section \<open>Increments\<close>

text \<open>What the samples of one stack add up to.\<close>

definition stack_sum :: "nat \<Rightarrow> uintptr list \<Rightarrow> sample list \<Rightarrow> i64" where
  "stack_sum i stk xs = sum_list (map (\<lambda>(vs, s, n). if s = stk then vs ! i else 0) xs)"

definition not_shrunk :: "mutexPrevValue \<Rightarrow> mutexPrevValue \<Rightarrow> bool" where
  "not_shrunk p q \<longleftrightarrow> 0 \<le> sint (mp_count q - mp_count p) \<and> 0 \<le> sint (mp_inanosec q - mp_inanosec p)"

lemma stack_sum_simps [simp]:
  "stack_sum i stk [] = 0" "stack_sum i stk (xs @ ys) = stack_sum i stk xs + stack_sum i stk ys"
  "stack_sum i stk (x # xs) = (if fst (snd x) = stk then fst x ! i else 0) + stack_sum i stk xs"
  by (simp_all add: stack_sum_def case_prod_beta)

lemma mutex_sample_stack: "mutex_sample fo cps rs prev stk = Some s \<Longrightarrow> fst (snd s) = stk"
  by (auto simp: mutex_sample_def Let_def split: if_splits)

lemma stack_sum_filtered:
  assumes "distinct stks"
  shows "stack_sum i stk (List.map_filter (mutex_sample fo cps rs prev) stks) =
    (if stk \<in> set stks then stack_sum i stk (List.map_filter (mutex_sample fo cps rs prev) [stk]) else 0)"
  using assms
proof (induction stks)
  case (Cons s stks)
  then show ?case
    by (cases "mutex_sample fo cps rs prev s") (auto simp: List.map_filter_simps dest: mutex_sample_stack)
qed (simp add: List.map_filter_def)

lemma mutex_samples_delta:
  assumes "not_shrunk (prev stk) (mutex_next fo cps rs prev stk)"
  shows "stack_sum 0 stk (mutex_samples fo cps rs prev) = mp_count (mutex_next fo cps rs prev stk) - mp_count (prev stk)"
    and "stack_sum 1 stk (mutex_samples fo cps rs prev) = mp_inanosec (mutex_next fo cps rs prev stk) - mp_inanosec (prev stk)"
proof -
  have same: "mutex_next fo cps rs prev stk = prev stk" if "stk \<notin> set (map br_Stack rs)"
  proof -
    have "filter (\<lambda>r. br_Stack r = stk) rs = []"
      using that by (auto simp: filter_empty_conv)
    then show ?thesis
      by (simp add: mutex_next_def mutex_totals_def)
  qed
  show "stack_sum 0 stk (mutex_samples fo cps rs prev) = mp_count (mutex_next fo cps rs prev stk) - mp_count (prev stk)"
    using assms same unfolding mutex_samples_def stack_sum_filtered [OF distinct_firsts]
    by (auto simp: List.map_filter_simps mutex_sample_def not_shrunk_def Let_def)
  show "stack_sum 1 stk (mutex_samples fo cps rs prev) = mp_inanosec (mutex_next fo cps rs prev stk) - mp_inanosec (prev stk)"
    using assms same unfolding mutex_samples_def stack_sum_filtered [OF distinct_firsts]
    by (auto simp: List.map_filter_simps mutex_sample_def not_shrunk_def Let_def)
qed

end
