(* ===== verification/DeltaHeap.thy ===== *)
theory DeltaHeap
  imports DeltaCommon "HOL-Library.Signed_Division"
begin

text \<open>
  The delta profiler for heap profiles,
  \<^verbatim>\<open>godeltaprof/internal/pprof/delta_heap.go\<close>, and the memory records of
  \<^verbatim>\<open>runtime_profile_go123.go\<close> and
  \<^verbatim>\<open>runtime_profile_go127.go\<close>.

  The two record layouts are two types; the profiler is compiled against one of them,
  so it takes their accessor functions as the record \<open>memRecord_ops\<close>.
\<close>

section \<open>Memory records\<close>

record MemProfileRecord =
  mr_AllocBytes :: i64
  mr_FreeBytes :: i64
  mr_AllocObjects :: i64
  mr_FreeObjects :: i64
  mr_Stack :: "uintptr list"

record MemProfileRecord127 =
  mr7_ObjectSize :: i64
  mr7_AllocObjects :: i64
  mr7_FreeObjects :: i64
  mr7_Stack :: "uintptr list"

record 'r memRecord_ops =
  mo_AllocObjects :: "'r \<Rightarrow> i64"
  mo_InUseObjects :: "'r \<Rightarrow> i64"
  mo_Stack :: "'r \<Rightarrow> uintptr list"
  mo_IsFresh :: "'r \<Rightarrow> bool"
  mo_BlockSize :: "'r \<Rightarrow> i64"

text \<open>Division of \<^verbatim>\<open>int64\<close> truncates towards zero.\<close>

definition i64_div :: "i64 \<Rightarrow> i64 \<Rightarrow> i64" where
  "i64_div x y = word_of_int (sint x sdiv sint y)"

definition InUseObjects :: "MemProfileRecord \<Rightarrow> i64" where
  "InUseObjects r = mr_AllocObjects r - mr_FreeObjects r"

definition memRecordIsFresh :: "MemProfileRecord \<Rightarrow> bool" where
  "memRecordIsFresh r \<longleftrightarrow>
     mr_AllocBytes r = 0 \<and> mr_AllocObjects r = 0 \<and> mr_FreeObjects r = 0 \<and> mr_FreeBytes r = 0"

definition memRecordBlockSize :: "MemProfileRecord \<Rightarrow> i64" where
  "memRecordBlockSize r =
     (if 0 < sint (mr_AllocObjects r) then i64_div (mr_AllocBytes r) (mr_AllocObjects r) else 0)"

definition go123_ops :: "MemProfileRecord memRecord_ops" where
  "go123_ops = \<lparr>mo_AllocObjects = mr_AllocObjects, mo_InUseObjects = InUseObjects, mo_Stack = mr_Stack,
     mo_IsFresh = memRecordIsFresh, mo_BlockSize = memRecordBlockSize\<rparr>"

definition InUseObjects127 :: "MemProfileRecord127 \<Rightarrow> i64" where
  "InUseObjects127 r = mr7_AllocObjects r - mr7_FreeObjects r"

definition memRecordIsFresh127 :: "MemProfileRecord127 \<Rightarrow> bool" where
  "memRecordIsFresh127 r \<longleftrightarrow> mr7_AllocObjects r = 0 \<and> mr7_FreeObjects r = 0"

definition memRecordBlockSize127 :: "MemProfileRecord127 \<Rightarrow> i64" where
  "memRecordBlockSize127 r = mr7_ObjectSize r"

definition go127_ops :: "MemProfileRecord127 memRecord_ops" where
  "go127_ops = \<lparr>mo_AllocObjects = mr7_AllocObjects, mo_InUseObjects = InUseObjects127, mo_Stack = mr7_Stack,
     mo_IsFresh = memRecordIsFresh127, mo_BlockSize = memRecordBlockSize127\<rparr>"

section \<open>The profiler\<close>

record heapPrevValue =
  hp_allocObjects :: i64

record heapAccValue =
  ha_allocObjects :: i64
  ha_inuseObjects :: i64

definition heap_zero :: "heapPrevValue \<times> heapAccValue" where
  "heap_zero = (\<lparr>hp_allocObjects = 0\<rparr>, \<lparr>ha_allocObjects = 0, ha_inuseObjects = 0\<rparr>)"

type_synonym DeltaHeapProfiler = "(heapPrevValue, heapAccValue) profMap"

definition ScaleHeapSample :: "'f float64_ops \<Rightarrow> i64 \<Rightarrow> i64 \<Rightarrow> i64 \<Rightarrow> i64 \<times> i64" where
  "ScaleHeapSample fo count sz rate =
     (if count = 0 \<or> sz = 0 then (0, 0)
      else if sint rate \<le> 1 then (count, sz)
      else
        (let avgSize = fo_div fo (fo_of_int64 fo sz) (fo_of_int64 fo count);
             scale = fo_div fo (fo_of_int64 fo 1)
               (fo_sub fo (fo_of_int64 fo 1) (fo_exp fo (fo_div fo (fo_neg fo avgSize) (fo_of_int64 fo rate))))
         in (fo_to_int64 fo (fo_mul fo (fo_of_int64 fo count) scale),
             fo_to_int64 fo (fo_mul fo (fo_of_int64 fo sz) scale))))"

definition heap_key :: "'r memRecord_ops \<Rightarrow> 'r \<Rightarrow> (uintptr list \<times> uintptr) option" where
  "heap_key mo r = (if mo_IsFresh mo r then None else Some (mo_Stack mo r, mo_BlockSize mo r))"

text \<open>The body of the first loop, on the entry's values.\<close>

definition heap_add :: "'r memRecord_ops \<Rightarrow> 'r \<Rightarrow> heapPrevValue \<times> heapAccValue \<Rightarrow> heapPrevValue \<times> heapAccValue" where
  "heap_add mo r v =
     (case v of (prev, acc) \<Rightarrow>
        (prev, acc\<lparr>ha_allocObjects := ha_allocObjects acc + mo_AllocObjects mo r,
                   ha_inuseObjects := ha_inuseObjects acc + mo_InUseObjects mo r\<rparr>))"

text \<open>
  The loop that drops leading runtime frames: \<open>funcForPC\<close> gives the name of
  the function at an address, if there is one; a stack of runtime frames only stays.
\<close>

fun skip_runtime :: "(uintptr \<Rightarrow> string option) \<Rightarrow> uintptr list \<Rightarrow> uintptr list \<Rightarrow> uintptr list" where
  "skip_runtime funcForPC stk [] = stk"
| "skip_runtime funcForPC stk (addr # rest) =
     (case funcForPC addr of
        Some name \<Rightarrow> (if prefix ''runtime.'' name then skip_runtime funcForPC stk rest else addr # rest)
      | None \<Rightarrow> addr # rest)"

text \<open>The loop \<^verbatim>\<open>for range 2\<close>, with the number of rounds left.\<close>

fun heap_locs :: "(uintptr \<Rightarrow> string option) \<Rightarrow> 'b builder_ops \<Rightarrow> uintptr list \<Rightarrow> nat \<Rightarrow> bool \<Rightarrow> u64 list \<Rightarrow> 'b \<Rightarrow>
    (u64 list \<times> 'b) option" where
  "heap_locs funcForPC ops stk0 0 hideRuntime locs b = Some (locs, b)"
| "heap_locs funcForPC ops stk0 (Suc n) hideRuntime locs b =
     (let stk = (if hideRuntime then skip_runtime funcForPC stk0 stk0 else stk0) in
      do {
        (locs, b) \<leftarrow> op_LocsForStack ops stk b;
        if 0 < length locs then Some (locs, b) else heap_locs funcForPC ops stk0 n False locs b
      })"

text \<open>The body of the second loop, on the entry's values and the builder.\<close>

definition heap_delta :: "'f float64_ops \<Rightarrow> 'r memRecord_ops \<Rightarrow> (uintptr \<Rightarrow> string option) \<Rightarrow> 'b builder_ops \<Rightarrow>
    i64 \<Rightarrow> 'r \<Rightarrow> heapPrevValue \<times> heapAccValue \<Rightarrow> 'b \<Rightarrow> ((heapPrevValue \<times> heapAccValue) \<times> 'b) option" where
  "heap_delta fo mo funcForPC ops rate r v b =
     (case v of (prev, acc) \<Rightarrow>
        (let blockSize = mo_BlockSize mo r in
         if acc = \<lparr>ha_allocObjects = 0, ha_inuseObjects = 0\<rparr> then Some ((prev, acc), b)
         else
           (let allocObjects = ha_allocObjects acc - hp_allocObjects prev in
            if sint allocObjects < 0 then Some ((prev, acc), b)
            else
              (let allocBytes = allocObjects * blockSize;
                   prev = \<lparr>hp_allocObjects = ha_allocObjects acc\<rparr>;
                   inuseBytes = ha_inuseObjects acc * blockSize;
                   (v0, v1) = ScaleHeapSample fo allocObjects allocBytes rate;
                   (v2, v3) = ScaleHeapSample fo (ha_inuseObjects acc) inuseBytes rate;
                   acc = \<lparr>ha_allocObjects = 0, ha_inuseObjects = 0\<rparr>
               in if v0 = 0 \<and> v1 = 0 \<and> v2 = 0 \<and> v3 = 0 then Some ((prev, acc), b)
                  else
                    do {
                      (locs, b) \<leftarrow> heap_locs funcForPC ops (mo_Stack mo r) 2 True [] b;
                      b \<leftarrow> op_Sample ops [v0, v1, v2, v3] locs blockSize b;
                      Some ((prev, acc), b)
                    }))))"

definition WriteHeapProto :: "'f float64_ops \<Rightarrow> 'r memRecord_ops \<Rightarrow> (uintptr \<Rightarrow> string option) \<Rightarrow>
    'b builder_ops \<Rightarrow> 'r list \<Rightarrow> i64 \<Rightarrow> DeltaHeapProfiler \<Rightarrow> 'b \<Rightarrow> (DeltaHeapProfiler \<times> 'b) option" where
  "WriteHeapProto fo mo funcForPC ops p rate m b =
     (let lookup = (\<lambda>k. Lookup heap_zero (fst k) (snd k)) in
      do {
        (m, b) \<leftarrow> for_each lookup pm_get pm_put (heap_key mo) (\<lambda>r v b. Some (heap_add mo r v, b)) p m b;
        (m, b) \<leftarrow> for_each lookup pm_get pm_put (heap_key mo) (heap_delta fo mo funcForPC ops rate) p m b;
        b \<leftarrow> op_Build ops b;
        Some (m, b)
      })"

definition HeapProfileConfig :: "i64 \<Rightarrow> ProfileConfig" where
  "HeapProfileConfig rate =
     \<lparr>pc_PeriodType = \<lparr>vt_Typ = ''space'', vt_Unit = ''bytes''\<rparr>, pc_Period = rate,
      pc_SampleType = [\<lparr>vt_Typ = ''alloc_objects'', vt_Unit = ''count''\<rparr>,
                       \<lparr>vt_Typ = ''alloc_space'', vt_Unit = ''bytes''\<rparr>,
                       \<lparr>vt_Typ = ''inuse_objects'', vt_Unit = ''count''\<rparr>,
                       \<lparr>vt_Typ = ''inuse_space'', vt_Unit = ''bytes''\<rparr>],
      pc_DefaultSampleType = []\<rparr>"

section \<open>The specification\<close>

text \<open>
  The state of a key is what the map holds for it.  A profile adds the totals of the
  key's records to the accumulator; if the allocations did not shrink since the last
  profile, the accumulator is turned into a sample and reset.
\<close>

type_synonym heap_key = "uintptr list \<times> uintptr"

definition heap_state :: "DeltaHeapProfiler \<Rightarrow> heap_key \<Rightarrow> heapPrevValue \<times> heapAccValue" where
  "heap_state m k = entry_or heap_zero (pm_abs m) k"

definition heap_records :: "'r memRecord_ops \<Rightarrow> 'r list \<Rightarrow> heap_key \<Rightarrow> 'r list" where
  "heap_records mo p k = filter (\<lambda>r. \<not> mo_IsFresh mo r \<and> (mo_Stack mo r, mo_BlockSize mo r) = k) p"

definition heap_totals :: "'r memRecord_ops \<Rightarrow> 'r list \<Rightarrow> heap_key \<Rightarrow> heapAccValue" where
  "heap_totals mo p k =
     \<lparr>ha_allocObjects = sum_list (map (mo_AllocObjects mo) (heap_records mo p k)),
      ha_inuseObjects = sum_list (map (mo_InUseObjects mo) (heap_records mo p k))\<rparr>"

definition acc_plus :: "heapAccValue \<Rightarrow> heapAccValue \<Rightarrow> heapAccValue" where
  "acc_plus a b = \<lparr>ha_allocObjects = ha_allocObjects a + ha_allocObjects b,
     ha_inuseObjects = ha_inuseObjects a + ha_inuseObjects b\<rparr>"

definition heap_values :: "'f float64_ops \<Rightarrow> i64 \<Rightarrow> heap_key \<Rightarrow> heapPrevValue \<times> heapAccValue \<Rightarrow> i64 list" where
  "heap_values fo rate k v =
     (let d = ha_allocObjects (snd v) - hp_allocObjects (fst v); u = ha_inuseObjects (snd v);
          (v0, v1) = ScaleHeapSample fo d (d * snd k) rate; (v2, v3) = ScaleHeapSample fo u (u * snd k) rate
      in [v0, v1, v2, v3])"

definition heap_step :: "'f float64_ops \<Rightarrow> i64 \<Rightarrow> heap_key \<Rightarrow> heapPrevValue \<times> heapAccValue \<Rightarrow>
    (heapPrevValue \<times> heapAccValue) \<times> sample option" where
  "heap_step fo rate k v =
     (if snd v = snd heap_zero \<or> sint (ha_allocObjects (snd v) - hp_allocObjects (fst v)) < 0 then (v, None)
      else ((\<lparr>hp_allocObjects = ha_allocObjects (snd v)\<rparr>, snd heap_zero),
        if heap_values fo rate k v = [0, 0, 0, 0] then None
        else Some (heap_values fo rate k v, fst k, snd k)))"

definition heap_added :: "'r memRecord_ops \<Rightarrow> 'r list \<Rightarrow> (heap_key \<Rightarrow> heapPrevValue \<times> heapAccValue) \<Rightarrow> heap_key \<Rightarrow>
    heapPrevValue \<times> heapAccValue" where
  "heap_added mo p S k = (fst (S k), acc_plus (snd (S k)) (heap_totals mo p k))"

definition heap_next :: "'f float64_ops \<Rightarrow> 'r memRecord_ops \<Rightarrow> 'r list \<Rightarrow> i64 \<Rightarrow>
    (heap_key \<Rightarrow> heapPrevValue \<times> heapAccValue) \<Rightarrow> heap_key \<Rightarrow> heapPrevValue \<times> heapAccValue" where
  "heap_next fo mo p rate S k =
     (if k \<in> set (keys_of (heap_key mo) p) then fst (heap_step fo rate k (heap_added mo p S k)) else S k)"

text \<open>The stack that is shown: without leading runtime frames, unless that leaves no location.\<close>

definition shown_stack :: "(uintptr \<Rightarrow> string option) \<Rightarrow> (uintptr list \<Rightarrow> bool) \<Rightarrow> uintptr list \<Rightarrow> uintptr list" where
  "shown_stack funcForPC hidden stk =
     (let s = skip_runtime funcForPC stk stk in if hidden s then stk else s)"

definition shown_sample :: "(uintptr \<Rightarrow> string option) \<Rightarrow> (uintptr list \<Rightarrow> bool) \<Rightarrow> sample \<Rightarrow> sample" where
  "shown_sample funcForPC hidden s = (case s of (vs, stk, n) \<Rightarrow> (vs, shown_stack funcForPC hidden stk, n))"

definition heap_samples :: "'f float64_ops \<Rightarrow> 'r memRecord_ops \<Rightarrow> 'r list \<Rightarrow> i64 \<Rightarrow>
    (heap_key \<Rightarrow> heapPrevValue \<times> heapAccValue) \<Rightarrow> sample list" where
  "heap_samples fo mo p rate S =
     List.map_filter (\<lambda>k. snd (heap_step fo rate k (heap_added mo p S k))) (firsts (keys_of (heap_key mo) p))"

section \<open>Correctness\<close>

definition emit_heap :: "(uintptr \<Rightarrow> string option) \<Rightarrow> 'b builder_ops \<Rightarrow> sample \<Rightarrow> 'b \<Rightarrow> 'b option" where
  "emit_heap funcForPC ops s b =
     (case s of (vs, stk, n) \<Rightarrow>
        Option.bind (heap_locs funcForPC ops stk 2 True [] b) (\<lambda>(locs, b). op_Sample ops vs locs n b))"

lemma heap_delta_visit:
  assumes "heap_key mo r = Some k"
  shows "heap_delta fo mo ffp ops rate r v b = visit (heap_step fo rate) (emit_heap ffp ops) k v b"
proof -
  have k: "k = (mo_Stack mo r, mo_BlockSize mo r)"
    using assms by (simp add: heap_key_def split: if_splits)
  show ?thesis
    unfolding k
    by (cases v; cases "heap_locs ffp ops (mo_Stack mo r) 2 True [] b")
      (auto simp: heap_delta_def visit_def heap_step_def heap_values_def Let_def emit_heap_def heap_zero_def
        map_option_case case_prod_beta simp del: heap_locs.simps split: option.split)
qed

lemma settled_heap_step: "settled (heap_step fo rate)"
  by (auto simp: settled_def heap_step_def)

lemma fold_heap_add:
  "fold (heap_add mo) rs v =
     (fst v, acc_plus (snd v) \<lparr>ha_allocObjects = sum_list (map (mo_AllocObjects mo) rs),
                               ha_inuseObjects = sum_list (map (mo_InUseObjects mo) rs)\<rparr>)"
  by (induction rs arbitrary: v) (simp_all add: heap_add_def acc_plus_def add.assoc case_prod_beta prod_eq_iff)

lemma heap_summed:
  "entry_or heap_zero (summed heap_zero (heap_key mo) (heap_add mo) p (pm_abs m)) k = heap_added mo p (heap_state m) k"
proof -
  have "with_key (heap_key mo) k p = heap_records mo p k"
    by (auto simp: with_key_def heap_records_def heap_key_def intro!: filter_cong)
  then show ?thesis
    by (simp add: fold_heap_add heap_added_def heap_totals_def heap_state_def)
qed

lemma WriteHeapProto_two_pass:
  "WriteHeapProto fo mo ffp ops p rate m b =
     two_pass heap_zero ops (heap_key mo) (heap_add mo) (heap_delta fo mo ffp ops rate) p m b"
  by (simp add: WriteHeapProto_def two_pass_def)

lemma heap_samples_of:
  "samples_of heap_zero (heap_step fo rate) (keys_of (heap_key mo) p)
     (summed heap_zero (heap_key mo) (heap_add mo) p (pm_abs m)) = heap_samples fo mo p rate (heap_state m)"
  by (simp only: samples_of_def heap_samples_def heap_summed)

lemma heap_visited:
  assumes "pm_abs m' = visited heap_zero (heap_step fo rate) (keys_of (heap_key mo) p)
      (summed heap_zero (heap_key mo) (heap_add mo) p (pm_abs m))"
  shows "heap_state m' = heap_next fo mo p rate (heap_state m)"
proof
  fix k
  let ?S = "summed heap_zero (heap_key mo) (heap_add mo) p (pm_abs m)"
  show "heap_state m' k = heap_next fo mo p rate (heap_state m) k"
  proof (cases "k \<in> set (keys_of (heap_key mo) p)")
    case True
    then have "pm_abs m' k = Some (fst (heap_step fo rate k (entry_or heap_zero ?S k)))"
      by (simp only: assms visited_def if_True)
    with True show ?thesis
      by (simp add: heap_next_def heap_state_def [of m'] entry_or_def [of _ "pm_abs m'"] heap_summed
          del: entry_or_summed)
  next
    case False
    then have "pm_abs m' k = pm_abs m k"
      by (simp add: assms visited_def summed_def)
    with False show ?thesis
      by (simp add: heap_next_def heap_state_def entry_or_def)
  qed
qed

context profile_builder
begin

lemma heap_locs_ok:
  assumes "rep b ys" and "valid stk" and "valid (skip_runtime ffp stk stk)"
  shows "\<exists>locs b'. heap_locs ffp ops stk 2 True [] b = Some (locs, b') \<and> rep b' ys \<and>
    denotes b' (shown_stack ffp hidden stk) locs"
proof -
  let ?s = "skip_runtime ffp stk stk"
  obtain locs b1 where l1: "op_LocsForStack ops ?s b = Some (locs, b1)" "rep b1 ys" "denotes b1 ?s locs"
    using locs_law [OF assms(1,3)] by blast
  obtain locs2 b2 where l2: "op_LocsForStack ops stk b1 = Some (locs2, b2)" "rep b2 ys" "denotes b2 stk locs2"
    using locs_law [OF l1(2) assms(2)] by blast
  show ?thesis
    using l1 l2 hidden_law [OF l1(3)] by (auto simp: numeral_2_eq_2 shown_stack_def Let_def)
qed

lemma emit_heap_ok:
  assumes "rep b ys" and "valid (fst (snd s))" and "valid (skip_runtime ffp (fst (snd s)) (fst (snd s)))"
  shows "\<exists>b'. emit_heap ffp ops s b = Some b' \<and> rep b' (ys @ [shown_sample ffp hidden s])"
  using heap_locs_ok [OF assms] sample_law
  by (cases s) (fastforce simp: emit_heap_def shown_sample_def simp del: heap_locs.simps)

lemma WriteHeapProto_ok:
  assumes "rep b ys" and ok: "pm_inv heap_zero m"
    and stacks: "\<forall>r \<in> set p. length (mo_Stack mo r) \<le> 1024 \<and> valid (mo_Stack mo r) \<and>
      valid (skip_runtime ffp (mo_Stack mo r) (mo_Stack mo r))"
  shows "\<exists>m' b'. WriteHeapProto fo mo ffp ops p rate m b = Some (m', b') \<and> pm_inv heap_zero m' \<and>
    heap_state m' = heap_next fo mo p rate (heap_state m) \<and>
    final b' (ys @ map (shown_sample ffp hidden) (heap_samples fo mo p rate (heap_state m)))"
proof -
  have keys: "\<forall>x \<in> set p. \<forall>k. heap_key mo x = Some k \<longrightarrow> length (fst k) \<le> 1024"
    using stacks by (auto simp: heap_key_def)
  have body: "\<forall>x \<in> set p. \<forall>k v b. heap_key mo x = Some k \<longrightarrow>
      heap_delta fo mo ffp ops rate x v b = visit (heap_step fo rate) (emit_heap ffp ops) k v b"
    by (simp add: heap_delta_visit)
  have emit: "\<forall>k \<in> set (keys_of (heap_key mo) p). \<forall>v s b ys. snd (heap_step fo rate k v) = Some s \<longrightarrow> rep b ys \<longrightarrow>
      (\<exists>b'. emit_heap ffp ops s b = Some b' \<and> rep b' (ys @ [shown_sample ffp hidden s]))"
    using stacks by (auto simp: mem_keys_of heap_key_def heap_step_def split: if_splits intro!: emit_heap_ok)
  obtain m' b' where "WriteHeapProto fo mo ffp ops p rate m b = Some (m', b')" "pm_inv heap_zero m'"
    and abs: "pm_abs m' = visited heap_zero (heap_step fo rate) (keys_of (heap_key mo) p)
      (summed heap_zero (heap_key mo) (heap_add mo) p (pm_abs m))"
    and "final b' (ys @ map (shown_sample ffp hidden) (heap_samples fo mo p rate (heap_state m)))"
    using two_pass_ok [OF ok keys settled_heap_step assms(1) body emit, of "heap_add mo"]
    unfolding WriteHeapProto_two_pass heap_samples_of by blast
  with heap_visited [OF abs] show ?thesis
    by blast
qed

end

section \<open>Increments\<close>

text \<open>Between two profiles every accumulator is zero, unless a key's allocations shrank.\<close>

definition heap_quiet :: "(heap_key \<Rightarrow> heapPrevValue \<times> heapAccValue) \<Rightarrow> bool" where
  "heap_quiet S \<longleftrightarrow> (\<forall>k. snd (S k) = snd heap_zero)"

definition shrunk :: "'r memRecord_ops \<Rightarrow> 'r list \<Rightarrow> (heap_key \<Rightarrow> heapPrevValue \<times> heapAccValue) \<Rightarrow> heap_key \<Rightarrow> bool" where
  "shrunk mo p S k \<longleftrightarrow> sint (ha_allocObjects (heap_totals mo p k) - hp_allocObjects (fst (S k))) < 0"

lemma acc_plus_zero [simp]: "acc_plus (snd heap_zero) a = a"
  by (simp add: acc_plus_def heap_zero_def)

lemma heap_added_quiet: "heap_quiet S \<Longrightarrow> heap_added mo p S k = (fst (S k), heap_totals mo p k)"
  unfolding heap_quiet_def heap_added_def by (metis acc_plus_zero)

lemma heap_next_quiet:
  assumes "heap_quiet S" and "\<forall>k \<in> set (keys_of (heap_key mo) p). \<not> shrunk mo p S k"
  shows "heap_quiet (heap_next fo mo p rate S)"
  using assms heap_added_quiet [OF assms(1), of mo p]
  by (auto simp: heap_quiet_def heap_next_def heap_step_def shrunk_def)

lemma heap_repeat:
  assumes "heap_quiet S" and ns: "\<forall>k \<in> set (keys_of (heap_key mo) p). \<not> shrunk mo p S k"
    and s: "s \<in> set (heap_samples fo mo p rate (heap_next fo mo p rate S))"
  shows "take 2 (fst s) = [0, 0]"
proof -
  let ?S = "heap_next fo mo p rate S"
  obtain k where k: "k \<in> set (keys_of (heap_key mo) p)" "snd (heap_step fo rate k (heap_added mo p ?S k)) = Some s"
    using s by (auto simp: heap_samples_def List.map_filter_def)
  have added: "heap_added mo p ?S k = (fst (?S k), heap_totals mo p k)"
    by (rule heap_added_quiet) (rule heap_next_quiet [OF assms(1) ns])
  then have "heap_totals mo p k \<noteq> snd heap_zero"
    using k(2) by (auto simp: heap_step_def)
  then have "fst (?S k) = \<lparr>hp_allocObjects = ha_allocObjects (heap_totals mo p k)\<rparr>"
    using k(1) ns by (auto simp: heap_next_def heap_added_quiet [OF assms(1)] heap_step_def shrunk_def)
  with k(2) added show ?thesis
    by (auto simp: heap_step_def heap_values_def ScaleHeapSample_def case_prod_beta Let_def split: if_splits)
qed

lemma heap_shrunk_kept:
  assumes "heap_quiet S" and "shrunk mo p S k"
  shows "heap_added mo p' (heap_next fo mo p rate S) k = (fst (S k), acc_plus (heap_totals mo p k) (heap_totals mo p' k))"
proof (cases "k \<in> set (keys_of (heap_key mo) p)")
  case True
  then show ?thesis
    using assms by (simp add: heap_added_def [of mo p'] heap_next_def heap_added_quiet heap_step_def shrunk_def)
next
  case False
  then have "heap_records mo p k = []"
    by (auto simp: heap_records_def mem_keys_of heap_key_def filter_empty_conv)
  then have "heap_totals mo p k = snd heap_zero"
    by (simp add: heap_totals_def heap_zero_def)
  with False show ?thesis
    using heap_added_quiet [OF assms(1), of mo p' k] by (simp add: heap_next_def heap_added_def)
qed

end
