(* ===== verification/GoDeltaProf.thy ===== *)
theory GoDeltaProf
  imports DeltaMutex DeltaHeap "HOL-Library.Multiset"
begin

text \<open>
  The public profilers of \<^verbatim>\<open>godeltaprof\<close>: \<^verbatim>\<open>heap.go\<close>,
  \<^verbatim>\<open>block.go\<close>, \<^verbatim>\<open>gzip.go\<close>, \<^verbatim>\<open>proto.go\<close>, and the
  loops of \<^verbatim>\<open>runtime_profile_go123.go\<close> that fetch the runtime's records.

  A call of \<^verbatim>\<open>Profile\<close> is a function from the profiler's state and the
  environment of the call (the runtime's symbol tables and records, the clock, the
  process mappings) to the bytes handed to the gzip writer and the new state.  The
  mutex of a profiler makes a call atomic.  The options are passed to the builder by
  reference, so the mappings the builder read and marked stay in the profiler.
\<close>

section \<open>State\<close>

record ProfileOptions =
  po_GenericsFrames :: bool
  po_LazyMappings :: bool

record gz =
  gz_w :: "gzWriter option"

definition gz_get :: "gz \<Rightarrow> gzWriter \<times> gz" where
  "gz_get g =
     (let zw = (case gz_w g of None \<Rightarrow> \<lparr>zw_written = [], zw_closed = False\<rparr> | Some zw \<Rightarrow> zw);
          zw = zw\<lparr>zw_written := [], zw_closed := False\<rparr>
      in (zw, g\<lparr>gz_w := Some zw\<rparr>))"

record HeapProfiler =
  hpr_impl :: DeltaHeapProfiler
  hpr_options :: ProfileBuilderOptions
  hpr_gz :: gz

record BlockProfiler =
  bpr_impl :: DeltaMutexProfiler
  bpr_scaleProfile :: MutexProfileScaler
  bpr_options :: ProfileBuilderOptions
  bpr_gz :: gz

definition NewHeapProfiler :: HeapProfiler where
  "NewHeapProfiler = \<lparr>hpr_impl = pm_empty heap_zero,
     hpr_options = \<lparr>opt_GenericsFrames = True, opt_LazyMapping = True, opt_mem = None\<rparr>,
     hpr_gz = \<lparr>gz_w = None\<rparr>\<rparr>"

definition NewHeapProfilerWithOptions :: "ProfileOptions \<Rightarrow> HeapProfiler" where
  "NewHeapProfilerWithOptions options = \<lparr>hpr_impl = pm_empty heap_zero,
     hpr_options = \<lparr>opt_GenericsFrames = po_GenericsFrames options, opt_LazyMapping = po_LazyMappings options,
       opt_mem = None\<rparr>,
     hpr_gz = \<lparr>gz_w = None\<rparr>\<rparr>"

text \<open>
  The mutex and the block profiler differ only in the runtime function they read, whose
  records are an argument of \<open>BlockProfiler_Profile\<close>, and in the scaler
  value, a struct without fields.
\<close>

definition NewBlockProfilerWithOptions :: "ProfileOptions \<Rightarrow> BlockProfiler" where
  "NewBlockProfilerWithOptions options = \<lparr>bpr_impl = pm_empty mutex_zero, bpr_scaleProfile = (),
     bpr_options = \<lparr>opt_GenericsFrames = po_GenericsFrames options, opt_LazyMapping = po_LazyMappings options,
       opt_mem = None\<rparr>,
     bpr_gz = \<lparr>gz_w = None\<rparr>\<rparr>"

definition NewBlockProfiler :: BlockProfiler where
  "NewBlockProfiler = \<lparr>bpr_impl = pm_empty mutex_zero, bpr_scaleProfile = (),
     bpr_options = \<lparr>opt_GenericsFrames = True, opt_LazyMapping = True, opt_mem = None\<rparr>,
     bpr_gz = \<lparr>gz_w = None\<rparr>\<rparr>"

definition NewMutexProfiler :: BlockProfiler where
  "NewMutexProfiler = \<lparr>bpr_impl = pm_empty mutex_zero, bpr_scaleProfile = (),
     bpr_options = \<lparr>opt_GenericsFrames = True, opt_LazyMapping = True, opt_mem = None\<rparr>,
     bpr_gz = \<lparr>gz_w = None\<rparr>\<rparr>"

definition NewMutexProfilerWithOptions :: "ProfileOptions \<Rightarrow> BlockProfiler" where
  "NewMutexProfilerWithOptions options = \<lparr>bpr_impl = pm_empty mutex_zero, bpr_scaleProfile = (),
     bpr_options = \<lparr>opt_GenericsFrames = po_GenericsFrames options, opt_LazyMapping = po_LazyMappings options,
       opt_mem = None\<rparr>,
     bpr_gz = \<lparr>gz_w = None\<rparr>\<rparr>"

section \<open>Profiles\<close>

text \<open>The environment of one call.\<close>

record prof_env =
  en_rt :: runtime_env
  en_funcForPC :: "uintptr \<Rightarrow> string option"
  en_start :: i64
  en_end :: i64
  en_readMapping :: "memMap list"

definition HeapProfiler_Profile :: "'f float64_ops \<Rightarrow> 'r memRecord_ops \<Rightarrow> prof_env \<Rightarrow> 'r list \<Rightarrow> i64 \<Rightarrow>
    HeapProfiler \<Rightarrow> (u8 list \<times> HeapProfiler) option" where
  "HeapProfiler_Profile fo mo env p rate d =
     (let (zw, g) = gz_get (hpr_gz d) in
      do {
        b \<leftarrow> NewProfileBuilder (en_start env) (en_readMapping env) zw (hpr_options d) (HeapProfileConfig rate);
        (m, b) \<leftarrow> WriteHeapProto fo mo (en_funcForPC env) (proto_ops (en_rt env) (en_end env)) p rate (hpr_impl d) b;
        Some (zw_written (bd_zw b),
          d\<lparr>hpr_impl := m, hpr_options := bd_opt b, hpr_gz := g\<lparr>gz_w := Some (bd_zw b)\<rparr>\<rparr>)
      })"

text \<open>
  \<^verbatim>\<open>sort.Slice\<close> is not stable: \<open>q\<close> is the order it chose
  for the records \<open>p\<close>.
\<close>

definition sorted_by_cycles :: "BlockProfileRecord list \<Rightarrow> BlockProfileRecord list \<Rightarrow> bool" where
  "sorted_by_cycles p q \<longleftrightarrow>
     mset q = mset p \<and> sorted_wrt (\<lambda>r s. sint (br_Cycles s) \<le> sint (br_Cycles r)) q"

definition BlockProfiler_Profile :: "'f float64_ops \<Rightarrow> i64 \<Rightarrow> prof_env \<Rightarrow> BlockProfileRecord list \<Rightarrow>
    BlockProfiler \<Rightarrow> (u8 list \<times> BlockProfiler) option" where
  "BlockProfiler_Profile fo cyclesPerSecond env q d =
     (let (zw, g) = gz_get (bpr_gz d) in
      do {
        b \<leftarrow> NewProfileBuilder (en_start env) (en_readMapping env) zw (bpr_options d) MutexProfileConfig;
        (m, b) \<leftarrow> PrintCountCycleProfile fo cyclesPerSecond (proto_ops (en_rt env) (en_end env))
          (bpr_scaleProfile d) q (bpr_impl d) b;
        Some (zw_written (bd_zw b),
          d\<lparr>bpr_impl := m, bpr_options := bd_opt b, bpr_gz := g\<lparr>gz_w := Some (bd_zw b)\<rparr>\<rparr>)
      })"

section \<open>End to end\<close>

definition heap_shown :: "prof_env \<Rightarrow> sample list \<Rightarrow> sample list" where
  "heap_shown env = map (shown_sample (en_funcForPC env) (\<lambda>stk. stack_groups (en_rt env) stk = []))"

lemma gz_get_fresh: "gz_get g = (zw, g') \<Longrightarrow> zw_written zw = [] \<and> \<not> zw_closed zw"
  by (auto simp: gz_get_def Let_def)

text \<open>
  The stacks a profiler can be given: at most 1024 program counters, and consistent with
  the runtime's inline groups, also without their leading runtime frames.
\<close>

definition stack_fine :: "prof_env \<Rightarrow> (uintptr \<Rightarrow> uintptr list) \<Rightarrow> uintptr list \<Rightarrow> bool" where
  "stack_fine env inl stk \<longleftrightarrow> length stk \<le> 1024 \<and> stack_valid (en_rt env) inl stk \<and>
     stack_valid (en_rt env) inl (skip_runtime (en_funcForPC env) stk stk)"

lemma HeapProfiler_Profile_ok:
  assumes "pm_inv heap_zero (hpr_impl d)" and "\<forall>r \<in> set p. stack_fine env inl (mo_Stack mo r)"
  shows "\<exists>out d'. HeapProfiler_Profile fo mo env p rate d = Some (out, d') \<and>
    pm_inv heap_zero (hpr_impl d') \<and>
    heap_state (hpr_impl d') = heap_next fo mo p rate (heap_state (hpr_impl d)) \<and>
    opt_GenericsFrames (hpr_options d') = opt_GenericsFrames (hpr_options d) \<and>
    (opt_GenericsFrames (hpr_options d) \<and> length out < 2 ^ 64 \<longrightarrow>
     profile_of (en_rt env) out (heap_shown env (heap_samples fo mo p rate (heap_state (hpr_impl d)))))"
proof -
  obtain zw g where gz: "gz_get (hpr_gz d) = (zw, g)"
    by fastforce
  let ?G = "opt_GenericsFrames (hpr_options d)"
  obtain b where b: "NewProfileBuilder (en_start env) (en_readMapping env) zw (hpr_options d) (HeapProfileConfig rate) = Some b"
    "pb_rep (en_rt env) inl (HeapProfileConfig rate) ?G b []"
    using NewProfileBuilder_rep [of zw] gz_get_fresh [OF gz] by blast
  obtain m' b' where w: "WriteHeapProto fo mo (en_funcForPC env) (proto_ops (en_rt env) (en_end env)) p rate (hpr_impl d) b = Some (m', b')"
    "pm_inv heap_zero m'" "heap_state m' = heap_next fo mo p rate (heap_state (hpr_impl d))"
    "pb_final (en_rt env) ?G b' (heap_shown env (heap_samples fo mo p rate (heap_state (hpr_impl d))))"
    using pbi.WriteHeapProto_ok [OF b(2) assms(1), of p mo "en_funcForPC env"] assms(2)
    by (fastforce simp: stack_fine_def heap_shown_def)
  then show ?thesis
    using b(1) by (simp add: HeapProfiler_Profile_def gz pb_final_def)
qed

lemma BlockProfiler_Profile_ok:
  assumes "mutex_ok (bpr_impl d)"
    and "\<forall>r \<in> set rs. length (br_Stack r) \<le> 1024 \<and> stack_valid (en_rt env) inl (br_Stack r)"
  shows "\<exists>out d'. BlockProfiler_Profile fo cps env rs d = Some (out, d') \<and> mutex_ok (bpr_impl d') \<and>
    mutex_prevs (bpr_impl d') = mutex_next fo cps rs (mutex_prevs (bpr_impl d)) \<and>
    opt_GenericsFrames (bpr_options d') = opt_GenericsFrames (bpr_options d) \<and>
    (opt_GenericsFrames (bpr_options d) \<and> length out < 2 ^ 64 \<longrightarrow>
     profile_of (en_rt env) out (mutex_samples fo cps rs (mutex_prevs (bpr_impl d))))"
proof -
  obtain zw g where gz: "gz_get (bpr_gz d) = (zw, g)"
    by fastforce
  let ?G = "opt_GenericsFrames (bpr_options d)"
  obtain b where b: "NewProfileBuilder (en_start env) (en_readMapping env) zw (bpr_options d) MutexProfileConfig = Some b"
    "pb_rep (en_rt env) inl MutexProfileConfig ?G b []"
    using NewProfileBuilder_rep [of zw] gz_get_fresh [OF gz] by blast
  obtain m' b' where "PrintCountCycleProfile fo cps (proto_ops (en_rt env) (en_end env)) (bpr_scaleProfile d) rs (bpr_impl d) b = Some (m', b')"
    "mutex_ok m'" "mutex_prevs m' = mutex_next fo cps rs (mutex_prevs (bpr_impl d))"
    "pb_final (en_rt env) ?G b' (mutex_samples fo cps rs (mutex_prevs (bpr_impl d)))"
    using pbi.PrintCountCycleProfile_ok [OF b(2) assms] by fastforce
  then show ?thesis
    using b(1) by (simp add: BlockProfiler_Profile_def gz pb_final_def)
qed

section \<open>Sequences of profiles\<close>





definition block_stacks_ok :: "(uintptr \<Rightarrow> uintptr list) \<Rightarrow> prof_env \<Rightarrow> BlockProfileRecord list \<Rightarrow> bool" where
  "block_stacks_ok inl env q \<longleftrightarrow>
     (\<forall>r \<in> set q. length (br_Stack r) \<le> 1024 \<and> stack_valid (en_rt env) inl (br_Stack r))"

definition outputs_ok :: "prof_env list \<Rightarrow> sample list list \<Rightarrow> u8 list list \<Rightarrow> bool" where
  "outputs_ok envs xss outs \<longleftrightarrow>
     list_all2 (\<lambda>(env, xs) out. length out < 2 ^ 64 \<longrightarrow> profile_of (en_rt env) out xs) (zip envs xss) outs"

lemma outputs_ok_simps [simp]:
  "outputs_ok [] [] []"
  "outputs_ok (env # envs) (xs # xss) (out # outs) \<longleftrightarrow>
     (length out < 2 ^ 64 \<longrightarrow> profile_of (en_rt env) out xs) \<and> outputs_ok envs xss outs"
  by (simp_all add: outputs_ok_def)



section \<open>Examples\<close>

definition example_env :: prof_env where
  "example_env = \<lparr>en_rt = example_rt, en_funcForPC = (\<lambda>a. None), en_start = 10, en_end = 20, en_readMapping = []\<rparr>"

text \<open>Floating point by integers, with truncating division.\<close>

definition example_fo :: "i64 float64_ops" where
  "example_fo = \<lparr>fo_of_int64 = (\<lambda>x. x), fo_to_int64 = (\<lambda>x. x), fo_div = i64_div, fo_mul = (\<lambda>x y. x * y),
     fo_sub = (\<lambda>x y. x - y), fo_neg = (\<lambda>x. - x), fo_exp = (\<lambda>x. x)\<rparr>"

definition example_record :: "i64 \<Rightarrow> i64 \<Rightarrow> BlockProfileRecord" where
  "example_record c y = \<lparr>br_Count = c, br_Cycles = y, br_Stack = [7, 9]\<rparr>"

lemma mutex_ok_empty [simp]: "mutex_ok (pm_empty mutex_zero)"
  by (simp add: mutex_ok_def pm_empty_ok pm_abs_empty)

lemma mutex_prevs_empty [simp]:
  "mutex_prevs (pm_empty mutex_zero) stk = \<lparr>mp_count = 0, mp_inanosec = 0\<rparr>"
  by (simp add: mutex_prevs_def entry_or_def pm_abs_empty) (simp add: mutex_zero_def)

lemma heap_zero_sel:
  "fst heap_zero = \<lparr>hp_allocObjects = 0\<rparr>" "snd heap_zero = \<lparr>ha_allocObjects = 0, ha_inuseObjects = 0\<rparr>"
  by (simp_all add: heap_zero_def)

lemma heap_state_empty [simp]: "heap_state (pm_empty heap_zero) k = heap_zero"
  by (simp add: heap_state_def entry_or_def pm_abs_empty)

section \<open>Properties\<close>



text \<open>
  C1. One call of \<^verbatim>\<open>HeapProfiler.Profile\<close>
  never panics and its output decodes to the specified profile: one sample per pair of
  stack and block size, in the order of first occurrence, with the scaled increment of
  the allocations and the scaled in-use figures, showing the stack without its leading
  runtime frames unless nothing else is left.  The new state of every key is the
  specified one.
\<close>

theorem HeapProfiler_Profile_correct:
  assumes "pm_inv heap_zero (hpr_impl d)" and "\<forall>r \<in> set p. stack_fine env inl (mo_Stack mo r)"
    and "opt_GenericsFrames (hpr_options d)"
  shows "\<exists>out d'. HeapProfiler_Profile fo mo env p rate d = Some (out, d') \<and>
    pm_inv heap_zero (hpr_impl d') \<and> opt_GenericsFrames (hpr_options d') \<and>
    heap_state (hpr_impl d') = heap_next fo mo p rate (heap_state (hpr_impl d)) \<and>
    (length out < 2 ^ 64 \<longrightarrow>
     profile_of (en_rt env) out (heap_shown env (heap_samples fo mo p rate (heap_state (hpr_impl d)))))"
  using HeapProfiler_Profile_ok [OF assms(1,2), of fo rate] assms(3) by auto

definition example_mem :: "i64 \<Rightarrow> i64 \<Rightarrow> MemProfileRecord127" where
  "example_mem a f = \<lparr>mr7_ObjectSize = 16, mr7_AllocObjects = a, mr7_FreeObjects = f, mr7_Stack = [7, 9]\<rparr>"

lemma stack_fine_example: "length stk \<le> 1024 \<Longrightarrow> stack_fine example_env example_inl stk"
  by (simp add: stack_fine_def example_env_def)

lemma example_fine: "\<forall>r \<in> set [example_mem a f]. stack_fine example_env example_inl (mo_Stack go127_ops r)"
  by (simp add: stack_fine_example go127_ops_def example_mem_def)

theorem HeapProfiler_Profile_correct_witness:
  "\<exists>out d'. HeapProfiler_Profile example_fo go127_ops example_env [example_mem 5 2] 1 NewHeapProfiler = Some (out, d') \<and>
     (length out < 2 ^ 64 \<longrightarrow> profile_of example_rt out [([5, 80, 3, 48], [7, 9], 16)])"
proof -
  have "heap_samples example_fo go127_ops [example_mem 5 2] 1 (heap_state (pm_empty heap_zero)) =
      [([5, 80, 3, 48], [7, 9], 16)]"
    by (simp add: heap_samples_def go127_ops_def example_mem_def heap_key_def memRecordIsFresh127_def
        memRecordBlockSize127_def InUseObjects127_def heap_step_def heap_added_def heap_totals_def heap_records_def
        acc_plus_def heap_values_def ScaleHeapSample_def heap_zero_sel List.map_filter_simps)
  moreover have "heap_shown example_env [([5, 80, 3, 48], [7, 9], 16)] = [([5, 80, 3, 48], [7, 9], 16)]"
    by (simp add: heap_shown_def shown_sample_def shown_stack_def example_env_def)
  ultimately show ?thesis
    using HeapProfiler_Profile_correct [OF _ example_fine [of 5 2], of NewHeapProfiler example_fo 1]
    by (auto simp: NewHeapProfiler_def pm_empty_ok example_env_def)
qed

text \<open>
  A second heap profile of the same records reports no
  allocations: if the accumulators are clear and no key's allocations shrank, every
  sample of the second profile has zero allocated objects and bytes (only in-use figures
  can remain).
\<close>

theorem heap_second_profile_empty:
  assumes "pm_inv heap_zero (hpr_impl d)" and "opt_GenericsFrames (hpr_options d)"
    and fine: "\<forall>r \<in> set p. stack_fine env inl (mo_Stack mo r)"
    and "heap_quiet (heap_state (hpr_impl d))"
    and "\<forall>k \<in> set (keys_of (heap_key mo) p). \<not> shrunk mo p (heap_state (hpr_impl d)) k"
  shows "\<exists>out1 d1 out2 d2 xs. HeapProfiler_Profile fo mo env p rate d = Some (out1, d1) \<and>
    HeapProfiler_Profile fo mo env p rate d1 = Some (out2, d2) \<and> heap_quiet (heap_state (hpr_impl d1)) \<and>
    (length out2 < 2 ^ 64 \<longrightarrow> profile_of (en_rt env) out2 xs) \<and> (\<forall>x \<in> set xs. take 2 (fst x) = [0, 0])"
proof -
  let ?S = "heap_next fo mo p rate (heap_state (hpr_impl d))"
  let ?xs = "heap_shown env (heap_samples fo mo p rate ?S)"
  obtain out1 d1 where d1: "HeapProfiler_Profile fo mo env p rate d = Some (out1, d1)" "pm_inv heap_zero (hpr_impl d1)"
    "heap_state (hpr_impl d1) = ?S" "opt_GenericsFrames (hpr_options d1)"
    using HeapProfiler_Profile_ok [OF assms(1) fine, of fo rate] assms(2) by blast
  obtain out2 d2 where d2: "HeapProfiler_Profile fo mo env p rate d1 = Some (out2, d2)"
    "length out2 < 2 ^ 64 \<longrightarrow> profile_of (en_rt env) out2 ?xs"
    using HeapProfiler_Profile_ok [OF d1(2) fine, of fo rate] d1(3,4) by auto
  have "\<forall>x \<in> set ?xs. take 2 (fst x) = [0, 0]"
    using heap_repeat [OF assms(4,5), of _ fo rate] by (fastforce simp: heap_shown_def shown_sample_def)
  then show ?thesis
    using d1 d2 heap_next_quiet [OF assms(4,5), of fo rate]
    by (intro exI [of _ out1] exI [of _ d1] exI [of _ out2] exI [of _ d2] exI [of _ ?xs]) simp
qed

theorem heap_second_profile_empty_witness:
  "\<exists>out1 d1 out2 d2 xs.
     HeapProfiler_Profile example_fo go127_ops example_env [example_mem 5 2] 1 NewHeapProfiler = Some (out1, d1) \<and>
     HeapProfiler_Profile example_fo go127_ops example_env [example_mem 5 2] 1 d1 = Some (out2, d2) \<and>
     (length out2 < 2 ^ 64 \<longrightarrow> profile_of example_rt out2 xs) \<and> (\<forall>x \<in> set xs. take 2 (fst x) = [0, 0])"
proof -
  have "heap_quiet (heap_state (pm_empty heap_zero))"
    by (simp add: heap_quiet_def)
  moreover have "\<forall>k \<in> set (keys_of (heap_key go127_ops) [example_mem 5 2]).
      \<not> shrunk go127_ops [example_mem 5 2] (heap_state (pm_empty heap_zero)) k"
    by (simp add: shrunk_def go127_ops_def example_mem_def heap_key_def memRecordIsFresh127_def
        memRecordBlockSize127_def heap_totals_def heap_records_def heap_zero_sel)
  ultimately show ?thesis
    using heap_second_profile_empty [OF _ _ example_fine [of 5 2], of NewHeapProfiler example_fo 1]
    by (auto simp: NewHeapProfiler_def pm_empty_ok example_env_def)
qed



lemma mset_filter_sum:
  "mset q = mset q' \<Longrightarrow> sum_list (map f (filter P q)) = sum_list (map f (filter P q') :: i64 list)"
  by (metis mset_filter mset_map sum_mset_sum_list)

lemma mutex_next_mset: "mset q = mset q' \<Longrightarrow> mutex_next fo cps q P = mutex_next fo cps q' P"
  using mset_filter_sum [of q q'] by (simp add: fun_eq_iff mutex_next_def mutex_totals_def Let_def)

lemma mutex_samples_mset:
  assumes "mset q = mset q'"
  shows "mset (mutex_samples fo cps q P) = mset (mutex_samples fo cps q' P)"
proof -
  have "mset (firsts (map br_Stack q)) = mset (firsts (map br_Stack q'))"
    using mset_eq_setD [OF assms] by (subst set_eq_iff_mset_eq_distinct [symmetric]) simp_all
  moreover have "mutex_sample fo cps q P = mutex_sample fo cps q' P"
    using mutex_next_mset [OF assms, of fo cps P] by (simp add: fun_eq_iff mutex_sample_def)
  ultimately show ?thesis
    by (simp add: mutex_samples_def List.map_filter_def)
qed

text \<open>
  C33. \<^verbatim>\<open>sort.Slice\<close> may return equal elements in
  any order; whichever order it picks, the block profiler ends with the same totals, and
  the profiles it writes have the same samples up to their order.
\<close>

theorem block_order_irrelevant:
  assumes "mutex_ok (bpr_impl d)" and "opt_GenericsFrames (bpr_options d)"
    and stacks: "block_stacks_ok inl env p"
    and sorted: "sorted_by_cycles p q" "sorted_by_cycles p q'"
  shows "\<exists>out d1 out' d1' xs xs'. BlockProfiler_Profile fo cps env q d = Some (out, d1) \<and>
    BlockProfiler_Profile fo cps env q' d = Some (out', d1') \<and>
    mutex_prevs (bpr_impl d1) = mutex_prevs (bpr_impl d1') \<and> mset xs = mset xs' \<and>
    (length out < 2 ^ 64 \<longrightarrow> profile_of (en_rt env) out xs) \<and>
    (length out' < 2 ^ 64 \<longrightarrow> profile_of (en_rt env) out' xs')"
proof -
  have same: "mset q = mset q'"
    using sorted by (simp add: sorted_by_cycles_def)
  have "set q = set p" "set q' = set p"
    using sorted by (metis mset_eq_setD sorted_by_cycles_def)+
  with stacks have ok: "\<forall>r \<in> set q. length (br_Stack r) \<le> 1024 \<and> stack_valid (en_rt env) inl (br_Stack r)"
      "\<forall>r \<in> set q'. length (br_Stack r) \<le> 1024 \<and> stack_valid (en_rt env) inl (br_Stack r)"
    by (simp_all add: block_stacks_ok_def)
  let ?P = "mutex_prevs (bpr_impl d)"
  obtain out d1 where r1: "BlockProfiler_Profile fo cps env q d = Some (out, d1)"
    "mutex_prevs (bpr_impl d1) = mutex_next fo cps q ?P"
    "length out < 2 ^ 64 \<longrightarrow> profile_of (en_rt env) out (mutex_samples fo cps q ?P)"
    using BlockProfiler_Profile_ok [OF assms(1) ok(1), of fo cps] assms(2) by blast
  obtain out' d1' where r2: "BlockProfiler_Profile fo cps env q' d = Some (out', d1')"
    "mutex_prevs (bpr_impl d1') = mutex_next fo cps q' ?P"
    "length out' < 2 ^ 64 \<longrightarrow> profile_of (en_rt env) out' (mutex_samples fo cps q' ?P)"
    using BlockProfiler_Profile_ok [OF assms(1) ok(2), of fo cps] assms(2) by blast
  show ?thesis
    using r1 r2 mutex_next_mset [OF same, of fo cps ?P] mutex_samples_mset [OF same, of fo cps ?P]
    by (intro exI [of _ out] exI [of _ d1] exI [of _ out'] exI [of _ d1']
        exI [of _ "mutex_samples fo cps q ?P"] exI [of _ "mutex_samples fo cps q' ?P"]) simp
qed

theorem block_order_irrelevant_witness:
  "\<exists>out d1 out' d1' xs xs'.
     BlockProfiler_Profile example_fo 1000000000 example_env [example_record 2 30, example_record 1 30] NewBlockProfiler = Some (out, d1) \<and>
     BlockProfiler_Profile example_fo 1000000000 example_env [example_record 1 30, example_record 2 30] NewBlockProfiler = Some (out', d1') \<and>
     mutex_prevs (bpr_impl d1) = mutex_prevs (bpr_impl d1') \<and> mset xs = mset xs' \<and>
     (length out < 2 ^ 64 \<longrightarrow> profile_of example_rt out xs)"
proof -
  have ok: "mutex_ok (bpr_impl NewBlockProfiler)" "opt_GenericsFrames (bpr_options NewBlockProfiler)"
    by (simp_all add: NewBlockProfiler_def)
  have stacks: "block_stacks_ok example_inl example_env [example_record 2 30, example_record 1 30]"
    by (simp add: block_stacks_ok_def example_env_def example_record_def)
  have sorted: "sorted_by_cycles [example_record 2 30, example_record 1 30] [example_record 2 30, example_record 1 30]"
    "sorted_by_cycles [example_record 2 30, example_record 1 30] [example_record 1 30, example_record 2 30]"
    by (simp_all add: sorted_by_cycles_def example_record_def)
  have "en_rt example_env = example_rt"
    by (simp add: example_env_def)
  with block_order_irrelevant [OF ok stacks sorted, of example_fo 1000000000] show ?thesis
    by metis
qed

section \<open>Fetching the records\<close>

text \<open>
  \<^verbatim>\<open>MemProfile\<close> and \<^verbatim>\<open>fetchBlockLike\<close> ask the runtime for the number
  of records, allocate 50 more, and try again while they do not fit.  The runtime's
  function \<open>f\<close> is given the slice's length and the state \<open>s\<close> of the
  runtime, and returns the number of records, whether they were copied, the slice and the
  new state.
\<close>

partial_function (option) fetch_loop :: "(nat \<Rightarrow> 's \<Rightarrow> (nat \<times> bool \<times> 'r list) \<times> 's) \<Rightarrow> nat \<Rightarrow> 's \<Rightarrow>
    ('r list \<times> 's) option" where
  "fetch_loop f n s =
     (let ((n', ok, p), s') = f (n + 50) s
      in if ok then Some (take n' p, s') else fetch_loop f n' s')"

definition fetchBlockLike :: "(nat \<Rightarrow> 's \<Rightarrow> (nat \<times> bool \<times> 'r list) \<times> 's) \<Rightarrow> 's \<Rightarrow> ('r list \<times> 's) option" where
  "fetchBlockLike f s = (let ((n, _), s') = f 0 s in fetch_loop f n s')"

text \<open>\<^verbatim>\<open>MemProfile\<close> has the same loop around the runtime's memory records.\<close>

definition MemProfile :: "(bool \<Rightarrow> nat \<Rightarrow> 's \<Rightarrow> (nat \<times> bool \<times> 'r list) \<times> 's) \<Rightarrow> bool \<Rightarrow> 's \<Rightarrow>
    ('r list \<times> 's) option" where
  "MemProfile f inuseZero s = (let ((n, _), s') = f inuseZero 0 s in fetch_loop (f inuseZero) n s')"

text \<open>
  The documented behaviour: at time \<open>t\<close> the runtime has the records
  \<open>recs t\<close>; they are copied if they fit, and the slice is left alone otherwise.
\<close>

definition runtime_records :: "(nat \<Rightarrow> 'r list) \<Rightarrow> 'r \<Rightarrow> nat \<Rightarrow> nat \<Rightarrow> (nat \<times> bool \<times> 'r list) \<times> nat" where
  "runtime_records recs z len t =
     ((length (recs t), length (recs t) \<le> len,
       if length (recs t) \<le> len then recs t @ replicate (len - length (recs t)) z else replicate len z),
      Suc t)"

definition settles :: "(nat \<Rightarrow> 'r list) \<Rightarrow> nat \<Rightarrow> bool" where
  "settles recs t \<longleftrightarrow> length (recs (Suc t)) \<le> length (recs t) + 50"

lemma fetch_loop_settles:
  assumes "settles recs (t + j)" and "\<forall>i < j. \<not> settles recs (t + i)"
  shows "fetch_loop (runtime_records recs z) (length (recs t)) (Suc t) = Some (recs (Suc (t + j)), Suc (Suc (t + j)))"
  using assms
proof (induction j arbitrary: t)
  case 0
  then show ?case
    by (subst fetch_loop.simps) (simp add: runtime_records_def settles_def)
next
  case (Suc j)
  have ns: "\<not> settles recs t"
    using Suc.prems(2) by force
  have "fetch_loop (runtime_records recs z) (length (recs (Suc t))) (Suc (Suc t)) =
      Some (recs (Suc (Suc t + j)), Suc (Suc (Suc t + j)))"
  proof (rule Suc.IH)
    show "\<forall>i < j. \<not> settles recs (Suc t + i)"
      using Suc.prems(2) by (auto dest: spec [of _ "Suc _"])
  qed (use Suc.prems in simp)
  with ns show ?case
    by (subst fetch_loop.simps) (simp add: runtime_records_def settles_def)
qed

text \<open>
  C34. If at some moment the number of records has grown by at most 50
  since the previous call, the fetch returns, and it returns exactly the records the
  runtime had at the first such moment.
\<close>

theorem fetch_terminates:
  assumes "\<exists>t. settles recs t"
  shows "\<exists>t. settles recs t \<and> (\<forall>i < t. \<not> settles recs i) \<and>
    fetchBlockLike (runtime_records recs z) 0 = Some (recs (Suc t), Suc (Suc t)) \<and>
    MemProfile (\<lambda>inuseZero. runtime_records recs z) True 0 = Some (recs (Suc t), Suc (Suc t))"
proof -
  define t where "t = (LEAST t. settles recs t)"
  have "settles recs t"
    using assms unfolding t_def by (rule LeastI_ex)
  moreover have "\<forall>i < t. \<not> settles recs i"
    unfolding t_def by (auto dest: not_less_Least)
  moreover have "fetchBlockLike (runtime_records recs z) 0 =
      fetch_loop (runtime_records recs z) (length (recs 0)) (Suc 0)"
    "MemProfile (\<lambda>inuseZero. runtime_records recs z) True 0 =
      fetch_loop (runtime_records recs z) (length (recs 0)) (Suc 0)"
    by (simp_all add: fetchBlockLike_def MemProfile_def runtime_records_def)
  ultimately show ?thesis
    using fetch_loop_settles [of recs 0 t z] by auto
qed

theorem fetch_terminates_witness:
  "fetchBlockLike (runtime_records (\<lambda>t. replicate (3 + t) (example_record 1 1)) (example_record 0 0)) 0 =
     Some (replicate 4 (example_record 1 1), 2)"
proof -
  have "\<forall>t. settles (\<lambda>t. replicate (3 + t) (example_record 1 1)) t"
    by (simp add: settles_def)
  with fetch_terminates [of "\<lambda>t. replicate (3 + t) (example_record 1 1)" "example_record 0 0"] obtain t
    where "\<forall>i < t. False" "fetchBlockLike (runtime_records (\<lambda>t. replicate (3 + t) (example_record 1 1)) (example_record 0 0)) 0 =
      Some (replicate (3 + Suc t) (example_record 1 1), Suc (Suc t))"
    by auto
  then show ?thesis
    by (cases t) (auto simp: numeral_2_eq_2)
qed

end
