(* ===== verification/GoStrings.thy ===== *)
theory GoStrings
  imports Prelude "HOL-Library.Sublist"
begin

text \<open>
  The parts of Go's string library that the label code uses.

  A Go string is a sequence of bytes.  Ranging over a string decodes UTF-8: a byte that
  does not begin a well-formed sequence is the rune U+FFFD and one byte wide.  Runes are
  natural numbers.  \<open>chunks\<close> splits a string into its runes with the bytes
  they came from, \<open>enc_rune\<close> is \<^verbatim>\<open>WriteRune\<close>, and
  \<open>TrimSpace\<close> removes the chunks at both ends whose rune is white space.
\<close>

section \<open>Runes\<close>

definition byte :: "char \<Rightarrow> nat" where
  "byte c = of_char c"

definition bad_rune :: "nat \<times> nat" where
  "bad_rune = (0xFFFD, 1)"

definition is_cont :: "nat \<Rightarrow> bool" where
  "is_cont b \<longleftrightarrow> 0x80 \<le> b \<and> b \<le> 0xBF"

text \<open>The range of the second byte of a three-byte and of a four-byte sequence.\<close>

definition second3 :: "nat \<Rightarrow> nat \<Rightarrow> bool" where
  "second3 b0 b1 \<longleftrightarrow> is_cont b1 \<and> (b0 = 0xE0 \<longrightarrow> 0xA0 \<le> b1) \<and> (b0 = 0xED \<longrightarrow> b1 \<le> 0x9F)"

definition second4 :: "nat \<Rightarrow> nat \<Rightarrow> bool" where
  "second4 b0 b1 \<longleftrightarrow> is_cont b1 \<and> (b0 = 0xF0 \<longrightarrow> 0x90 \<le> b1) \<and> (b0 = 0xF4 \<longrightarrow> b1 \<le> 0x8F)"

text \<open>\<^verbatim>\<open>utf8.DecodeRune\<close> of a non-empty sequence of bytes: the rune and its width.\<close>

definition decode_rune :: "nat list \<Rightarrow> nat \<times> nat" where
  "decode_rune bs =
     (case bs of
        [] \<Rightarrow> bad_rune
      | b0 # r \<Rightarrow>
          if b0 < 0x80 then (b0, 1)
          else if 0xC2 \<le> b0 \<and> b0 \<le> 0xDF then
            (case r of
               b1 # _ \<Rightarrow> if is_cont b1 then ((b0 - 0xC0) * 64 + (b1 - 0x80), 2) else bad_rune
             | [] \<Rightarrow> bad_rune)
          else if 0xE0 \<le> b0 \<and> b0 \<le> 0xEF then
            (case r of
               b1 # b2 # _ \<Rightarrow>
                 if second3 b0 b1 \<and> is_cont b2
                 then ((b0 - 0xE0) * 4096 + (b1 - 0x80) * 64 + (b2 - 0x80), 3) else bad_rune
             | _ \<Rightarrow> bad_rune)
          else if 0xF0 \<le> b0 \<and> b0 \<le> 0xF4 then
            (case r of
               b1 # b2 # b3 # _ \<Rightarrow>
                 if second4 b0 b1 \<and> is_cont b2 \<and> is_cont b3
                 then ((b0 - 0xF0) * 262144 + (b1 - 0x80) * 4096 + (b2 - 0x80) * 64 + (b3 - 0x80), 4)
                 else bad_rune
             | _ \<Rightarrow> bad_rune)
          else bad_rune)"

lemma decode_width: "0 < snd (decode_rune bs)"
  by (auto simp: decode_rune_def bad_rune_def split: list.splits)

function chunks :: "string \<Rightarrow> (nat \<times> string) list" where
  "chunks s =
     (if s = [] then []
      else (let (r, w) = decode_rune (map byte s) in (r, take w s) # chunks (drop w s)))"
  by pat_completeness auto
termination
proof (relation "measure length", simp)
  fix s :: string and x r w
  assume "s \<noteq> []" and "x = decode_rune (map byte s)" and "(r, w) = x"
  then have "0 < w"
    using decode_width [of "map byte s"] by (metis snd_conv)
  with \<open>s \<noteq> []\<close> show "(drop w s, s) \<in> measure length"
    by simp
qed

declare chunks.simps [simp del]

definition runes :: "string \<Rightarrow> nat list" where
  "runes s = map fst (chunks s)"

definition valid_rune :: "nat \<Rightarrow> bool" where
  "valid_rune r \<longleftrightarrow> r < 0xD800 \<or> (0xE000 \<le> r \<and> r < 0x110000)"

text \<open>\<^verbatim>\<open>WriteRune\<close>: a rune that is not valid is written as U+FFFD.\<close>

definition enc_rune :: "nat \<Rightarrow> string" where
  "enc_rune r0 =
     (let r = (if valid_rune r0 then r0 else 0xFFFD) in
      map char_of
        (if r < 0x80 then [r]
         else if r < 0x800 then [0xC0 + r div 64, 0x80 + r mod 64]
         else if r < 0x10000 then [0xE0 + r div 4096, 0x80 + r div 64 mod 64, 0x80 + r mod 64]
         else [0xF0 + r div 262144, 0x80 + r div 4096 mod 64, 0x80 + r div 64 mod 64, 0x80 + r mod 64]))"

definition enc_runes :: "nat list \<Rightarrow> string" where
  "enc_runes rs = concat (map enc_rune rs)"

text \<open>\<^verbatim>\<open>unicode.IsSpace\<close>\<close>

definition is_space :: "nat \<Rightarrow> bool" where
  "is_space r \<longleftrightarrow> (9 \<le> r \<and> r \<le> 13) \<or> r \<in> {0x20, 0x85, 0xA0, 0x1680, 0x2028, 0x2029, 0x202F, 0x205F, 0x3000} \<or>
     (0x2000 \<le> r \<and> r \<le> 0x200A)"

definition trim_ends :: "('a \<Rightarrow> bool) \<Rightarrow> 'a list \<Rightarrow> 'a list" where
  "trim_ends P xs = rev (dropWhile P (rev (dropWhile P xs)))"

definition TrimSpace :: "string \<Rightarrow> string" where
  "TrimSpace s = concat (map snd (trim_ends (\<lambda>c. is_space (fst c)) (chunks s)))"

section \<open>Decoding what was encoded\<close>

lemma byte_char_of [simp]: "n < 256 \<Longrightarrow> byte (char_of n) = n"
  by (simp add: byte_def)

lemma length_enc_rune: "0 < length (enc_rune r)"
  by (simp add: enc_rune_def Let_def)

lemma decode_enc:
  assumes "valid_rune r"
  shows "decode_rune (map byte (enc_rune r) @ bs) = (r, length (enc_rune r))"
proof -
  consider "r < 0x80" | "0x80 \<le> r" "r < 0x800" | "0x800 \<le> r" "r < 0x10000" | "0x10000 \<le> r" "r < 0x110000"
    using assms unfolding valid_rune_def by linarith
  then show ?thesis
  proof cases
    case 1
    with assms show ?thesis
      by (simp add: enc_rune_def decode_rune_def)
  next
    case 2
    define a b where "a = r div 64" and "b = r mod 64"
    with 2 have r: "r = a * 64 + b" "2 \<le> a" "a < 32" "b < 64"
      by simp_all
    have "enc_rune r = map char_of [192 + a, 128 + b]"
      using 2 assms by (simp add: enc_rune_def a_def b_def)
    moreover have "decode_rune ((192 + a) # (128 + b) # bs) = (a * 64 + b, 2)"
      using r(2-4) by (simp add: decode_rune_def is_cont_def)
    ultimately show ?thesis
      using r by simp
  next
    case 3
    have q: "r div 64 = 64 * (r div 4096) + r div 64 mod 64"
      using mult_div_mod_eq [of 64 "r div 64"] by (simp add: div_mult2_eq [symmetric])
    have rng: "r div 64 mod 64 < 64" "32 \<le> r div 64" "r div 64 < 1024" "r < 0xD800 \<Longrightarrow> r div 64 < 864"
        "0xE000 \<le> r \<Longrightarrow> 896 \<le> r div 64"
      using 3 by simp_all
    have "second3 (224 + r div 4096) (128 + r div 64 mod 64)"
      using q rng assms unfolding second3_def is_cont_def valid_rune_def by linarith
    moreover have "r div 4096 < 16" "r mod 64 \<le> 63" "(r div 4096) * 4096 + (r div 64 mod 64) * 64 + r mod 64 = r"
      using q rng mult_div_mod_eq [of 64 r] less_Suc_eq_le by (linarith, simp, linarith)
    ultimately show ?thesis
      using 3 assms by (simp add: enc_rune_def decode_rune_def is_cont_def)
  next
    case 4
    have q: "r div 64 = 64 * (r div 4096) + r div 64 mod 64" "r div 4096 = 64 * (r div 262144) + r div 4096 mod 64"
      using mult_div_mod_eq [of 64 "r div 64"] mult_div_mod_eq [of 64 "r div 4096"]
      by (simp_all add: div_mult2_eq [symmetric])
    have rng: "r div 4096 mod 64 < 64" "16 \<le> r div 4096" "r div 4096 < 272" "r mod 64 < 64" "r div 64 mod 64 < 64"
      using 4 by simp_all
    have "second4 (240 + r div 262144) (128 + r div 4096 mod 64)"
      using q rng unfolding second4_def is_cont_def by linarith
    moreover have "r div 262144 \<le> 4" "r mod 64 \<le> 63" "r div 64 mod 64 \<le> 63"
        "(r div 262144) * 262144 + (r div 4096 mod 64) * 4096 + (r div 64 mod 64) * 64 + r mod 64 = r"
      using q rng mult_div_mod_eq [of 64 r] by linarith+
    moreover have "byte (char_of (128 + r div 4096 mod 64)) = 128 + r div 4096 mod 64"
      using rng(1) by (intro byte_char_of) linarith
    ultimately show ?thesis
      using 4 assms by (simp add: enc_rune_def decode_rune_def is_cont_def)
  qed
qed

lemma chunks_Nil [simp]: "chunks [] = []"
  by (simp add: chunks.simps)

lemma chunks_enc_rune:
  assumes "valid_rune r"
  shows "chunks (enc_rune r @ s) = (r, enc_rune r) # chunks s"
  using decode_enc [OF assms, of "map byte s"] length_enc_rune [of r]
  by (subst chunks.simps) simp

lemma chunks_enc_runes:
  "\<forall>r \<in> set rs. valid_rune r \<Longrightarrow> chunks (enc_runes rs @ s) = map (\<lambda>r. (r, enc_rune r)) rs @ chunks s"
  by (induction rs) (simp_all add: enc_runes_def chunks_enc_rune)

lemma enc_runes_simps [simp]:
  "enc_runes [] = []" "enc_runes (r # rs) = enc_rune r @ enc_runes rs"
  "enc_runes (rs @ qs) = enc_runes rs @ enc_runes qs"
  by (simp_all add: enc_runes_def)

lemma runes_enc_runes:
  "\<forall>r \<in> set rs. valid_rune r \<Longrightarrow> runes (enc_runes rs @ s) = rs @ runes s"
  by (simp add: runes_def chunks_enc_runes comp_def)

text \<open>A string whose bytes are all below 128 is its own list of runes.\<close>

definition ascii :: "string \<Rightarrow> bool" where
  "ascii s \<longleftrightarrow> (\<forall>c \<in> set s. byte c < 0x80)"

lemma enc_rune_ascii: "byte c < 0x80 \<Longrightarrow> enc_rune (byte c) = [c]"
  by (simp add: enc_rune_def valid_rune_def byte_def)

lemma enc_runes_ascii: "ascii s \<Longrightarrow> enc_runes (map byte s) = s"
  by (induction s) (simp_all add: ascii_def enc_rune_ascii)

lemma ascii_valid: "ascii s \<Longrightarrow> \<forall>r \<in> set (map byte s). valid_rune r"
  by (auto simp: ascii_def valid_rune_def)

lemma runes_ascii: "ascii s \<Longrightarrow> runes (s @ t) = map byte s @ runes t"
  using runes_enc_runes [OF ascii_valid, of s t] by (simp add: enc_runes_ascii)

lemma trim_ends_id:
  assumes "xs = [] \<or> (\<not> P (hd xs) \<and> \<not> P (last xs))"
  shows "trim_ends P xs = xs"
proof (cases "xs = []")
  case False
  with assms have "dropWhile P xs = xs" "dropWhile P (rev xs) = rev xs"
    by (simp_all add: dropWhile_eq_self_iff hd_rev)
  then show ?thesis
    by (simp add: trim_ends_def)
qed (simp add: trim_ends_def)

lemma trim_ends_map: "trim_ends P (map f xs) = map f (trim_ends (P \<circ> f) xs)"
  by (simp add: trim_ends_def dropWhile_map rev_map comp_def)

lemma TrimSpace_enc_runes:
  assumes "\<forall>r \<in> set rs. valid_rune r"
  shows "TrimSpace (enc_runes rs) = enc_runes (trim_ends is_space rs)"
  using chunks_enc_runes [OF assms, of "[]"]
  by (simp add: TrimSpace_def trim_ends_map comp_def enc_runes_def)

section \<open>Strings whose runes are all ASCII, and valid UTF-8\<close>

lemma decode_rune_ascii:
  "fst (decode_rune (b # bs)) < 0x80 \<Longrightarrow> decode_rune (b # bs) = (b, 1) \<and> b < 0x80"
  by (auto simp: decode_rune_def bad_rune_def second3_def second4_def split: if_splits list.splits)

lemma ascii_iff_runes: "ascii s \<longleftrightarrow> (\<forall>r \<in> set (runes s). r < 0x80)"
proof
  show "ascii s \<Longrightarrow> \<forall>r \<in> set (runes s). r < 0x80"
    using runes_ascii [of s "[]"] by (auto simp: ascii_def runes_def)
next
  show "\<forall>r \<in> set (runes s). r < 0x80 \<Longrightarrow> ascii s"
  proof (induction s)
    case (Cons c s)
    obtain r w where d: "decode_rune (map byte (c # s)) = (r, w)"
      by force
    have u: "runes (c # s) = r # map fst (chunks (drop w (c # s)))"
      by (simp add: runes_def chunks.simps [of "c # s"] d [simplified])
    with Cons.prems d have "w = 1" "byte c < 0x80"
      using decode_rune_ascii [of "byte c" "map byte s"] by auto
    with u Cons show ?case
      by (simp add: runes_def ascii_def)
  qed (simp add: ascii_def)
qed

lemma runes_Nil [simp]: "runes [] = []"
  by (simp add: runes_def)

lemma runes_of_ascii: "ascii s \<Longrightarrow> runes s = map byte s"
  using runes_ascii [of s "[]"] by simp

definition utf8 :: "string \<Rightarrow> bool" where
  "utf8 s \<longleftrightarrow> (\<forall>r \<in> set (runes s). valid_rune r) \<and> enc_runes (runes s) = s"

lemma utf8_iff: "utf8 s \<longleftrightarrow> (\<exists>rs. (\<forall>r \<in> set rs. valid_rune r) \<and> s = enc_runes rs)"
  using runes_enc_runes [of _ "[]"] by (auto simp: utf8_def intro: exI [of _ "runes s"])

lemma utf8_enc_runes: "\<forall>r \<in> set rs. valid_rune r \<Longrightarrow> utf8 (enc_runes rs)"
  unfolding utf8_iff by blast

lemma runes_append: "utf8 s \<Longrightarrow> runes (s @ t) = runes s @ runes t"
  using runes_enc_runes [of "runes s" t] by (simp add: utf8_def)

lemma utf8_append: "utf8 s \<Longrightarrow> utf8 t \<Longrightarrow> utf8 (s @ t)"
  by (auto simp: utf8_def runes_append)

lemma utf8_Nil [simp]: "utf8 []"
  by (simp add: utf8_def)

lemma ascii_utf8: "ascii s \<Longrightarrow> utf8 s"
  using ascii_valid [of s] by (simp add: utf8_def runes_of_ascii enc_runes_ascii)

definition write_rune :: "nat \<Rightarrow> nat" where
  "write_rune r = (if valid_rune r then r else 0xFFFD)"

lemma valid_write_rune [simp]: "valid_rune (write_rune r)"
  by (simp add: write_rune_def valid_rune_def)

lemma enc_write_rune: "enc_rune (write_rune r) = enc_rune r"
  by (simp add: enc_rune_def write_rune_def valid_rune_def)

lemma utf8_enc_rune [simp]: "utf8 (enc_rune r)" "runes (enc_rune r) = [write_rune r]"
  using runes_enc_runes [of "[write_rune r]" "[]"] utf8_enc_runes [of "[write_rune r]"]
  by (simp_all add: enc_write_rune)

lemma set_trim_ends: "set (trim_ends P xs) \<subseteq> set xs"
  using set_dropWhileD [of _ P "rev (dropWhile P xs)"] set_dropWhileD [of _ P xs]
  by (auto simp: trim_ends_def)

lemma trim_ends_ends: "trim_ends P xs = [] \<or> \<not> P (hd (trim_ends P xs)) \<and> \<not> P (last (trim_ends P xs))"
proof -
  define ys where "ys = dropWhile P xs"
  define zs where "zs = dropWhile P (rev ys)"
  have "zs \<noteq> [] \<Longrightarrow> \<not> P (hd zs)"
    unfolding zs_def by (rule hd_dropWhile)
  moreover have "last zs = hd ys" if "zs \<noteq> []"
  proof -
    have "rev ys = takeWhile P (rev ys) @ zs"
      by (simp add: zs_def)
    with that have "last (rev ys) = last zs"
      by (metis last_append)
    then show ?thesis
      using that by (cases ys) (simp_all add: zs_def)
  qed
  moreover have "ys \<noteq> [] \<Longrightarrow> \<not> P (hd ys)"
    unfolding ys_def by (rule hd_dropWhile)
  moreover have "zs \<noteq> [] \<Longrightarrow> ys \<noteq> []"
    by (auto simp: zs_def)
  moreover have "trim_ends P xs = rev zs"
    by (simp add: trim_ends_def zs_def ys_def)
  ultimately show ?thesis
    by (cases "zs = []") (simp_all add: hd_rev last_rev)
qed

lemma TrimSpace_utf8:
  assumes "utf8 s"
  shows "utf8 (TrimSpace s)" "runes (TrimSpace s) = trim_ends is_space (runes s)"
    "TrimSpace (TrimSpace s) = TrimSpace s"
proof -
  have v: "\<forall>r \<in> set (runes s). valid_rune r" and s: "s = enc_runes (runes s)"
    using assms by (simp_all add: utf8_def)
  have w: "\<forall>r \<in> set (trim_ends is_space (runes s)). valid_rune r"
    using v set_trim_ends [of is_space "runes s"] by blast
  have t: "TrimSpace s = enc_runes (trim_ends is_space (runes s))"
    using TrimSpace_enc_runes [OF v] s by simp
  show "utf8 (TrimSpace s)" "runes (TrimSpace s) = trim_ends is_space (runes s)"
    using w runes_enc_runes [OF w, of "[]"] by (simp_all add: t utf8_enc_runes)
  show "TrimSpace (TrimSpace s) = TrimSpace s"
    using TrimSpace_enc_runes [OF w] trim_ends_id [OF trim_ends_ends [of is_space "runes s"]] by (simp add: t)
qed

lemma TrimSpace_id: "utf8 s \<Longrightarrow> \<forall>r \<in> set (runes s). \<not> is_space r \<Longrightarrow> TrimSpace s = s"
  using TrimSpace_enc_runes [of "runes s"] trim_ends_id [of "runes s" is_space] hd_in_set last_in_set
  unfolding utf8_def by metis

text \<open>An ASCII byte is never part of a longer sequence, so it is a rune of its own also after bad input.\<close>

lemma decode_rune_snoc: "bs \<noteq> [] \<Longrightarrow> c < 0x80 \<Longrightarrow> decode_rune (bs @ [c]) = decode_rune bs"
  by (auto simp: decode_rune_def is_cont_def second3_def second4_def neq_Nil_conv Cons_eq_append_conv split: list.splits)

lemma decode_rune_width: "bs \<noteq> [] \<Longrightarrow> snd (decode_rune bs) \<le> length bs"
  by (auto simp: decode_rune_def bad_rune_def neq_Nil_conv split: list.splits)

lemma runes_snoc:
  assumes "byte c < 0x80"
  shows "runes (s @ [c]) = runes s @ [byte c]"
proof (induction s rule: chunks.induct)
  case (1 s)
  show ?case
  proof (cases "s = []")
    case True
    then show ?thesis
      using runes_of_ascii [of "[c]"] assms by (simp add: ascii_def)
  next
    case False
    obtain r w where d: "decode_rune (map byte s) = (r, w)"
      by force
    have w: "w \<le> length s"
      using decode_rune_width [of "map byte s"] d False by simp
    have "chunks (s @ [c]) = (r, take w s) # chunks (drop w s @ [c])"
      using False d w decode_rune_snoc [of "map byte s" "byte c"] assms by (subst chunks.simps) simp
    moreover have "chunks s = (r, take w s) # chunks (drop w s)"
      using False d by (subst chunks.simps) simp
    ultimately show ?thesis
      using "1.IH" [OF False d [symmetric] refl] by (simp add: runes_def)
  qed
qed

section \<open>Numbers and separators\<close>

text \<open>\<^verbatim>\<open>strconv.Itoa\<close>\<close>

definition digit :: "nat \<Rightarrow> char" where
  "digit d = char_of (48 + d)"

fun digits :: "nat \<Rightarrow> string" where
  "digits n = (if n < 10 then [digit n] else digits (n div 10) @ [digit (n mod 10)])"

declare digits.simps [simp del]

definition Itoa :: "int \<Rightarrow> string" where
  "Itoa i = (if i < 0 then CHR ''-'' # digits (nat (- i)) else digits (nat i))"

text \<open>
  \<^verbatim>\<open>strconv.Atoi\<close> on a machine with 64-bit integers: the digits are read into an unsigned 64-bit
  number, an overflow is found at the digit where it happens, then the sign decides the range.
\<close>

datatype num_error = ErrSyntax | ErrRange

fun ParseUint_loop :: "nat \<Rightarrow> string \<Rightarrow> num_error + nat" where
  "ParseUint_loop n [] = Inr n"
| "ParseUint_loop n (c # cs) =
     (if \<not> (48 \<le> byte c \<and> byte c \<le> 57) then Inl ErrSyntax
      else let n1 = n * 10 + (byte c - 48) in
           if 2 ^ 64 \<le> n1 then Inl ErrRange else ParseUint_loop n1 cs)"

definition Atoi :: "string \<Rightarrow> num_error + int" where
  "Atoi s =
     (let neg = (s \<noteq> [] \<and> hd s = CHR ''-'');
          ds = (if s \<noteq> [] \<and> (hd s = CHR ''-'' \<or> hd s = CHR ''+'') then tl s else s) in
      if ds = [] then Inl ErrSyntax
      else case ParseUint_loop 0 ds of
             Inl e \<Rightarrow> Inl e
           | Inr n \<Rightarrow> if \<not> neg \<and> 2 ^ 63 \<le> n then Inl ErrRange
                      else if neg \<and> 2 ^ 63 < n then Inl ErrRange
                      else Inr (if neg then - int n else int n))"

text \<open>\<^verbatim>\<open>strings.Split\<close> with a separator of one byte\<close>

fun Split :: "char \<Rightarrow> string \<Rightarrow> string list" where
  "Split c [] = [[]]"
| "Split c (x # xs) =
     (if x = c then [] # Split c xs
      else (case Split c xs of [] \<Rightarrow> [[x]] | w # ws \<Rightarrow> (x # w) # ws))"

lemma Split_nonempty: "Split c s \<noteq> []"
  by (induction s) (simp_all split: list.split)

lemma Split_none: "c \<notin> set s \<Longrightarrow> Split c s = [s]"
  by (induction s) auto

lemma Split_append: "c \<notin> set s \<Longrightarrow> Split c (s @ c # t) = s # Split c t"
  by (induction s) auto

lemma byte_digit: "d < 10 \<Longrightarrow> byte (digit d) = 48 + d"
  by (simp add: digit_def)

lemma digits_char: "c \<in> set (digits n) \<Longrightarrow> 48 \<le> byte c \<and> byte c \<le> 57"
proof (induction n rule: digits.induct)
  case (1 n)
  have "byte (digit (n mod 10)) = 48 + n mod 10" "n mod 10 < 10"
    by (simp_all add: byte_digit)
  with 1 show ?case
    by (subst (asm) digits.simps) (auto split: if_splits)
qed

lemma digits_nonempty: "digits n \<noteq> []"
  by (subst digits.simps) simp

lemma ParseUint_loop_append:
  "ParseUint_loop n (xs @ ys) = (case ParseUint_loop n xs of Inl e \<Rightarrow> Inl e | Inr m \<Rightarrow> ParseUint_loop m ys)"
  by (induction n xs rule: ParseUint_loop.induct) (simp_all add: Let_def)

lemma ParseUint_digits: "n < 2 ^ 64 \<Longrightarrow> ParseUint_loop 0 (digits n) = Inr n"
proof (induction n rule: digits.induct)
  case (1 n)
  have d: "byte (digit (n mod 10)) = 48 + n mod 10"
    by (simp add: byte_digit)
  show ?case
  proof (cases "n < 10")
    case True
    then show ?thesis
      by (subst digits.simps) (simp add: byte_digit)
  next
    case False
    then have "ParseUint_loop 0 (digits (n div 10)) = Inr (n div 10)"
      using 1 by simp
    moreover have "n mod 10 < 10"
      by simp
    ultimately show ?thesis
      using False 1(2) by (subst digits.simps) (simp add: ParseUint_loop_append d)
  qed
qed

lemma Atoi_Itoa:
  assumes "- (2 ^ 63) \<le> i" "i < 2 ^ 63"
  shows "Atoi (Itoa i) = Inr i"
proof (cases "i < 0")
  case True
  have "ParseUint_loop 0 (digits (nat (- i))) = Inr (nat (- i))"
    using assms True by (intro ParseUint_digits) simp
  then show ?thesis
    using True assms by (simp add: Atoi_def Itoa_def digits_nonempty)
next
  case False
  have p: "ParseUint_loop 0 (digits (nat i)) = Inr (nat i)"
    using assms False by (intro ParseUint_digits) simp
  have "hd (digits (nat i)) \<noteq> CHR ''-''" "hd (digits (nat i)) \<noteq> CHR ''+''"
    using digits_char [OF hd_in_set [OF digits_nonempty], of "nat i"] by (auto simp: byte_def)
  with p show ?thesis
    using False assms by (simp add: Atoi_def Itoa_def digits_nonempty)
qed

lemma Itoa_no_colon: "CHR '':'' \<notin> set (Itoa i)"
  using digits_char [of "CHR '':''"] by (auto simp: Itoa_def byte_def)

section \<open>Hexadecimal\<close>

text \<open>\<^verbatim>\<open>hex.EncodeToString\<close>, which \<^verbatim>\<open>%x\<close> of a byte slice also is\<close>

definition hex_digit :: "nat \<Rightarrow> char" where
  "hex_digit n = (if n < 10 then char_of (48 + n) else char_of (87 + n))"

definition hex_encode :: "u8 list \<Rightarrow> string" where
  "hex_encode bs = concat (map (\<lambda>b. [hex_digit (unat b div 16), hex_digit (unat b mod 16)]) bs)"

definition hex_value :: "char \<Rightarrow> nat" where
  "hex_value c = (if byte c < 58 then byte c - 48 else byte c - 87)"

lemma hex_value_digit: "n < 16 \<Longrightarrow> hex_value (hex_digit n) = n"
  by (simp add: hex_value_def hex_digit_def)

lemma hex_encode_simps: "hex_encode [] = []"
    "hex_encode (b # bs) = hex_digit (unat b div 16) # hex_digit (unat b mod 16) # hex_encode bs"
  by (simp_all add: hex_encode_def)

lemma nibbles: "unat (b :: u8) div 16 < 16"
  using unsigned_less [of b, where ?'a = nat] by simp

lemma length_hex_encode: "length (hex_encode bs) = 2 * length bs"
  by (induction bs) (simp_all add: hex_encode_simps)

lemma hex_encode_inj: "hex_encode a = hex_encode b \<Longrightarrow> a = b"
proof (induction a arbitrary: b)
  case Nil
  then show ?case
    by (cases b) (simp_all add: hex_encode_simps)
next
  case (Cons x a)
  then obtain y b' where b: "b = y # b'"
    by (cases b) (simp_all add: hex_encode_simps)
  with Cons.prems have h: "hex_digit (unat x div 16) = hex_digit (unat y div 16)"
      "hex_digit (unat x mod 16) = hex_digit (unat y mod 16)" "hex_encode a = hex_encode b'"
    by (simp_all add: hex_encode_simps)
  have "unat x div 16 = unat y div 16"
    using arg_cong [OF h(1), of hex_value] by (simp only: hex_value_digit nibbles)
  moreover have "unat x mod 16 = unat y mod 16"
    using arg_cong [OF h(2), of hex_value] by (simp add: hex_value_digit)
  ultimately have "unat x = unat y"
    by (metis div_mult_mod_eq)
  moreover have "a = b'"
    by (rule Cons.IH [OF h(3)])
  ultimately show ?case
    by (simp add: b word_unat_eq_iff)
qed

end
