(* ===== verification/LabelSets.thy ===== *)
theory LabelSets
  imports GoStrings "HOL-Library.AList" "HOL-Library.Multiset" "HOL-Library.Char_ord" "HOL-Library.List_Lexorder"
begin

text \<open>
  The label sets of application names: \<^verbatim>\<open>internal/labelset\<close>.

  A Go map is an association list with distinct keys.  The position of an entry is its
  place in one iteration of the map; \<open>Normalized_order_irrelevant\<close> shows that
  the canonical name does not depend on it.  The parser runs over the runes of its input,
  one transition per rune, as the code does; a call receives a parser from a pool, which
  is an argument of \<open>Parse\<close> and may hold anything a previous call left in it.
  An error is a value of \<open>go_error\<close>.  The text of a wrapped error is kept as the
  arguments of the format call that builds it.
\<close>

section \<open>Validation (validate.go)\<close>

datatype label_error =
  ErrInvalidServiceName
| ErrInvalidLabelSet
| ErrInvalidLabelName
| ErrServiceNameIsRequired
| ErrLabelNameIsRequired
| ErrLabelNameReserved
| errLabelSetInvalid
| errParserPoolFailure

datatype expr = Expr string | NotAllowed string nat

datatype go_error =
  Sentinel label_error
| Error (Inner: label_error) (ErrExpr: expr)
| NumError string num_error

definition ReservedLabelNameName :: string where
  "ReservedLabelNameName = ''__name__''"

definition reservedLabelNames :: "string list" where
  "reservedLabelNames = [ReservedLabelNameName]"

definition newErr :: "label_error \<Rightarrow> expr \<Rightarrow> go_error" where
  "newErr e x = Error e x"

fun Unwrap :: "go_error \<Rightarrow> label_error option" where
  "Unwrap (Error e x) = Some e"
| "Unwrap _ = None"

definition newInvalidRuneError :: "label_error \<Rightarrow> string \<Rightarrow> nat \<Rightarrow> go_error" where
  "newInvalidRuneError e k r = newErr e (NotAllowed k r)"

definition newInvalidLabelNameRuneError :: "string \<Rightarrow> nat \<Rightarrow> go_error" where
  "newInvalidLabelNameRuneError k r = newInvalidRuneError ErrInvalidLabelName k r"

definition NewInvalidServiceNameRuneError :: "string \<Rightarrow> nat \<Rightarrow> go_error" where
  "NewInvalidServiceNameRuneError k r = newInvalidRuneError ErrInvalidServiceName k r"

definition IsLabelNameRuneAllowed :: "nat \<Rightarrow> bool" where
  "IsLabelNameRuneAllowed r \<longleftrightarrow>
     (byte (CHR ''a'') \<le> r \<and> r \<le> byte (CHR ''z'')) \<or> (byte (CHR ''A'') \<le> r \<and> r \<le> byte (CHR ''Z'')) \<or>
     (byte (CHR ''0'') \<le> r \<and> r \<le> byte (CHR ''9'')) \<or> r = byte (CHR ''_'') \<or> r = byte (CHR ''.'')"

definition IsServiceNameRuneAllowed :: "nat \<Rightarrow> bool" where
  "IsServiceNameRuneAllowed r \<longleftrightarrow>
     r = byte (CHR ''-'') \<or> r = byte (CHR ''.'') \<or> r = byte (CHR ''/'') \<or> IsLabelNameRuneAllowed r"

fun IsLabelNameReserved_loop :: "string list \<Rightarrow> string \<Rightarrow> bool" where
  "IsLabelNameReserved_loop [] k = False"
| "IsLabelNameReserved_loop (s # ss) k = (if s = k then True else IsLabelNameReserved_loop ss k)"

definition IsLabelNameReserved :: "string \<Rightarrow> bool" where
  "IsLabelNameReserved k = IsLabelNameReserved_loop reservedLabelNames k"

fun ValidateLabelName_loop :: "nat list \<Rightarrow> string \<Rightarrow> go_error option" where
  "ValidateLabelName_loop [] k =
     (if IsLabelNameReserved k then Some (newErr ErrLabelNameReserved (Expr k)) else None)"
| "ValidateLabelName_loop (r # rs) k =
     (if \<not> IsLabelNameRuneAllowed r then Some (newInvalidLabelNameRuneError k r)
      else ValidateLabelName_loop rs k)"

definition ValidateLabelName :: "string \<Rightarrow> go_error option" where
  "ValidateLabelName k =
     (if length k = 0 then Some (Sentinel ErrLabelNameIsRequired) else ValidateLabelName_loop (runes k) k)"

fun ValidateServiceName_loop :: "nat list \<Rightarrow> string \<Rightarrow> go_error option" where
  "ValidateServiceName_loop [] n = None"
| "ValidateServiceName_loop (r # rs) n =
     (if \<not> IsServiceNameRuneAllowed r then Some (NewInvalidServiceNameRuneError n r)
      else ValidateServiceName_loop rs n)"

definition ValidateServiceName :: "string \<Rightarrow> go_error option" where
  "ValidateServiceName n =
     (if length n = 0 then Some (Sentinel ErrServiceNameIsRequired) else ValidateServiceName_loop (runes n) n)"

section \<open>Label sets (labelset.go)\<close>

type_synonym go_map = "(string \<times> string) list"

text \<open>\<^verbatim>\<open>m[k]\<close> of a missing key is the empty string.\<close>

definition map_get :: "go_map \<Rightarrow> string \<Rightarrow> string" where
  "map_get m k = (case map_of m k of Some v \<Rightarrow> v | None \<Rightarrow> [])"

record LabelSet =
  labels :: go_map

definition New :: "go_map \<Rightarrow> LabelSet" where
  "New ls = \<lparr>labels = ls\<rparr>"

datatype ParserState = nameParserState | tagLabelSetParserState | tagValueParserState | doneParserState

record parser =
  parserState :: ParserState
  p_key :: string
  p_value :: string

definition parserPool_New :: parser where
  "parserPool_New = \<lparr>parserState = nameParserState, p_key = [], p_value = []\<rparr>"

definition reset :: "parser \<Rightarrow> parser" where
  "reset p = p\<lparr>parserState := nameParserState, p_key := [], p_value := []\<rparr>"

definition WriteRune :: "string \<Rightarrow> nat \<Rightarrow> string" where
  "WriteRune b r = b @ enc_rune r"

text \<open>A transition of the parser: an error, or the parser and the label set afterwards.\<close>

definition nameParserCase :: "nat \<Rightarrow> parser \<Rightarrow> LabelSet \<Rightarrow> go_error + parser \<times> LabelSet" where
  "nameParserCase r p k =
     (if r = byte (CHR ''{'') then
        (let p1 = p\<lparr>parserState := tagLabelSetParserState\<rparr>;
             serviceName = TrimSpace (p_value p1) in
         case ValidateServiceName serviceName of
           Some e \<Rightarrow> Inl e
         | None \<Rightarrow> Inr (p1, k\<lparr>labels := AList.update ''__name__'' serviceName (labels k)\<rparr>))
      else Inr (p\<lparr>p_value := WriteRune (p_value p) r\<rparr>, k))"

definition tagLabelSetParserCase :: "nat \<Rightarrow> parser \<Rightarrow> parser" where
  "tagLabelSetParserCase r p =
     (if r = byte (CHR ''}'') then p\<lparr>parserState := doneParserState\<rparr>
      else if r = byte (CHR ''='') then p\<lparr>parserState := tagValueParserState, p_value := []\<rparr>
      else p\<lparr>p_key := WriteRune (p_key p) r\<rparr>)"

definition tagValueParserCase :: "nat \<Rightarrow> parser \<Rightarrow> LabelSet \<Rightarrow> go_error + parser \<times> LabelSet" where
  "tagValueParserCase r p k =
     (if r = byte (CHR '','') \<or> r = byte (CHR ''}'') then
        (let p1 = p\<lparr>parserState := tagLabelSetParserState\<rparr>;
             key = TrimSpace (p_key p1);
             err = (if \<not> IsLabelNameReserved key then ValidateLabelName key else None) in
         case err of
           Some e \<Rightarrow> Inl e
         | None \<Rightarrow>
             Inr (p1\<lparr>p_key := []\<rparr>, k\<lparr>labels := AList.update key (TrimSpace (p_value p1)) (labels k)\<rparr>))
      else Inr (p\<lparr>p_value := WriteRune (p_value p) r\<rparr>, k))"

text \<open>The body of the loop of \<^verbatim>\<open>Parse\<close> and the loop.\<close>

definition Parse_step :: "nat \<Rightarrow> parser \<times> LabelSet \<Rightarrow> go_error + parser \<times> LabelSet" where
  "Parse_step r = (\<lambda>(p, k).
     case parserState p of
       nameParserState \<Rightarrow> nameParserCase r p k
     | tagLabelSetParserState \<Rightarrow> Inr (tagLabelSetParserCase r p, k)
     | tagValueParserState \<Rightarrow> tagValueParserCase r p k
     | doneParserState \<Rightarrow> Inr (p, k))"

fun Parse_loop :: "nat list \<Rightarrow> parser \<times> LabelSet \<Rightarrow> go_error + parser \<times> LabelSet" where
  "Parse_loop [] s = Inr s"
| "Parse_loop (r # rs) s = (case Parse_step r s of Inl e \<Rightarrow> Inl e | Inr s1 \<Rightarrow> Parse_loop rs s1)"

text \<open>The first argument is what the pool returned: no parser when the type assertion fails.\<close>

definition Parse :: "parser option \<Rightarrow> string \<Rightarrow> go_error + LabelSet" where
  "Parse pool s =
     (case pool of
        None \<Rightarrow> Inl (Sentinel errParserPoolFailure)
      | Some p \<Rightarrow> map_sum id snd (Parse_loop (runes (s @ ''{'')) (reset p, New [])))"

text \<open>\<^verbatim>\<open>ValidateLabelSet\<close> returns the error of the first label, in the order of the iteration.\<close>

fun ValidateLabelSet_loop :: "go_map \<Rightarrow> go_error option" where
  "ValidateLabelSet_loop [] = None"
| "ValidateLabelSet_loop ((key, v) # ls) =
     (case (if key = ReservedLabelNameName then ValidateServiceName v else ValidateLabelName key) of
        Some e \<Rightarrow> Some e
      | None \<Rightarrow> ValidateLabelSet_loop ls)"

definition ValidateLabelSet :: "LabelSet option \<Rightarrow> go_error option" where
  "ValidateLabelSet k =
     (case k of
        None \<Rightarrow> Some (Sentinel ErrInvalidLabelSet)
      | Some l \<Rightarrow> ValidateLabelSet_loop (labels l))"

fun Normalized_names :: "go_map \<Rightarrow> string \<Rightarrow> string list \<Rightarrow> string \<times> string list" where
  "Normalized_names [] sb labelNames = (sb, labelNames)"
| "Normalized_names ((k, v) # ls) sb labelNames =
     (if k = ReservedLabelNameName then Normalized_names ls (sb @ v) labelNames
      else Normalized_names ls sb (labelNames @ [k]))"

fun Normalized_write :: "go_map \<Rightarrow> nat \<Rightarrow> string list \<Rightarrow> string \<Rightarrow> string" where
  "Normalized_write ls i [] sb = sb"
| "Normalized_write ls i (k # ks) sb =
     (let v = map_get ls k;
          sb1 = (if i \<noteq> 0 then sb @ '','' else sb) in
      Normalized_write ls (i + 1) ks (sb1 @ k @ ''='' @ v))"

definition Normalized :: "LabelSet \<Rightarrow> string" where
  "Normalized l =
     (let (sb, labelNames) = Normalized_names (labels l) [] [] in
      Normalized_write (labels l) 0 (sort labelNames) (sb @ ''{'') @ ''}'')"

definition LabelSet_LabelSet :: "LabelSet \<Rightarrow> string" where
  "LabelSet_LabelSet k = Normalized k"

definition ProfileIDLabelName :: string where
  "ProfileIDLabelName = ''profile_id''"

definition HasProfileID :: "LabelSet \<Rightarrow> bool" where
  "HasProfileID k = (case map_of (labels k) ProfileIDLabelName of None \<Rightarrow> False | Some v \<Rightarrow> v \<noteq> [])"

definition ProfileID :: "LabelSet \<Rightarrow> string \<times> bool" where
  "ProfileID k = (map_get (labels k) ProfileIDLabelName, map_of (labels k) ProfileIDLabelName \<noteq> None)"

definition ServiceNameLabelSet :: "string \<Rightarrow> string" where
  "ServiceNameLabelSet appName = appName @ ''{}''"

text \<open>The depth is a Go \<^verbatim>\<open>int\<close> and a time is its Unix seconds, both integers of 64 bits.\<close>

definition TreeLabelSet :: "string \<Rightarrow> int \<Rightarrow> int \<Rightarrow> string" where
  "TreeLabelSet k depth unixTime = k @ '':'' @ Itoa depth @ '':'' @ Itoa unixTime"

definition LabelSet_TreeLabelSet :: "LabelSet \<Rightarrow> int \<Rightarrow> int \<Rightarrow> string" where
  "LabelSet_TreeLabelSet k depth t = TreeLabelSet (Normalized k) depth t"

definition ParseTreeLabelSet :: "string \<Rightarrow> go_error + int \<times> int" where
  "ParseTreeLabelSet k =
     (let a = Split (CHR '':'') k in
      if length a < 3 then Inl (Sentinel errLabelSetInvalid)
      else case Atoi (a ! 1) of
             Inl e \<Rightarrow> Inl (NumError (a ! 1) e)
           | Inr level \<Rightarrow>
               (case Atoi (a ! 2) of
                  Inl e \<Rightarrow> Inl (NumError (a ! 2) e)
                | Inr v \<Rightarrow> Inr (v, level)))"

text \<open>
  \<^verbatim>\<open>strings.IndexAny\<close> of the one-byte set \<^verbatim>\<open>{\<close>; slicing up to index -1 panics,
  which is the value \<^const>\<open>None\<close>.
\<close>

fun IndexAny_brace :: "string \<Rightarrow> nat option" where
  "IndexAny_brace [] = None"
| "IndexAny_brace (c # s) = (if c = CHR ''{'' then Some 0 else map_option Suc (IndexAny_brace s))"

definition FromTreeToDictLabelSet :: "string \<Rightarrow> string option" where
  "FromTreeToDictLabelSet k = (case IndexAny_brace k of None \<Rightarrow> None | Some i \<Rightarrow> Some (take i k))"

definition DictLabelSet :: "LabelSet \<Rightarrow> string" where
  "DictLabelSet k = map_get (labels k) ReservedLabelNameName"

definition ServiceName :: "LabelSet \<Rightarrow> string" where
  "ServiceName k = map_get (labels k) ReservedLabelNameName"

definition Labels :: "LabelSet \<Rightarrow> go_map" where
  "Labels k = labels k"

text \<open>The copy of \<^verbatim>\<open>Clone\<close> is built entry by entry.\<close>

fun Clone_loop :: "go_map \<Rightarrow> go_map \<Rightarrow> go_map" where
  "Clone_loop [] newMap = newMap"
| "Clone_loop ((k, v) # ls) newMap = Clone_loop ls (AList.update k v newMap)"

definition Clone :: "LabelSet \<Rightarrow> LabelSet" where
  "Clone k = \<lparr>labels = Clone_loop (labels k) []\<rparr>"

definition Add :: "string \<Rightarrow> string \<Rightarrow> LabelSet \<Rightarrow> LabelSet" where
  "Add key v k =
     (if v = [] then k\<lparr>labels := AList.delete key (labels k)\<rparr>
      else k\<lparr>labels := AList.update key v (labels k)\<rparr>)"


section \<open>Names\<close>

lemma byte_lits:
  "byte (CHR ''{'') = 123" "byte (CHR ''}'') = 125" "byte (CHR ''='') = 61" "byte (CHR '','') = 44"
  "byte (CHR ''a'') = 97" "byte (CHR ''z'') = 122" "byte (CHR ''A'') = 65" "byte (CHR ''Z'') = 90"
  "byte (CHR ''0'') = 48" "byte (CHR ''9'') = 57" "byte (CHR ''_'') = 95" "byte (CHR ''.'') = 46"
  "byte (CHR ''-'') = 45" "byte (CHR ''/'') = 47"
  by (simp_all add: byte_def)

lemma IsLabelNameReserved_iff [simp]: "IsLabelNameReserved k \<longleftrightarrow> k = ''__name__''"
  by (auto simp: IsLabelNameReserved_def reservedLabelNames_def ReservedLabelNameName_def)

lemma service_rune:
  assumes "IsServiceNameRuneAllowed r"
  shows "r < 0x80" "\<not> is_space r" "r \<noteq> 123" "r \<noteq> 125" "r \<noteq> 44" "r \<noteq> 61" "r \<noteq> 58"
  using assms by (auto simp: IsServiceNameRuneAllowed_def IsLabelNameRuneAllowed_def byte_lits is_space_def)

lemma label_rune: "IsLabelNameRuneAllowed r \<Longrightarrow> IsServiceNameRuneAllowed r"
  by (simp add: IsServiceNameRuneAllowed_def)

lemma ValidateLabelName_loop_None [simp]:
  "ValidateLabelName_loop rs k = None \<longleftrightarrow> (\<forall>r \<in> set rs. IsLabelNameRuneAllowed r) \<and> k \<noteq> ''__name__''"
  by (induction rs) simp_all

lemma ValidateServiceName_loop_None [simp]:
  "ValidateServiceName_loop rs n = None \<longleftrightarrow> (\<forall>r \<in> set rs. IsServiceNameRuneAllowed r)"
  by (induction rs) simp_all

lemma ValidateLabelName_None:
  "ValidateLabelName k = None \<longleftrightarrow> k \<noteq> [] \<and> k \<noteq> ''__name__'' \<and> (\<forall>r \<in> set (runes k). IsLabelNameRuneAllowed r)"
  by (auto simp: ValidateLabelName_def)

lemma ValidateServiceName_None:
  "ValidateServiceName k = None \<longleftrightarrow> k \<noteq> [] \<and> (\<forall>r \<in> set (runes k). IsServiceNameRuneAllowed r)"
  by (simp add: ValidateServiceName_def)

lemma service_name_plain:
  assumes "\<forall>r \<in> set (runes s). IsServiceNameRuneAllowed r"
  shows "ascii s" "utf8 s" "TrimSpace s = s"
  using assms service_rune(1,2) ascii_utf8 [of s] TrimSpace_id [of s] by (auto simp: ascii_iff_runes)

section \<open>Values that survive parsing\<close>

text \<open>Valid UTF-8 without white space at its ends and without the two runes that end a value.\<close>

definition label_value :: "string \<Rightarrow> bool" where
  "label_value v \<longleftrightarrow>
     utf8 v \<and> TrimSpace v = v \<and> byte (CHR '','') \<notin> set (runes v) \<and> byte (CHR ''}'') \<notin> set (runes v)"

lemma label_value_plain: "\<forall>r \<in> set (runes s). IsServiceNameRuneAllowed r \<Longrightarrow> label_value s"
  using service_name_plain [of s] service_rune(4,5) by (auto simp: label_value_def byte_lits)

lemma ValidateServiceName_label_value: "ValidateServiceName n = None \<Longrightarrow> label_value n"
  by (simp add: ValidateServiceName_None label_value_plain)

lemma label_name_plain:
  assumes "k = ''__name__'' \<or> ValidateLabelName k = None"
  shows "utf8 k" "TrimSpace k = k" "61 \<notin> set (runes k)" "125 \<notin> set (runes k)" "enc_runes (runes k) = k"
proof -
  have a: "\<forall>r \<in> set (runes k). IsServiceNameRuneAllowed r"
    using assms
  proof
    assume "k = ''__name__''"
    then show ?thesis
      by (simp add: runes_of_ascii ascii_def byte_def IsServiceNameRuneAllowed_def IsLabelNameRuneAllowed_def)
  qed (simp add: ValidateLabelName_None label_rune)
  show "utf8 k" "TrimSpace k = k"
    by (rule service_name_plain [OF a])+
  then show "enc_runes (runes k) = k"
    by (simp add: utf8_def)
  show "61 \<notin> set (runes k)" "125 \<notin> set (runes k)"
    using a service_rune(4,6) by auto
qed

lemmas ValidateLabelName_plain = label_name_plain [OF disjI2]

text \<open>The same predicates of an ASCII string, for concrete inputs.\<close>

lemma label_value_ascii:
  assumes "ascii v" "v = [] \<or> \<not> is_space (byte (hd v)) \<and> \<not> is_space (byte (last v))"
    and "44 \<notin> set (map byte v)" "125 \<notin> set (map byte v)"
  shows "label_value v"
proof -
  have "trim_ends is_space (map byte v) = map byte v"
    using assms(2) by (intro trim_ends_id) (auto simp: hd_map last_map)
  then have "TrimSpace v = v"
    using TrimSpace_enc_runes [OF ascii_valid [OF assms(1)]] enc_runes_ascii [OF assms(1)] by simp
  then show ?thesis
    using assms by (simp add: label_value_def byte_lits ascii_utf8 runes_of_ascii)
qed

lemma ValidateLabelName_ascii:
  "ascii k \<Longrightarrow> k \<noteq> [] \<Longrightarrow> k \<noteq> ''__name__'' \<Longrightarrow> \<forall>c \<in> set k. IsLabelNameRuneAllowed (byte c) \<Longrightarrow>
   ValidateLabelName k = None"
  by (simp add: ValidateLabelName_None runes_of_ascii)

lemma ValidateServiceName_ascii:
  "ascii k \<Longrightarrow> k \<noteq> [] \<Longrightarrow> \<forall>c \<in> set k. IsServiceNameRuneAllowed (byte c) \<Longrightarrow> ValidateServiceName k = None"
  by (simp add: ValidateServiceName_None runes_of_ascii)

lemmas ascii_names = ValidateLabelName_ascii ValidateServiceName_ascii IsLabelNameRuneAllowed_def
  IsServiceNameRuneAllowed_def ascii_def byte_def

section \<open>Runs of the parser\<close>

lemma Parse_loop_append:
  "Parse_loop (xs @ ys) s = (case Parse_loop xs s of Inl e \<Rightarrow> Inl e | Inr s1 \<Rightarrow> Parse_loop ys s1)"
  by (induction xs arbitrary: s) (simp_all split: sum.split)

lemma name_run:
  "\<forall>r \<in> set rs. r \<noteq> 123 \<Longrightarrow> parserState p = nameParserState \<Longrightarrow>
   Parse_loop rs (p, k) = Inr (p\<lparr>p_value := p_value p @ enc_runes rs\<rparr>, k)"
  by (induction rs arbitrary: p) (simp_all add: Parse_step_def nameParserCase_def byte_lits WriteRune_def)

lemma key_run:
  "\<forall>r \<in> set rs. r \<noteq> 125 \<and> r \<noteq> 61 \<Longrightarrow> parserState p = tagLabelSetParserState \<Longrightarrow>
   Parse_loop rs (p, k) = Inr (p\<lparr>p_key := p_key p @ enc_runes rs\<rparr>, k)"
  by (induction rs arbitrary: p) (simp_all add: Parse_step_def tagLabelSetParserCase_def byte_lits WriteRune_def)

lemma value_run:
  "\<forall>r \<in> set rs. r \<noteq> 125 \<and> r \<noteq> 44 \<Longrightarrow> parserState p = tagValueParserState \<Longrightarrow>
   Parse_loop rs (p, k) = Inr (p\<lparr>p_value := p_value p @ enc_runes rs\<rparr>, k)"
  by (induction rs arbitrary: p) (simp_all add: Parse_step_def tagValueParserCase_def byte_lits WriteRune_def)

definition set_label :: "string \<Rightarrow> string \<Rightarrow> LabelSet \<Rightarrow> LabelSet" where
  "set_label k v l = l\<lparr>labels := AList.update k v (labels l)\<rparr>"

lemma label_run:
  assumes "parserState p = tagLabelSetParserState" "p_key p = []"
    and "key = ''__name__'' \<or> ValidateLabelName key = None" "label_value v" "c = 44 \<or> c = 125"
  shows "Parse_loop (runes key @ 61 # runes v @ [c]) (p, l) = Inr (p\<lparr>p_value := v\<rparr>, set_label key v l)"
proof -
  note k = label_name_plain [OF assms(3)]
  have "\<forall>r \<in> set (runes key). r \<noteq> 125 \<and> r \<noteq> 61"
    using k(3,4) by blast
  then have "Parse_loop (runes key) (p, l) = Inr (p\<lparr>p_key := key\<rparr>, l)"
    using key_run [OF _ assms(1)] assms(2) k(5) by simp
  moreover have "Parse_step 61 (p\<lparr>p_key := key\<rparr>, l) =
      Inr (p\<lparr>p_key := key, parserState := tagValueParserState, p_value := []\<rparr>, l)"
    using assms(1) by (simp add: Parse_step_def tagLabelSetParserCase_def byte_lits)
  moreover have "Parse_loop (runes v) (p\<lparr>p_key := key, parserState := tagValueParserState, p_value := []\<rparr>, l) =
      Inr (p\<lparr>p_key := key, parserState := tagValueParserState, p_value := v\<rparr>, l)"
    using value_run [of "runes v" "p\<lparr>p_key := key, parserState := tagValueParserState, p_value := []\<rparr>" l] assms(4)
    by (auto simp: label_value_def byte_lits utf8_def)
  moreover have "Parse_step c (p\<lparr>p_key := key, parserState := tagValueParserState, p_value := v\<rparr>, l) =
      Inr (p\<lparr>p_value := v\<rparr>, set_label key v l)"
    using assms k by (cases p) (auto simp: Parse_step_def tagValueParserCase_def byte_lits label_value_def set_label_def)
  ultimately show ?thesis
    by (simp add: Parse_loop_append)
qed

section \<open>The canonical name\<close>

definition label_text :: "go_map \<Rightarrow> string \<Rightarrow> string" where
  "label_text ls k = k @ ''='' @ map_get ls k"

definition names_of :: "go_map \<Rightarrow> string list" where
  "names_of ls = filter (\<lambda>k. k \<noteq> ''__name__'') (map fst ls)"

lemma Normalized_names_eq:
  "Normalized_names ls sb ns = (sb @ concat (map snd (filter (\<lambda>e. fst e = ''__name__'') ls)), ns @ names_of ls)"
  by (induction ls sb ns rule: Normalized_names.induct) (simp_all add: names_of_def ReservedLabelNameName_def)

lemma Normalized_write_Suc:
  "Normalized_write ls (Suc i) ks sb = sb @ concat (map (\<lambda>k. '','' @ label_text ls k) ks)"
  by (induction ks arbitrary: i sb) (simp_all add: label_text_def)

lemma filter_key_distinct:
  "distinct (map fst ls) \<Longrightarrow> map snd (filter (\<lambda>e. fst e = k) ls) = (case map_of ls k of None \<Rightarrow> [] | Some v \<Rightarrow> [v])"
proof (induction ls)
  case (Cons e ls)
  have "filter (\<lambda>e. fst e = k) ls = []" if "fst e = k"
    using Cons.prems that by (auto simp: filter_empty_conv image_iff)
  with Cons show ?case
    by (cases e) auto
qed simp

lemma Normalized_eq:
  assumes "distinct (map fst (labels l))"
  shows "Normalized l = ServiceName l @ ''{'' @
    (case sort (names_of (labels l)) of [] \<Rightarrow> []
     | k # ks \<Rightarrow> label_text (labels l) k @ concat (map (\<lambda>k. '','' @ label_text (labels l) k) ks)) @ ''}''"
  using filter_key_distinct [OF assms, of "''__name__''"]
  by (auto simp: Normalized_def Normalized_names_eq ServiceName_def map_get_def ReservedLabelNameName_def
      Normalized_write_Suc [of _ 0, simplified] label_text_def split: list.split option.split)

lemma sorted_names_unique:
  assumes "distinct (map fst a)" "distinct (map fst b)" "map_of a = map_of b"
  shows "sort (names_of a) = sort (names_of b)"
proof -
  have "set (map fst a) = set (map fst b)"
    using assms(3) dom_map_of_conv_image_fst [of a] dom_map_of_conv_image_fst [of b] by simp
  then have "set (names_of a) = set (names_of b)"
    by (simp add: names_of_def)
  moreover have "distinct (names_of a)" "distinct (names_of b)"
    using assms by (simp_all add: names_of_def)
  ultimately show ?thesis
    by (intro sorted_distinct_set_unique) simp_all
qed

lemma label_text_cong: "map_of a = map_of b \<Longrightarrow> label_text a = label_text b"
  by (simp add: label_text_def map_get_def fun_eq_iff)

lemma Normalized_cong:
  assumes "distinct (map fst (labels a))" "distinct (map fst (labels b))"
    and "map_of (labels a) = map_of (labels b)"
  shows "Normalized a = Normalized b"
  unfolding Normalized_eq [OF assms(1)] Normalized_eq [OF assms(2)] sorted_names_unique [OF assms]
    label_text_cong [OF assms(3)] ServiceName_def map_get_def assms(3) ..

text \<open>
  The canonical name does not depend on the order in which the map is iterated:
  a label set whose entries are visited in another order has the same canonical name.
\<close>

theorem Normalized_order_irrelevant:
  assumes "distinct (map fst ls)" and "mset ls = mset ls'"
  shows "Normalized (New ls) = Normalized (New ls')"
proof (rule Normalized_cong)
  show "distinct (map fst (labels (New ls)))"
    using assms(1) by (simp add: New_def)
  show d: "distinct (map fst (labels (New ls')))"
    using assms mset_eq_imp_distinct_iff [of "map fst ls" "map fst ls'"] by (simp add: New_def)
  show "map_of (labels (New ls)) = map_of (labels (New ls'))"
    using assms(1) d mset_eq_setD [OF assms(2)] map_of_eqI [of ls ls'] by (simp add: New_def map_of_inject_set)
qed

theorem Normalized_order_irrelevant_witness:
  "Normalized (New [(''b'', ''2''), (''__name__'', ''app''), (''a'', ''1'')]) = ''app{a=1,b=2}'' \<and>
   Normalized (New [(''b'', ''2''), (''__name__'', ''app''), (''a'', ''1'')]) =
   Normalized (New [(''a'', ''1''), (''b'', ''2''), (''__name__'', ''app'')])"
proof
  show "Normalized (New [(''b'', ''2''), (''__name__'', ''app''), (''a'', ''1'')]) = ''app{a=1,b=2}''"
    by code_simp
  show "Normalized (New [(''b'', ''2''), (''__name__'', ''app''), (''a'', ''1'')]) =
     Normalized (New [(''a'', ''1''), (''b'', ''2''), (''__name__'', ''app'')])"
    by (rule Normalized_order_irrelevant) simp_all
qed

section \<open>Parsing a canonical name\<close>

lemma runes_sep:
  "runes (CHR ''{'' # s) = 123 # runes s" "runes (CHR ''}'' # s) = 125 # runes s"
  "runes (CHR ''='' # s) = 61 # runes s" "runes (CHR '','' # s) = 44 # runes s"
  using runes_ascii [of "[c]" s for c, unfolded ascii_def] byte_lits by (force, force, force, force)

lemma runes_label_text:
  assumes "ValidateLabelName k = None" "label_value (map_get ls k)"
  shows "runes (label_text ls k @ s) = (runes k @ 61 # runes (map_get ls k)) @ runes s"
  using ValidateLabelName_plain(1) [OF assms(1)] assms(2)
  by (simp add: label_text_def runes_append label_value_def runes_sep)

definition set_labels :: "go_map \<Rightarrow> string list \<Rightarrow> LabelSet \<Rightarrow> LabelSet" where
  "set_labels ls ks l = fold (\<lambda>k. set_label k (map_get ls k)) ks l"

lemma labels_run:
  assumes "parserState p = tagLabelSetParserState" "p_key p = []"
    and "\<forall>k \<in> set (k0 # ks). ValidateLabelName k = None \<and> label_value (map_get ls k)"
  shows "\<exists>v. Parse_loop (runes (label_text ls k0 @ concat (map (\<lambda>k. '','' @ label_text ls k) ks) @ ''}'')) (p, l) =
    Inr (p\<lparr>p_value := v\<rparr>, set_labels ls (k0 # ks) l)"
  using assms
proof (induction ks arbitrary: k0 p l)
  case Nil
  then show ?case
    using label_run [of p k0 "map_get ls k0" 125 l]
    by (auto simp: runes_label_text runes_sep set_labels_def)
next
  case (Cons k ks)
  define rest where "rest = label_text ls k @ concat (map (\<lambda>k. '','' @ label_text ls k) ks) @ ''}''"
  have "runes (label_text ls k0 @ '','' @ rest) = (runes k0 @ 61 # runes (map_get ls k0) @ [44]) @ runes rest"
    using Cons.prems(3) by (simp add: runes_label_text runes_sep)
  moreover have "Parse_loop (runes k0 @ 61 # runes (map_get ls k0) @ [44]) (p, l) =
      Inr (p\<lparr>p_value := map_get ls k0\<rparr>, set_label k0 (map_get ls k0) l)"
    using Cons.prems by (intro label_run) simp_all
  moreover obtain v where "Parse_loop (runes rest) (p\<lparr>p_value := map_get ls k0\<rparr>, set_label k0 (map_get ls k0) l) =
      Inr (p\<lparr>p_value := map_get ls k0, p_value := v\<rparr>, set_labels ls (k # ks) (set_label k0 (map_get ls k0) l))"
    unfolding rest_def using Cons.IH [of "p\<lparr>p_value := map_get ls k0\<rparr>" k "set_label k0 (map_get ls k0) l"] Cons.prems
    by auto
  ultimately have "Parse_loop (runes (label_text ls k0 @ '','' @ rest)) (p, l) =
      Inr (p\<lparr>p_value := v\<rparr>, set_labels ls (k0 # k # ks) l)"
    using Parse_loop_append [of "runes k0 @ 61 # runes (map_get ls k0) @ [44]" "runes rest" "(p, l)"]
    by (simp add: set_labels_def)
  then show ?case
    by (auto simp: rest_def)
qed

lemma set_labels_apply:
  "map_of (labels (set_labels ls ks l)) x = (if x \<in> set ks then Some (map_get ls x) else map_of (labels l) x)"
  by (induction ks arbitrary: l) (simp_all add: set_labels_def set_label_def update_conv')

lemma distinct_set_labels: "distinct (map fst (labels l)) \<Longrightarrow> distinct (map fst (labels (set_labels ls ks l)))"
  by (induction ks arbitrary: l) (simp_all add: set_labels_def set_label_def distinct_update)

lemma name_part:
  assumes "ValidateServiceName n = None"
  shows "Parse_loop (runes (n @ CHR ''{'' # s)) (reset p, New []) =
    Parse_loop (runes s) (\<lparr>parserState = tagLabelSetParserState, p_key = [], p_value = n\<rparr>, New [(''__name__'', n)])"
proof -
  have a: "\<forall>r \<in> set (runes n). IsServiceNameRuneAllowed r"
    using assms by (simp add: ValidateServiceName_None)
  note n = service_name_plain [OF a]
  have e: "enc_runes (runes n) = n"
    using n(2) by (simp add: utf8_def)
  have "Parse_loop (runes n) (reset p, New []) = Inr ((reset p)\<lparr>p_value := n\<rparr>, New [])"
    using name_run [of "runes n" "reset p" "New []"] a service_rune(3) e by (auto simp: reset_def)
  then show ?thesis
    using assms n(2,3)
    by (cases p) (simp add: runes_append runes_sep Parse_loop_append Parse_step_def nameParserCase_def byte_lits reset_def New_def)
qed

text \<open>What follows the last brace changes nothing.\<close>

lemma Parse_loop_brace:
  "parserState p = tagLabelSetParserState \<or> parserState p = doneParserState \<Longrightarrow>
   \<exists>q. Parse_loop (runes ''{'') (p, l) = Inr (q, l)"
  by (auto simp: runes_sep Parse_step_def tagLabelSetParserCase_def byte_lits)

lemma names_of_valid:
  assumes "ValidateLabelSet (Some l) = None" "k \<in> set (names_of (labels l))"
  shows "ValidateLabelName k = None"
proof -
  have "ValidateLabelSet_loop ls = None \<Longrightarrow> k \<in> set (names_of ls) \<Longrightarrow> ValidateLabelName k = None" for ls
    by (induction ls rule: ValidateLabelSet_loop.induct)
       (auto simp: names_of_def ReservedLabelNameName_def split: option.splits if_splits)
  then show ?thesis
    using assms by (simp add: ValidateLabelSet_def)
qed

lemma ValidateLabelSet_name:
  assumes "ValidateLabelSet (Some l) = None" "map_of (labels l) ''__name__'' = Some n"
  shows "ValidateServiceName n = None"
proof -
  have "ValidateLabelSet_loop ls = None \<Longrightarrow> map_of ls ''__name__'' = Some n \<Longrightarrow> ValidateServiceName n = None" for ls
    by (induction ls rule: ValidateLabelSet_loop.induct)
       (auto simp: ReservedLabelNameName_def split: option.splits if_splits)
  then show ?thesis
    using assms by (simp add: ValidateLabelSet_def)
qed

lemma utf8_seps: "utf8 ''}''" "utf8 ''=''" "utf8 '',''"
  by (simp_all add: ascii_utf8 ascii_def byte_lits)

lemma utf8_label_text:
  "ValidateLabelName k = None \<Longrightarrow> label_value (map_get ls k) \<Longrightarrow> utf8 (label_text ls k)"
  unfolding label_text_def label_value_def 
  by (simp add: utf8_append utf8_append [OF utf8_seps(2), simplified] ValidateLabelName_plain(1))

lemma utf8_labels:
  "\<forall>k \<in> set ks. ValidateLabelName k = None \<and> label_value (map_get ls k) \<Longrightarrow>
   utf8 (concat (map (\<lambda>k. '','' @ label_text ls k) ks))"
  by (induction ks) (simp_all add: utf8_append utf8_append [OF utf8_seps(3), simplified] utf8_label_text)

lemma Parse_Normalized_aux:
  assumes "distinct (map fst (labels l))" "map_of (labels l) ''__name__'' = Some n" "ValidateServiceName n = None"
    and "\<forall>k \<in> set (names_of (labels l)). ValidateLabelName k = None \<and> label_value (map_get (labels l) k)"
  shows "\<exists>l'. Parse (Some p) (Normalized l) = Inr l' \<and> map_of (labels l') = map_of (labels l) \<and>
    distinct (map fst (labels l'))"
proof -
  define ks where "ks = sort (names_of (labels l))"
  define body where "body = (case ks of [] \<Rightarrow> []
     | k # ks \<Rightarrow> label_text (labels l) k @ concat (map (\<lambda>k. '','' @ label_text (labels l) k) ks)) @ ''}''"
  define q where "q = \<lparr>parserState = tagLabelSetParserState, p_key = [], p_value = n\<rparr>"
  define l' where "l' = set_labels (labels l) ks (New [(''__name__'', n)])"
  have N: "Normalized l = n @ ''{'' @ body"
    using Normalized_eq [OF assms(1)] assms(2)
    by (simp add: body_def ks_def ServiceName_def map_get_def ReservedLabelNameName_def)
  have ks: "\<forall>k \<in> set ks. ValidateLabelName k = None \<and> label_value (map_get (labels l) k)"
    using assms(4) by (simp add: ks_def)
  have u: "utf8 body"
    using ks utf8_labels [of "tl ks" "labels l"] utf8_label_text [of "hd ks" "labels l"]
    by (cases ks) (simp_all add: body_def utf8_seps utf8_append)
  have "\<exists>r. Parse_loop (runes body) (q, New [(''__name__'', n)]) = Inr (r, l') \<and>
      (parserState r = tagLabelSetParserState \<or> parserState r = doneParserState)"
  proof (cases ks)
    case Nil
    then show ?thesis
      by (simp add: body_def runes_sep Parse_step_def tagLabelSetParserCase_def byte_lits q_def l'_def set_labels_def)
  next
    case (Cons k0 kr)
    then show ?thesis
      using labels_run [of q k0 kr "labels l" "New [(''__name__'', n)]"] ks
      by (auto simp: body_def q_def l'_def)
  qed
  then obtain r where "Parse_loop (runes body) (q, New [(''__name__'', n)]) = Inr (r, l')"
      "parserState r = tagLabelSetParserState \<or> parserState r = doneParserState"
    by blast
  moreover from this(2) obtain r' where "Parse_loop (runes ''{'') (r, l') = Inr (r', l')"
    using Parse_loop_brace by blast
  ultimately have "Parse (Some p) (Normalized l) = Inr l'"
    using name_part [OF assms(3), of "body @ ''{''" p] u
    by (simp add: Parse_def N q_def runes_append Parse_loop_append)
  moreover have "map_of (labels l') = map_of (labels l)"
  proof
    fix x
    show "map_of (labels l') x = map_of (labels l) x"
      using assms(2) map_of_eq_None_iff [of "labels l" x]
      by (auto simp: l'_def set_labels_apply New_def ks_def names_of_def map_get_def split: option.split)
  qed
  moreover have "distinct (map fst (labels l'))"
    by (simp add: l'_def distinct_set_labels New_def)
  ultimately show ?thesis
    by blast
qed

text \<open>
  C25. Parsing a canonical name gives the labels back: for a label set with a service name that
  passes \<^verbatim>\<open>ValidateLabelSet\<close> and whose values are label values, \<^verbatim>\<open>Parse\<close> of
  \<^verbatim>\<open>Normalized\<close> succeeds, whatever state the pooled parser was left in, and returns the same map.
\<close>

theorem Parse_Normalized:
  assumes "distinct (map fst (labels l))" and "map_of (labels l) ''__name__'' \<noteq> None"
    and "ValidateLabelSet (Some l) = None" and "\<forall>v \<in> snd ` set (labels l). label_value v"
  shows "\<exists>l'. Parse (Some p) (Normalized l) = Inr l' \<and> map_of (labels l') = map_of (labels l)"
proof -
  obtain n where n: "map_of (labels l) ''__name__'' = Some n"
    using assms(2) by blast
  have "ValidateLabelName k = None \<and> label_value (map_get (labels l) k)" if k: "k \<in> set (names_of (labels l))" for k
  proof -
    obtain v where "map_of (labels l) k = Some v"
      using k by (cases "map_of (labels l) k") (auto simp: names_of_def map_of_eq_None_iff)
    then show ?thesis
      using assms(4) names_of_valid [OF assms(3) k] map_of_SomeD by (force simp: map_get_def)
  qed
  then show ?thesis
    using Parse_Normalized_aux [OF assms(1) n ValidateLabelSet_name [OF assms(3) n]] by blast
qed

theorem Parse_Normalized_witness:
  "let l = New [(''path'', ''a b=c''), (''__name__'', ''my-app/x''), (''k.1'', [])] in
   Normalized l = ''my-app/x{k.1=,path=a b=c}'' \<and>
   (\<exists>l'. Parse (Some \<lparr>parserState = doneParserState, p_key = ''x'', p_value = ''y''\<rparr>) (Normalized l) = Inr l' \<and>
     map_of (labels l') = map_of (labels l))"
  unfolding Let_def
proof
  let ?l = "New [(''path'', ''a b=c''), (''__name__'', ''my-app/x''), (''k.1'', [])]"
  show "Normalized ?l = ''my-app/x{k.1=,path=a b=c}''"
    by code_simp
  have "ValidateLabelSet (Some ?l) = None"
    by (simp add: ValidateLabelSet_def New_def ReservedLabelNameName_def ascii_names)
  moreover have "label_value ''a b=c''" "label_value ''my-app/x''" "label_value []"
    by (simp_all add: label_value_ascii ascii_names is_space_def)
  ultimately show "\<exists>l'. Parse (Some \<lparr>parserState = doneParserState, p_key = ''x'', p_value = ''y''\<rparr>) (Normalized ?l) = Inr l' \<and>
     map_of (labels l') = map_of (labels ?l)"
    by (intro Parse_Normalized) (simp_all add: New_def)
qed

section \<open>What the parser accepts\<close>

text \<open>The invariant of the loop: a label set whose labels can all be written and parsed again.\<close>

definition label_ok :: "string \<times> string \<Rightarrow> bool" where
  "label_ok e \<longleftrightarrow> (fst e = ''__name__'' \<or> ValidateLabelName (fst e) = None) \<and> label_value (snd e)"

definition parsed :: "LabelSet \<Rightarrow> bool" where
  "parsed l \<longleftrightarrow> distinct (map fst (labels l)) \<and> (\<forall>e \<in> set (labels l). label_ok e)"

definition parser_inv :: "parser \<times> LabelSet \<Rightarrow> bool" where
  "parser_inv = (\<lambda>(p, l). parsed l \<and>
     (parserState p \<noteq> nameParserState \<longrightarrow> map_of (labels l) ''__name__'' \<noteq> None) \<and>
     (parserState p = tagValueParserState \<longrightarrow>
        utf8 (p_value p) \<and> 44 \<notin> set (runes (p_value p)) \<and> 125 \<notin> set (runes (p_value p))))"

lemma set_update_subset: "set (AList.update k v xs) \<subseteq> insert (k, v) (set xs)"
  by (induction xs) auto

lemma parsed_set_label:
  assumes "parsed l" "k = ''__name__'' \<or> ValidateLabelName k = None" "label_value v"
  shows "parsed (set_label k v l)"
proof -
  have "label_ok (k, v)"
    using assms(2,3) by (simp add: label_ok_def)
  then show ?thesis
    using assms(1) set_update_subset [of k v "labels l"] by (auto simp: parsed_def set_label_def distinct_update)
qed

lemma TrimSpace_label_value:
  assumes "utf8 v" "44 \<notin> set (runes v)" "125 \<notin> set (runes v)"
  shows "label_value (TrimSpace v)"
  using TrimSpace_utf8 [OF assms(1)] set_trim_ends [of is_space "runes v"] assms(2,3)
  by (auto simp: label_value_def byte_lits)

lemma write_rune_sep: "write_rune r = 44 \<longleftrightarrow> r = 44" "write_rune r = 125 \<longleftrightarrow> r = 125"
  by (auto simp: write_rune_def valid_rune_def)

lemma nameParserCase_inv:
  assumes "parser_inv (p, l)" "parserState p = nameParserState" "nameParserCase r p l = Inr s"
  shows "parser_inv s"
proof (cases "r = 123")
  case True
  then have v: "ValidateServiceName (TrimSpace (p_value p)) = None"
      "s = (p\<lparr>parserState := tagLabelSetParserState\<rparr>, set_label ''__name__'' (TrimSpace (p_value p)) l)"
    using assms(3) by (auto simp: nameParserCase_def byte_lits set_label_def Let_def split: option.splits)
  then show ?thesis
    using assms(1) parsed_set_label [of l "''__name__''"] ValidateServiceName_label_value
    by (simp add: parser_inv_def) (simp add: set_label_def update_conv')
next
  case False
  then show ?thesis
    using assms by (auto simp: nameParserCase_def byte_lits parser_inv_def)
qed

lemma tagValueParserCase_inv:
  assumes "parser_inv (p, l)" "parserState p = tagValueParserState" "tagValueParserCase r p l = Inr s"
  shows "parser_inv s"
proof (cases "r = 44 \<or> r = 125")
  case True
  let ?k = "TrimSpace (p_key p)" and ?v = "TrimSpace (p_value p)"
  have k: "?k = ''__name__'' \<or> ValidateLabelName ?k = None"
      "s = (p\<lparr>parserState := tagLabelSetParserState, p_key := []\<rparr>, set_label ?k ?v l)"
    using assms(3) True
    by (auto simp: tagValueParserCase_def byte_lits set_label_def Let_def split: option.splits if_splits)
  have "label_value ?v"
    using assms(1,2) by (auto simp: parser_inv_def intro: TrimSpace_label_value)
  then show ?thesis
    using assms(1,2) k parsed_set_label [of l ?k ?v]
    by (simp add: parser_inv_def) (simp add: set_label_def update_conv')
next
  case False
  then show ?thesis
    using assms write_rune_sep [of r]
    by (auto simp: tagValueParserCase_def byte_lits parser_inv_def WriteRune_def runes_append utf8_append)
qed

lemma Parse_step_inv:
  assumes "parser_inv s" "Parse_step r s = Inr s'"
  shows "parser_inv s'"
proof -
  obtain p l where s: "s = (p, l)"
    by force
  show ?thesis
    using assms nameParserCase_inv [of p l r s'] tagValueParserCase_inv [of p l r s']
    by (cases "parserState p")
       (auto simp: s Parse_step_def tagLabelSetParserCase_def parser_inv_def split: if_splits)
qed

lemma Parse_loop_inv: "Parse_loop rs s = Inr s' \<Longrightarrow> parser_inv s \<Longrightarrow> parser_inv s'"
  by (induction rs s rule: Parse_loop.induct) (auto split: sum.splits dest: Parse_step_inv)

lemma Parse_step_leaves_name:
  "Parse_step r (p, l) = Inr (p', l') \<Longrightarrow> parserState p \<noteq> nameParserState \<or> r = 123 \<Longrightarrow>
   parserState p' \<noteq> nameParserState"
  by (auto simp: Parse_step_def nameParserCase_def tagLabelSetParserCase_def tagValueParserCase_def byte_lits Let_def
      split: ParserState.splits option.splits if_splits)

lemma Parse_inv:
  assumes "Parse (Some p) s = Inr l"
  shows "parsed l \<and> map_of (labels l) ''__name__'' \<noteq> None"
proof -
  obtain q where "Parse_loop (runes (s @ ''{'')) (reset p, New []) = Inr (q, l)"
    using assms by (auto simp: Parse_def map_sum_def split: sum.splits)
  moreover have "runes (s @ ''{'') = runes s @ [123]"
    using runes_snoc [of "CHR ''{''" s] by (simp add: byte_lits)
  ultimately obtain s1 where s1: "Parse_loop (runes s) (reset p, New []) = Inr s1" "Parse_step 123 s1 = Inr (q, l)"
    by (auto simp: Parse_loop_append split: sum.splits)
  have "parser_inv (reset p, New [])"
    by (simp add: parser_inv_def parsed_def New_def reset_def)
  then have "parser_inv (q, l)"
    using Parse_loop_inv [OF s1(1)] Parse_step_inv [OF _ s1(2)] by blast
  moreover have "parserState q \<noteq> nameParserState"
    using Parse_step_leaves_name [of 123 "fst s1" "snd s1" q l] s1(2) by simp
  ultimately show ?thesis
    by (simp add: parser_inv_def)
qed

text \<open>
  What \<^verbatim>\<open>Parse\<close> returns, for any input at all: a map with the service name in it, in
  which every other label name is valid and every value is valid UTF-8 without surrounding white space and without
  the runes that separate labels.
\<close>

theorem Parse_accepts:
  assumes "Parse (Some p) s = Inr l"
  shows "distinct (map fst (labels l)) \<and> ''__name__'' \<in> fst ` set (labels l) \<and>
    (\<forall>k v. (k, v) \<in> set (labels l) \<longrightarrow> (k = ''__name__'' \<or> ValidateLabelName k = None) \<and> label_value v)"
  using Parse_inv [OF assms] by (auto simp: parsed_def label_ok_def map_of_eq_None_iff)

text \<open>
  \<^verbatim>\<open>Normalized\<close> is a canonical form: when a name parses, to a label set whose
  service name is valid, then its canonical name parses too, with any pooled parser, to the same labels, and
  normalizing again changes nothing.
\<close>

theorem Parse_canonical:
  assumes "Parse (Some p) s = Inr l" and "ValidateServiceName (ServiceName l) = None"
  shows "\<exists>l'. Parse (Some q) (Normalized l) = Inr l' \<and> map_of (labels l') = map_of (labels l) \<and>
    Normalized l' = Normalized l"
proof -
  have d: "distinct (map fst (labels l))" and ok: "\<forall>e \<in> set (labels l). label_ok e"
    using Parse_inv [OF assms(1)] by (simp_all add: parsed_def)
  obtain n where n: "map_of (labels l) ''__name__'' = Some n"
    using Parse_inv [OF assms(1)] by blast
  have "\<forall>k \<in> set (names_of (labels l)). ValidateLabelName k = None \<and> label_value (map_get (labels l) k)"
    using ok d by (force simp: names_of_def label_ok_def map_get_def)
  then obtain l' where "Parse (Some q) (Normalized l) = Inr l'" "map_of (labels l') = map_of (labels l)"
      "distinct (map fst (labels l'))"
    using Parse_Normalized_aux [OF d n, of q] assms(2) n
    by (auto simp: ServiceName_def map_get_def ReservedLabelNameName_def)
  then show ?thesis
    using Normalized_cong [OF _ d] by blast
qed

text \<open>
  A service name that is not valid makes \<^verbatim>\<open>Parse\<close> fail with the error of
  \<^verbatim>\<open>ValidateServiceName\<close>, whatever follows the name; in particular an empty or blank name is an error.
\<close>

theorem Parse_service_name_error:
  assumes "utf8 n" and "byte (CHR ''{'') \<notin> set (runes n)" and "ValidateServiceName (TrimSpace n) = Some e"
  shows "Parse (Some p) n = Inl e \<and> Parse (Some p) (n @ ''{'' @ rest) = Inl e"
proof -
  have "Parse_loop (runes n) (reset p, New []) = Inr ((reset p)\<lparr>p_value := n\<rparr>, New [])"
    using name_run [of "runes n" "reset p" "New []"] assms(1,2) by (auto simp: reset_def byte_lits utf8_def)
  then show ?thesis
    using assms
    by (simp add: Parse_def runes_append runes_sep Parse_loop_append Parse_step_def nameParserCase_def byte_lits reset_def)
qed

text \<open>
  \<^verbatim>\<open>ParseTreeLabelSet\<close> reads back the time and the depth that
  \<^verbatim>\<open>TreeLabelSet\<close> wrote, when the key itself contains no colon; and for a key that starts with an
  application name and a brace, \<^verbatim>\<open>FromTreeToDictLabelSet\<close> returns the application name.
\<close>

theorem tree_label_roundtrip:
  assumes "CHR '':'' \<notin> set k" and "- (2 ^ 63) \<le> depth" "depth < 2 ^ 63" and "- (2 ^ 63) \<le> t" "t < 2 ^ 63"
    and "k = app @ ''{'' @ rest" and "CHR ''{'' \<notin> set app"
  shows "ParseTreeLabelSet (TreeLabelSet k depth t) = Inr (t, depth) \<and>
    FromTreeToDictLabelSet (TreeLabelSet k depth t) = Some app"
proof
  have "Split (CHR '':'') (TreeLabelSet k depth t) = [k, Itoa depth, Itoa t]"
    using Split_append [OF assms(1)] Split_append [OF Itoa_no_colon] Split_none [OF Itoa_no_colon]
    by (simp add: TreeLabelSet_def)
  then show "ParseTreeLabelSet (TreeLabelSet k depth t) = Inr (t, depth)"
    using Atoi_Itoa assms by (simp add: ParseTreeLabelSet_def)
  have "IndexAny_brace (app @ CHR ''{'' # s) = Some (length app)" for s
    using assms(7) by (induction app) auto
  then show "FromTreeToDictLabelSet (TreeLabelSet k depth t) = Some app"
    by (simp add: FromTreeToDictLabelSet_def TreeLabelSet_def assms(6))
qed

section \<open>Concrete inputs\<close>

lemma Parse_ascii:
  "ascii s \<Longrightarrow> Parse (Some p) s = map_sum id snd (Parse_loop (map byte s @ [123]) (reset p, New []))"
  by (simp add: Parse_def runes_ascii runes_sep)

lemma TrimSpace_ascii:
  assumes "ascii s"
  shows "TrimSpace s = trim_ends (is_space \<circ> byte) s"
proof -
  have "ascii (trim_ends (is_space \<circ> byte) s)"
    using assms set_trim_ends [of "is_space \<circ> byte" s] by (auto simp: ascii_def)
  then show ?thesis
    using TrimSpace_enc_runes [OF ascii_valid [OF assms]] assms
    by (simp add: enc_runes_ascii trim_ends_map)
qed

lemma Parse_one_label:
  assumes "ValidateServiceName n = None" "key = ''__name__'' \<or> ValidateLabelName key = None" "label_value v"
  shows "Parse (Some p) (n @ ''{'' @ key @ ''='' @ v @ ''}'') = Inr (set_label key v (New [(''__name__'', n)]))"
proof -
  note k = label_name_plain [OF assms(2)]
  have v: "utf8 v"
    using assms(3) by (simp add: label_value_def)
  let ?q = "\<lparr>parserState = tagLabelSetParserState, p_key = [], p_value = n\<rparr>"
  let ?l = "New [(''__name__'', n)]"
  have "runes (key @ ''='' @ v @ ''}'' @ ''{'') = (runes key @ 61 # runes v @ [125]) @ [123]"
    using k(1) v by (simp add: runes_append runes_sep)
  moreover have "Parse_loop (runes key @ 61 # runes v @ [125]) (?q, ?l) = Inr (?q\<lparr>p_value := v\<rparr>, set_label key v ?l)"
    using assms by (intro label_run) simp_all
  ultimately show ?thesis
    using name_part [OF assms(1), of "key @ ''='' @ v @ ''}'' @ ''{''" p]
      Parse_loop_append [of "runes key @ 61 # runes v @ [125]" "[123]" "(?q, ?l)"]
    by (simp add: Parse_def Parse_step_def tagLabelSetParserCase_def byte_lits)
qed

theorem Parse_accepts_witness:
  "Parse (Some parserPool_New) ''app{a=1}'' = Inr (New [(''__name__'', ''app''), (''a'', ''1'')]) \<and>
   distinct (map fst (labels (New [(''__name__'', ''app''), (''a'', ''1'')]))) \<and> ValidateLabelName ''a'' = None"
proof -
  have e: "Parse (Some parserPool_New) ''app{a=1}'' = Inr (New [(''__name__'', ''app''), (''a'', ''1'')])"
    using Parse_one_label [of "''app''" "''a''" "''1''" parserPool_New]
    by (simp add: ascii_names label_value_ascii is_space_def set_label_def New_def)
  then show ?thesis
    using Parse_accepts [OF e] by (simp add: New_def)
qed

theorem Parse_canonical_witness:
  "Parse (Some parserPool_New) ''app{a=1}'' = Inr (New [(''__name__'', ''app''), (''a'', ''1'')]) \<and>
   (\<exists>l'. Parse (Some parserPool_New) (Normalized (New [(''__name__'', ''app''), (''a'', ''1'')])) = Inr l' \<and>
     Normalized l' = ''app{a=1}'')"
proof -
  let ?l = "New [(''__name__'', ''app''), (''a'', ''1'')]"
  have e: "Parse (Some parserPool_New) ''app{a=1}'' = Inr ?l"
    using Parse_one_label [of "''app''" "''a''" "''1''" parserPool_New]
    by (simp add: ascii_names label_value_ascii is_space_def set_label_def New_def)
  have n: "Normalized ?l = ''app{a=1}''"
    by code_simp
  have "ValidateServiceName (ServiceName ?l) = None"
    by (simp add: ServiceName_def map_get_def New_def ReservedLabelNameName_def ascii_names)
  then show ?thesis
    using Parse_canonical [OF e, of parserPool_New] e n by auto
qed

theorem Parse_service_name_error_witness:
  "Parse (Some parserPool_New) '' '' = Inl (Sentinel ErrServiceNameIsRequired) \<and>
   Parse (Some parserPool_New) ('' '' @ ''{'' @ ''a=b}'') = Inl (Sentinel ErrServiceNameIsRequired)"
  by (rule Parse_service_name_error)
     (simp_all add: ascii_utf8 ascii_def runes_of_ascii byte_def TrimSpace_ascii trim_ends_def is_space_def ValidateServiceName_def)

theorem tree_label_roundtrip_witness:
  "ParseTreeLabelSet (TreeLabelSet ''foo{a=b}'' 3 (- 20)) = Inr (- 20, 3) \<and>
   FromTreeToDictLabelSet (TreeLabelSet ''foo{a=b}'' 3 (- 20)) = Some ''foo''"
  by (rule tree_label_roundtrip [where rest = "''a=b}''"]) simp_all

text \<open>
  A last label that no comma or brace ends is lost without an error: the name
  \<^verbatim>\<open>app{key=value\<close> parses like \<^verbatim>\<open>app{}\<close>, for every valid application and label name and
  every label value.
\<close>

theorem Parse_drops_unterminated:
  assumes "ValidateServiceName n = None" and "ValidateLabelName key = None" and "label_value v"
  shows "Parse (Some p) (n @ ''{'' @ key @ ''='' @ v) = Inr (New [(''__name__'', n)])"
proof -
  note k = ValidateLabelName_plain [OF assms(2)]
  let ?q = "\<lparr>parserState = tagLabelSetParserState, p_key = [], p_value = n\<rparr>"
  have "Parse_loop (runes key) (?q, New [(''__name__'', n)]) = Inr (?q\<lparr>p_key := key\<rparr>, New [(''__name__'', n)])"
    using key_run [of "runes key" ?q "New [(''__name__'', n)]"] k(3-5) by auto
  moreover have "Parse_loop (runes v) (?q\<lparr>p_key := key, parserState := tagValueParserState, p_value := []\<rparr>, l) =
      Inr (?q\<lparr>p_key := key, parserState := tagValueParserState, p_value := v\<rparr>, l)" for l
    using assms(3) by (subst value_run) (auto simp: label_value_def byte_lits utf8_def)
  moreover have "runes (v @ ''{'') = runes v @ [123]"
    using runes_snoc [of "CHR ''{''" v] by (simp add: byte_lits)
  ultimately show ?thesis
    using name_part [OF assms(1), of "key @ ''='' @ v @ ''{''" p] k(1)
    by (simp add: Parse_def runes_append runes_sep Parse_loop_append Parse_step_def tagLabelSetParserCase_def
        tagValueParserCase_def byte_lits)
qed

theorem Parse_drops_unterminated_witness:
  "Parse (Some parserPool_New) ''app{key=value'' = Inr (New [(''__name__'', ''app'')])"
  using Parse_drops_unterminated [of "''app''" "''key''" "''value''" parserPool_New]
  by (simp add: ascii_names label_value_ascii is_space_def)

text \<open>
  A label with the reserved name replaces the service name and is not validated: any label
  value at all becomes the service name, so there are names that \<^verbatim>\<open>Parse\<close> accepts and whose label
  set \<^verbatim>\<open>ValidateLabelSet\<close> rejects.
\<close>

theorem Parse_name_override:
  assumes "ValidateServiceName n = None" and "label_value v"
  shows "\<exists>l. Parse (Some p) (n @ ''{__name__='' @ v @ ''}'') = Inr l \<and> ServiceName l = v \<and>
    ValidateLabelSet (Some l) = ValidateServiceName v"
  using Parse_one_label [OF assms(1) disjI1 [OF refl] assms(2), of p]
  by (simp add: set_label_def New_def ServiceName_def map_get_def ReservedLabelNameName_def ValidateLabelSet_def
      split: option.split)

theorem Parse_name_override_witness:
  "(\<exists>l. Parse (Some parserPool_New) (''app'' @ ''{__name__='' @ ''a b'' @ ''}'') = Inr l \<and> ServiceName l = ''a b'' \<and>
     ValidateLabelSet (Some l) = ValidateServiceName ''a b'') \<and>
   ValidateServiceName ''a b'' = Some (Error ErrInvalidServiceName (NotAllowed ''a b'' 32))"
proof
  show "\<exists>l. Parse (Some parserPool_New) (''app'' @ ''{__name__='' @ ''a b'' @ ''}'') = Inr l \<and> ServiceName l = ''a b'' \<and>
     ValidateLabelSet (Some l) = ValidateServiceName ''a b''"
    by (rule Parse_name_override) (simp_all add: ascii_names label_value_ascii is_space_def)
  show "ValidateServiceName ''a b'' = Some (Error ErrInvalidServiceName (NotAllowed ''a b'' 32))"
    by (simp add: ValidateServiceName_def runes_of_ascii ascii_names NewInvalidServiceNameRuneError_def
        newInvalidRuneError_def newErr_def)
qed

text \<open>
  With a colon in a label value \<^verbatim>\<open>ParseTreeLabelSet\<close> reads a part of the value
  instead of the depth and the time that were written.
\<close>

theorem tree_label_colon:
  "ParseTreeLabelSet (LabelSet_TreeLabelSet (New [(''__name__'', ''foo''), (''a'', ''b:7:9:x'')]) 0 1) = Inr (9, 7)"
proof -
  have "Normalized (New [(''__name__'', ''foo''), (''a'', ''b:7:9:x'')]) = ''foo{a=b:7:9:x}''"
    by code_simp
  then show ?thesis
    by (simp add: LabelSet_TreeLabelSet_def TreeLabelSet_def ParseTreeLabelSet_def Split_append Atoi_def byte_def)
qed

end
