(* ===== verification/Semconv.thy ===== *)
theory Semconv
  imports LabelSets
begin

text \<open>
  The application names a session reports under: \<^verbatim>\<open>internal/semconv/labels.go\<close>.

  What the Go runtime tells about itself (the compiler, the version and the build
  information of the binary) is the record \<open>runtime_info\<close>, an argument of the
  functions that ask for it.  \<open>merge_spec\<close> is the abstract specification: the
  merged labels as a map, in order of precedence.  The refinement theorem shows that the
  two application names are the canonical names of that map.
\<close>

section \<open>Definitions\<close>

record runtime_info =
  Compiler :: string
  Version :: string
  BuildInfo_Deps :: "(string \<times> string) list option"

record versions =
  v_sdk :: string
  v_godeltaprof :: string

record AppNames =
  SDK :: string
  Godeltaprof :: string

definition labelScopeName :: string where "labelScopeName = ''otel.scope.name''"
definition labelScopeVersion :: string where "labelScopeVersion = ''otel.scope.version''"
definition labelProcessRuntimeName :: string where "labelProcessRuntimeName = ''process.runtime.name''"
definition labelProcessRuntimeVersion :: string where "labelProcessRuntimeVersion = ''process.runtime.version''"
definition labelPyroscopeSessionID :: string where "labelPyroscopeSessionID = ''__session_id__''"
definition scopeSDK :: string where "scopeSDK = ''com.grafana.pyroscope/go''"
definition scopeGodeltaprof :: string where "scopeGodeltaprof = ''com.grafana.pyroscope/godeltaprof''"

lemmas label_names = labelScopeName_def labelScopeVersion_def labelProcessRuntimeName_def
  labelProcessRuntimeVersion_def labelPyroscopeSessionID_def

fun getScopeVersions_loop :: "(string \<times> string) list \<Rightarrow> string \<Rightarrow> string \<Rightarrow> versions" where
  "getScopeVersions_loop [] sdk godeltaprof = \<lparr>v_sdk = sdk, v_godeltaprof = godeltaprof\<rparr>"
| "getScopeVersions_loop ((path, version) # deps) sdk godeltaprof =
     (if path = ''github.com/grafana/pyroscope-go/godeltaprof'' then getScopeVersions_loop deps sdk version
      else if path = ''github.com/grafana/pyroscope-go'' then getScopeVersions_loop deps version godeltaprof
      else getScopeVersions_loop deps sdk godeltaprof)"

definition getScopeVersions :: "runtime_info \<Rightarrow> versions" where
  "getScopeVersions rt =
     (case BuildInfo_Deps rt of
        None \<Rightarrow> \<lparr>v_sdk = [], v_godeltaprof = []\<rparr>
      | Some deps \<Rightarrow> getScopeVersions_loop deps [] [])"

definition getRuntimeName :: "runtime_info \<Rightarrow> string" where
  "getRuntimeName rt = (if Compiler rt = ''gc'' then ''go'' else Compiler rt)"

definition getRuntimeVersion :: "runtime_info \<Rightarrow> string" where
  "getRuntimeVersion rt = Version rt"

definition addDefaultLabel :: "string \<Rightarrow> string \<Rightarrow> LabelSet \<Rightarrow> LabelSet" where
  "addDefaultLabel key v b =
     (if v = [] then b
      else if map_of (Labels b) key \<noteq> None then b
      else Add key v b)"

definition buildAppName :: "LabelSet \<Rightarrow> string \<Rightarrow> string \<Rightarrow> string" where
  "buildAppName builder scope version =
     Normalized (addDefaultLabel labelScopeVersion version (addDefaultLabel labelScopeName scope (Clone builder)))"

fun MergeTags_loop :: "go_map \<Rightarrow> LabelSet \<Rightarrow> go_error + LabelSet" where
  "MergeTags_loop [] k = Inr k"
| "MergeTags_loop ((tagKey, tagValue) # tags) k =
     (if IsLabelNameReserved tagKey then MergeTags_loop tags k
      else case ValidateLabelName tagKey of
             Some e \<Rightarrow> Inl e
           | None \<Rightarrow> MergeTags_loop tags (Add tagKey tagValue k))"

definition MergeTagsWithAppName ::
    "parser option \<Rightarrow> runtime_info \<Rightarrow> string \<Rightarrow> string \<Rightarrow> go_map \<Rightarrow> go_error + AppNames" where
  "MergeTagsWithAppName pool rt appName sid tags =
     (case Parse pool appName of
        Inl e \<Rightarrow> Inl e
      | Inr k0 \<Rightarrow>
          (case MergeTags_loop tags k0 of
             Inl e \<Rightarrow> Inl e
           | Inr k1 \<Rightarrow>
               let k2 = Add labelPyroscopeSessionID sid k1;
                   k3 = addDefaultLabel labelProcessRuntimeName (getRuntimeName rt) k2;
                   k4 = addDefaultLabel labelProcessRuntimeVersion (getRuntimeVersion rt) k3;
                   vs = getScopeVersions rt in
               Inr \<lparr>SDK = buildAppName k4 scopeSDK (v_sdk vs),
                    Godeltaprof = buildAppName k4 scopeGodeltaprof (v_godeltaprof vs)\<rparr>))"

section \<open>The merged labels as a map\<close>

type_synonym label_map = "string \<rightharpoonup> string"

definition put :: "string \<Rightarrow> string \<Rightarrow> label_map \<Rightarrow> label_map" where
  "put k v m = m(k := if v = [] then None else Some v)"

definition default_to :: "string \<Rightarrow> string \<Rightarrow> label_map \<Rightarrow> label_map" where
  "default_to k v m = (if v = [] \<or> m k \<noteq> None then m else m(k \<mapsto> v))"

text \<open>The tags of the configuration over those of the name; the reserved name is never taken from them.\<close>

definition over :: "label_map \<Rightarrow> label_map \<Rightarrow> label_map" where
  "over m tags = (\<lambda>k. if k = ''__name__'' then m k
     else case tags k of None \<Rightarrow> m k | Some v \<Rightarrow> if v = [] then None else Some v)"

definition merge_spec :: "label_map \<Rightarrow> label_map \<Rightarrow> string \<Rightarrow> runtime_info \<Rightarrow> label_map" where
  "merge_spec m tags sid rt =
     default_to labelProcessRuntimeVersion (getRuntimeVersion rt)
       (default_to labelProcessRuntimeName (getRuntimeName rt)
         (put labelPyroscopeSessionID sid (over m tags)))"

definition name_spec :: "label_map \<Rightarrow> string \<Rightarrow> string \<Rightarrow> label_map" where
  "name_spec m scope version = default_to labelScopeVersion version (default_to labelScopeName scope m)"

text \<open>A string is the canonical name of a map.\<close>

definition names_map :: "string \<Rightarrow> label_map \<Rightarrow> bool" where
  "names_map s m \<longleftrightarrow> (\<exists>l. distinct (map fst (labels l)) \<and> map_of (labels l) = m \<and> s = Normalized l)"

section \<open>The operations refine the specification\<close>

definition ls_inv :: "LabelSet \<Rightarrow> bool" where
  "ls_inv l \<longleftrightarrow> distinct (map fst (labels l))"

abbreviation abs_ls :: "LabelSet \<Rightarrow> label_map" where
  "abs_ls l \<equiv> map_of (labels l)"

lemma Add_refines [simp]: "abs_ls (Add k v l) = put k v (abs_ls l)" "ls_inv l \<Longrightarrow> ls_inv (Add k v l)"
  by (simp_all add: Add_def put_def update_conv' delete_conv' ls_inv_def distinct_update distinct_delete)

lemma addDefaultLabel_refines [simp]:
  "abs_ls (addDefaultLabel k v l) = default_to k v (abs_ls l)" "ls_inv l \<Longrightarrow> ls_inv (addDefaultLabel k v l)"
  by (simp_all add: addDefaultLabel_def default_to_def Labels_def put_def)

lemma Clone_loop_refines:
  "distinct (map fst ls) \<Longrightarrow> map_of (Clone_loop ls m) = map_of m ++ map_of ls"
  "distinct (map fst m) \<Longrightarrow> distinct (map fst (Clone_loop ls m))"
proof (induction ls m rule: Clone_loop.induct)
  case (2 k v ls m)
  {
    case 1
    then have "map_of ls k = None"
      by (simp add: map_of_eq_None_iff)
    with 1 2(1) show ?case
      by (auto simp: update_conv' map_add_def fun_eq_iff split: option.split)
  next
    case 2
    with "2.IH"(2) show ?case
      by (simp add: distinct_update)
  }
qed simp_all

lemma Clone_refines [simp]: "ls_inv l \<Longrightarrow> abs_ls (Clone l) = abs_ls l" "ls_inv (Clone l)"
  using Clone_loop_refines(1) [of "labels l" "[]"] Clone_loop_refines(2) [of "[]" "labels l"] by (simp_all add: Clone_def ls_inv_def)

lemma buildAppName_refines:
  "ls_inv l \<Longrightarrow> names_map (buildAppName l scope version) (name_spec (abs_ls l) scope version)"
  unfolding names_map_def buildAppName_def name_spec_def
  by (intro exI [of _ "addDefaultLabel labelScopeVersion version (addDefaultLabel labelScopeName scope (Clone l))"])
     (simp flip: ls_inv_def)

lemma MergeTags_loop_refines:
  assumes "MergeTags_loop tags l = Inr l'" "distinct (map fst tags)" "ls_inv l"
  shows "abs_ls l' = over (abs_ls l) (map_of tags) \<and> ls_inv l'"
  using assms
proof (induction tags l rule: MergeTags_loop.induct)
  case (2 k v tags l)
  have k: "map_of tags k = None"
    using "2.prems"(2) by (simp add: map_of_eq_None_iff)
  show ?case
  proof (cases "k = ''__name__''")
    case True
    then show ?thesis
      using 2 k by (auto simp: over_def fun_eq_iff)
  next
    case False
    then have "abs_ls l' = over (abs_ls (Add k v l)) (map_of tags) \<and> ls_inv l'"
      using 2 by (simp split: option.splits)
    then show ?thesis
      using False k by (auto simp: over_def put_def fun_eq_iff split: option.split)
  qed
qed (simp add: over_def fun_eq_iff)

lemma MergeTags_loop_ok:
  "(\<exists>l'. MergeTags_loop tags l = Inr l') \<longleftrightarrow> (\<forall>k \<in> fst ` set tags. k = ''__name__'' \<or> ValidateLabelName k = None)"
  by (induction tags l rule: MergeTags_loop.induct) (auto split: option.splits)

lemma names_map_unique: "names_map s m \<Longrightarrow> names_map t m \<Longrightarrow> s = t"
  unfolding names_map_def by (metis Normalized_cong)

lemma merge_cases:
  assumes "MergeTagsWithAppName pool rt appName sid tags = Inr names"
  obtains l l1 where "Parse pool appName = Inr l" "MergeTags_loop tags l = Inr l1"
    "names = (let k = addDefaultLabel labelProcessRuntimeVersion (getRuntimeVersion rt)
          (addDefaultLabel labelProcessRuntimeName (getRuntimeName rt) (Add labelPyroscopeSessionID sid l1)) in
        \<lparr>SDK = buildAppName k scopeSDK (v_sdk (getScopeVersions rt)),
         Godeltaprof = buildAppName k scopeGodeltaprof (v_godeltaprof (getScopeVersions rt))\<rparr>)"
proof -
  obtain l where l: "Parse pool appName = Inr l"
    using assms by (cases "Parse pool appName") (simp_all add: MergeTagsWithAppName_def)
  obtain l1 where "MergeTags_loop tags l = Inr l1"
    using assms l by (cases "MergeTags_loop tags l") (simp_all add: MergeTagsWithAppName_def)
  with l show ?thesis
    using assms by (intro that [of l l1]) (simp_all add: MergeTagsWithAppName_def Let_def)
qed

lemma merge_names:
  assumes "MergeTagsWithAppName (Some p) rt appName sid tags = Inr names" "distinct (map fst tags)"
    and "Parse (Some p) appName = Inr l"
  shows "names_map (SDK names)
      (name_spec (merge_spec (abs_ls l) (map_of tags) sid rt) scopeSDK (v_sdk (getScopeVersions rt)))"
    "names_map (Godeltaprof names)
      (name_spec (merge_spec (abs_ls l) (map_of tags) sid rt) scopeGodeltaprof (v_godeltaprof (getScopeVersions rt)))"
proof -
  from assms(1) obtain l1 where "MergeTags_loop tags l = Inr l1" and n: "names =
      (let k = addDefaultLabel labelProcessRuntimeVersion (getRuntimeVersion rt)
          (addDefaultLabel labelProcessRuntimeName (getRuntimeName rt) (Add labelPyroscopeSessionID sid l1)) in
        \<lparr>SDK = buildAppName k scopeSDK (v_sdk (getScopeVersions rt)),
         Godeltaprof = buildAppName k scopeGodeltaprof (v_godeltaprof (getScopeVersions rt))\<rparr>)"
    using assms(3) by (elim merge_cases) auto
  moreover have "ls_inv l"
    using Parse_inv [OF assms(3)] by (simp add: parsed_def ls_inv_def)
  ultimately have i: "abs_ls l1 = over (abs_ls l) (map_of tags)" "ls_inv l1"
    using MergeTags_loop_refines assms(2) by blast+
  define k where "k = addDefaultLabel labelProcessRuntimeVersion (getRuntimeVersion rt)
    (addDefaultLabel labelProcessRuntimeName (getRuntimeName rt) (Add labelPyroscopeSessionID sid l1))"
  have "ls_inv k" "abs_ls k = merge_spec (abs_ls l) (map_of tags) sid rt"
    using i by (simp_all add: k_def merge_spec_def)
  then show "names_map (SDK names)
      (name_spec (merge_spec (abs_ls l) (map_of tags) sid rt) scopeSDK (v_sdk (getScopeVersions rt)))"
    "names_map (Godeltaprof names)
      (name_spec (merge_spec (abs_ls l) (map_of tags) sid rt) scopeGodeltaprof (v_godeltaprof (getScopeVersions rt)))"
    using buildAppName_refines [of k] by (simp_all add: n k_def [symmetric] Let_def)
qed

lemma merge_succeeds:
  "(\<exists>names. MergeTagsWithAppName pool rt appName sid tags = Inr names) \<longleftrightarrow>
   (\<exists>l. Parse pool appName = Inr l) \<and> (\<forall>k \<in> fst ` set tags. k = ''__name__'' \<or> ValidateLabelName k = None)"
proof (cases "Parse pool appName")
  case (Inr l)
  then show ?thesis
    using MergeTags_loop_ok [of tags l] by (auto simp: MergeTagsWithAppName_def Let_def split: sum.split)
qed (simp add: MergeTagsWithAppName_def)

section \<open>Properties\<close>

text \<open>
  C6. \<^verbatim>\<open>MergeTagsWithAppName\<close> implements its specification: it succeeds exactly
  when the application name parses and every tag name is valid or reserved, and then the two names are the canonical
  names of the merged map, in which a tag of the configuration replaces a tag of the name, an empty tag removes it, the
  session id replaces both, and the runtime and scope labels are only added where the user has set none.
\<close>

theorem merge_refines_spec:
  assumes "distinct (map fst tags)"
  shows "case MergeTagsWithAppName (Some p) rt appName sid tags of
      Inl e \<Rightarrow> Parse (Some p) appName = Inl e \<or> (\<exists>k \<in> fst ` set tags. k \<noteq> ''__name__'' \<and> ValidateLabelName k \<noteq> None)
    | Inr names \<Rightarrow> \<exists>l. Parse (Some p) appName = Inr l \<and>
        (\<forall>k \<in> fst ` set tags. k = ''__name__'' \<or> ValidateLabelName k = None) \<and>
        names_map (SDK names)
          (name_spec (merge_spec (map_of (labels l)) (map_of tags) sid rt) scopeSDK (v_sdk (getScopeVersions rt))) \<and>
        names_map (Godeltaprof names)
          (name_spec (merge_spec (map_of (labels l)) (map_of tags) sid rt) scopeGodeltaprof
            (v_godeltaprof (getScopeVersions rt)))"
proof (cases "MergeTagsWithAppName (Some p) rt appName sid tags")
  case (Inl e)
  then have "\<not> (\<exists>l. Parse (Some p) appName = Inr l) \<or>
      (\<exists>k \<in> fst ` set tags. k \<noteq> ''__name__'' \<and> ValidateLabelName k \<noteq> None)"
    using merge_succeeds [of "Some p" rt appName sid tags] by auto
  with Inl show ?thesis
    by (cases "Parse (Some p) appName") (auto simp: MergeTagsWithAppName_def)
next
  case (Inr names)
  then obtain l where l: "Parse (Some p) appName = Inr l"
    by (elim merge_cases)
  with Inr show ?thesis
    using merge_names [OF Inr assms l] merge_succeeds [of "Some p" rt appName sid tags] by auto
qed

text \<open>
  The names do not depend on the order in which the map of tags is iterated, nor on the
  pooled parser: a run over the same tags in another order succeeds with the same names.
\<close>

theorem merge_order_irrelevant:
  assumes "distinct (map fst tags)" and "mset tags = mset tags'"
    and "MergeTagsWithAppName (Some p) rt appName sid tags = Inr names"
  shows "MergeTagsWithAppName (Some p) rt appName sid tags' = Inr names"
proof -
  obtain l where l: "Parse (Some p) appName = Inr l"
    using assms(3) by (elim merge_cases)
  have s: "set tags = set tags'"
    using assms(2) by (rule mset_eq_setD)
  have d: "distinct (map fst tags')"
    using assms(1,2) mset_eq_imp_distinct_iff [of "map fst tags" "map fst tags'"] by simp
  have m: "map_of tags = map_of tags'"
    using assms(1) d s by (simp add: map_of_inject_set)
  obtain names' where n: "MergeTagsWithAppName (Some p) rt appName sid tags' = Inr names'"
    using assms(3) merge_succeeds [of "Some p" rt appName sid tags] merge_succeeds [of "Some p" rt appName sid tags'] s
    by auto
  have "SDK names' = SDK names" "Godeltaprof names' = Godeltaprof names"
    using merge_names [OF n d l] merge_names [OF assms(3,1) l] names_map_unique m by metis+
  with n show ?thesis
    by simp
qed

section \<open>The names parse back\<close>

definition good_map :: "label_map \<Rightarrow> bool" where
  "good_map m \<longleftrightarrow> (\<forall>k v. m k = Some v \<longrightarrow> label_ok (k, v))"

lemma good_map_put: "good_map m \<Longrightarrow> ValidateLabelName k = None \<Longrightarrow> label_value v \<Longrightarrow> good_map (put k v m)"
  by (simp add: good_map_def put_def label_ok_def)

lemma good_map_default: "good_map m \<Longrightarrow> ValidateLabelName k = None \<Longrightarrow> label_value v \<Longrightarrow> good_map (default_to k v m)"
  by (simp add: good_map_def default_to_def label_ok_def)

lemma good_map_over: "good_map m \<Longrightarrow> good_map tags \<Longrightarrow> good_map (over m tags)"
  by (auto simp: good_map_def over_def split: option.splits if_splits)

lemma label_names_valid:
  "ValidateLabelName labelScopeName = None" "ValidateLabelName labelScopeVersion = None"
  "ValidateLabelName labelProcessRuntimeName = None" "ValidateLabelName labelProcessRuntimeVersion = None"
  "ValidateLabelName labelPyroscopeSessionID = None"
  by (simp_all add: label_names ascii_names)

lemma name_kept:
  "merge_spec m tags sid rt ''__name__'' = m ''__name__''" "name_spec m scope version ''__name__'' = m ''__name__''"
  by (simp_all add: merge_spec_def name_spec_def default_to_def put_def over_def label_names)

lemma scope_values: "label_value scopeSDK" "label_value scopeGodeltaprof" "label_value ''go''"
  by (simp_all add: scopeSDK_def scopeGodeltaprof_def label_value_plain runes_of_ascii ascii_names)

lemma names_map_parses:
  assumes "names_map s m" "good_map m" "m ''__name__'' = Some n" "ValidateServiceName n = None"
  shows "\<exists>l. Parse (Some q) s = Inr l \<and> map_of (labels l) = m"
proof -
  obtain l where l: "distinct (map fst (labels l))" "abs_ls l = m" "s = Normalized l"
    using assms(1) unfolding names_map_def by blast
  have "ValidateLabelName k = None \<and> label_value (map_get (labels l) k)" if k: "k \<in> set (names_of (labels l))" for k
  proof -
    have "k \<in> dom (abs_ls l)"
      using k by (simp add: names_of_def dom_map_of_conv_image_fst)
    then obtain v where "m k = Some v"
      using l(2) by blast
    moreover have "k \<noteq> ''__name__''"
      using k by (simp add: names_of_def)
    ultimately show ?thesis
      using assms(2) l(2) by (auto simp: good_map_def label_ok_def map_get_def)
  qed
  then show ?thesis
    using Parse_Normalized_aux [OF l(1), of n q] assms(3,4) l(2,3) by auto
qed

text \<open>What the runtime reports can be written as label values.\<close>

definition runtime_values :: "runtime_info \<Rightarrow> bool" where
  "runtime_values rt \<longleftrightarrow> label_value (Compiler rt) \<and> label_value (Version rt) \<and>
     (case BuildInfo_Deps rt of None \<Rightarrow> True | Some deps \<Rightarrow> \<forall>d \<in> set deps. label_value (snd d))"

lemma label_value_Nil: "label_value []"
  by (simp add: label_value_ascii ascii_def)

lemma getScopeVersions_values:
  assumes "runtime_values rt"
  shows "label_value (v_sdk (getScopeVersions rt))" "label_value (v_godeltaprof (getScopeVersions rt))"
proof -
  have "\<forall>d \<in> set deps. label_value (snd d) \<Longrightarrow> label_value a \<Longrightarrow> label_value b \<Longrightarrow>
    label_value (v_sdk (getScopeVersions_loop deps a b)) \<and> label_value (v_godeltaprof (getScopeVersions_loop deps a b))"
    for deps a b
    by (induction deps a b rule: getScopeVersions_loop.induct) auto
  with assms show "label_value (v_sdk (getScopeVersions rt))" "label_value (v_godeltaprof (getScopeVersions rt))"
    by (cases "BuildInfo_Deps rt"; simp add: getScopeVersions_def runtime_values_def label_value_Nil)+
qed

lemma merge_spec_good:
  assumes "good_map m" "good_map tags" "label_value sid" "runtime_values rt"
  shows "good_map (merge_spec m tags sid rt)"
proof -
  have "label_value (getRuntimeName rt)" "label_value (getRuntimeVersion rt)"
    using assms(4) scope_values(3) by (simp_all add: getRuntimeName_def getRuntimeVersion_def runtime_values_def)
  then show ?thesis
    unfolding merge_spec_def
    using assms by (intro good_map_default good_map_put good_map_over label_names_valid)
qed

lemma merged_names_both:
  assumes "MergeTagsWithAppName (Some p) rt appName sid tags = Inr names"
    and "distinct (map fst tags)" and "\<forall>v \<in> snd ` set tags. label_value v"
    and "label_value sid" and "runtime_values rt"
    and "Parse (Some p) appName = Inr l" and "ValidateServiceName (ServiceName l) = None"
  shows "\<exists>a b. Parse (Some q) (SDK names) = Inr a \<and> Parse (Some q) (Godeltaprof names) = Inr b \<and>
    map_of (labels a) = name_spec (merge_spec (map_of (labels l)) (map_of tags) sid rt) scopeSDK (v_sdk (getScopeVersions rt)) \<and>
    map_of (labels b) = name_spec (merge_spec (map_of (labels l)) (map_of tags) sid rt) scopeGodeltaprof
      (v_godeltaprof (getScopeVersions rt))"
proof -
  obtain n where n: "abs_ls l ''__name__'' = Some n" "ValidateServiceName n = None"
    using Parse_inv [OF assms(6)] assms(7) by (auto simp: ServiceName_def map_get_def ReservedLabelNameName_def)
  have "good_map (abs_ls l)"
    using Parse_inv [OF assms(6)] by (auto simp: good_map_def parsed_def dest: map_of_SomeD)
  moreover have "good_map (map_of tags)"
    unfolding good_map_def
  proof (intro allI impI)
    fix k v assume "map_of tags k = Some v"
    then have "(k, v) \<in> set tags"
      by (rule map_of_SomeD)
    then show "label_ok (k, v)"
      using assms(1,3) merge_succeeds [of "Some p" rt appName sid tags] by (force simp: label_ok_def)
  qed
  ultimately have g: "good_map (merge_spec (abs_ls l) (map_of tags) sid rt)"
    using merge_spec_good assms(4,5) by blast
  note v = getScopeVersions_values [OF assms(5)]
  have "good_map (name_spec (merge_spec (abs_ls l) (map_of tags) sid rt) scope version)"
    if "label_value scope" "label_value version" for scope version
    unfolding name_spec_def using g that by (intro good_map_default label_names_valid)
  then show ?thesis
    using names_map_parses [OF merge_names(1) [OF assms(1,2,6)] _ _ n(2), of q]
      names_map_parses [OF merge_names(2) [OF assms(1,2,6)] _ _ n(2), of q] v scope_values n(1) name_kept
    by simp blast
qed

text \<open>
  C7. The receiver of a profile recovers the merged labels: when the values of the tags, the
  session id and what the runtime reports are label values and the name of the application is valid, both names parse,
  with any parser, to the map of the specification.
\<close>

theorem merged_names_parse:
  assumes "MergeTagsWithAppName (Some p) rt appName sid tags = Inr names"
    and "distinct (map fst tags)" and "\<forall>v \<in> snd ` set tags. label_value v"
    and "label_value sid" and "runtime_values rt"
    and "Parse (Some p) appName = Inr l" and "ValidateServiceName (ServiceName l) = None"
  shows "\<exists>a b. Parse (Some q) (SDK names) = Inr a \<and> Parse (Some q) (Godeltaprof names) = Inr b \<and>
    map_of (labels a) = name_spec (merge_spec (map_of (labels l)) (map_of tags) sid rt) scopeSDK (v_sdk (getScopeVersions rt)) \<and>
    map_of (labels b) = name_spec (merge_spec (map_of (labels l)) (map_of tags) sid rt) scopeGodeltaprof
      (v_godeltaprof (getScopeVersions rt))"
  by (rule merged_names_both [OF assms])

section \<open>Concrete inputs\<close>

definition example_rt_info :: runtime_info where
  "example_rt_info = \<lparr>Compiler = ''gc'', Version = ''go1.25'',
     BuildInfo_Deps = Some [(''github.com/grafana/pyroscope-go'', ''v1.2.8'')]\<rparr>"

lemma Parse_name_only:
  assumes "ValidateServiceName n = None"
  shows "Parse (Some p) n = Inr (New [(''__name__'', n)])"
  using name_part [OF assms, of "[]" p] by (simp add: Parse_def)

lemma example_app: "Parse (Some p) ''app'' = Inr (New [(''__name__'', ''app'')])"
  by (rule Parse_name_only) (simp add: ascii_names)

lemma example_merge:
  assumes "\<forall>k \<in> fst ` set tags. ValidateLabelName k = None"
  shows "\<exists>names. MergeTagsWithAppName (Some p) rt ''app'' sid tags = Inr names"
  using assms merge_succeeds [of "Some p" rt "''app''" sid tags] by (simp add: example_app)

theorem merge_refines_spec_witness:
  "\<exists>names. MergeTagsWithAppName (Some parserPool_New) example_rt_info ''app'' ''s1'' [(''a'', ''1'')] = Inr names \<and>
     names_map (SDK names) (name_spec (merge_spec (map_of [(''__name__'', ''app'')]) (map_of [(''a'', ''1'')]) ''s1'' example_rt_info)
       scopeSDK ''v1.2.8'')"
proof -
  obtain names where n: "MergeTagsWithAppName (Some parserPool_New) example_rt_info ''app'' ''s1'' [(''a'', ''1'')] = Inr names"
    using example_merge [of "[(''a'', ''1'')]" parserPool_New example_rt_info "''s1''"] by (auto simp: ascii_names)
  have v: "v_sdk (getScopeVersions example_rt_info) = ''v1.2.8''"
    by code_simp
  show ?thesis
    using merge_refines_spec [of "[(''a'', ''1'')]" parserPool_New "''app''" "''s1''" example_rt_info] n
    by (auto simp: example_app New_def v)
qed

theorem merge_order_irrelevant_witness:
  "\<exists>names. MergeTagsWithAppName (Some parserPool_New) example_rt_info ''app'' ''s1'' [(''a'', ''1''), (''b'', ''2'')] = Inr names \<and>
     MergeTagsWithAppName (Some parserPool_New) example_rt_info ''app'' ''s1'' [(''b'', ''2''), (''a'', ''1'')] = Inr names"
proof -
  obtain names where n: "MergeTagsWithAppName (Some parserPool_New) example_rt_info ''app'' ''s1'' [(''a'', ''1''), (''b'', ''2'')] = Inr names"
    using example_merge [of "[(''a'', ''1''), (''b'', ''2'')]" parserPool_New example_rt_info "''s1''"] by (auto simp: ascii_names)
  have "MergeTagsWithAppName (Some parserPool_New) example_rt_info ''app'' ''s1'' [(''b'', ''2''), (''a'', ''1'')] = Inr names"
    by (rule merge_order_irrelevant [OF _ _ n]) simp_all
  with n show ?thesis
    by blast
qed

lemma default_to_get:
  "default_to k v m j = (if j = k \<and> v \<noteq> [] \<and> m k = None then Some v else m j)"
  by (simp add: default_to_def)

lemma put_get: "put k v m j = (if j = k then if v = [] then None else Some v else m j)"
  by (simp add: put_def)

lemma example_runtime_name: "getRuntimeName example_rt_info = ''go''"
  by (simp add: getRuntimeName_def example_rt_info_def)

theorem merged_names_parse_witness:
  "\<exists>names a. MergeTagsWithAppName (Some parserPool_New) example_rt_info ''app'' ''s1'' [(''a'', ''1'')] = Inr names \<and>
     Parse (Some parserPool_New) (SDK names) = Inr a \<and> map_of (labels a) ''a'' = Some ''1'' \<and>
     map_of (labels a) ''process.runtime.name'' = Some ''go'' \<and> map_of (labels a) ''__session_id__'' = Some ''s1''"
proof -
  obtain names where n: "MergeTagsWithAppName (Some parserPool_New) example_rt_info ''app'' ''s1'' [(''a'', ''1'')] = Inr names"
    using example_merge [of "[(''a'', ''1'')]" parserPool_New example_rt_info "''s1''"] by (auto simp: ascii_names)
  have "\<exists>a b. Parse (Some parserPool_New) (SDK names) = Inr a \<and> Parse (Some parserPool_New) (Godeltaprof names) = Inr b \<and>
    map_of (labels a) = name_spec (merge_spec (map_of (labels (New [(''__name__'', ''app'')]))) (map_of [(''a'', ''1'')]) ''s1'' example_rt_info) scopeSDK (v_sdk (getScopeVersions example_rt_info)) \<and>
    map_of (labels b) = name_spec (merge_spec (map_of (labels (New [(''__name__'', ''app'')]))) (map_of [(''a'', ''1'')]) ''s1'' example_rt_info) scopeGodeltaprof
      (v_godeltaprof (getScopeVersions example_rt_info))"
    by (rule merged_names_parse [OF n])
       (simp_all add: example_app example_rt_info_def runtime_values_def label_value_ascii is_space_def ascii_names
          ServiceName_def map_get_def New_def ReservedLabelNameName_def)
  then obtain a where a: "Parse (Some parserPool_New) (SDK names) = Inr a"
    "map_of (labels a) = name_spec (merge_spec (map_of (labels (New [(''__name__'', ''app'')]))) (map_of [(''a'', ''1'')]) ''s1'' example_rt_info) scopeSDK (v_sdk (getScopeVersions example_rt_info))"
    by blast
  have "map_of (labels a) ''a'' = Some ''1''" "map_of (labels a) ''process.runtime.name'' = Some ''go''"
    "map_of (labels a) ''__session_id__'' = Some ''s1''"
    unfolding a(2) name_spec_def merge_spec_def
    by (simp_all add: default_to_get put_get over_def label_names New_def example_runtime_name)
  with n a(1) show ?thesis
    by blast
qed

text \<open>
  The value of a tag is neither validated nor escaped: a comma in a value makes it another
  label.  The tags \<^verbatim>\<open>{a: "1,b=2"}\<close> and \<^verbatim>\<open>{a: "1", b: "2"}\<close> give the same
  application names.
\<close>

theorem tag_value_injection:
  "\<exists>names. MergeTagsWithAppName (Some p) example_rt_info ''app'' ''s1'' [(''a'', ''1,b=2'')] = Inr names \<and>
     MergeTagsWithAppName (Some p) example_rt_info ''app'' ''s1'' [(''a'', ''1''), (''b'', ''2'')] = Inr names"
proof -
  have v: "ValidateLabelName ''a'' = None" "ValidateLabelName ''b'' = None"
    by (simp_all add: ascii_names)
  let ?k = "\<lambda>l. addDefaultLabel labelProcessRuntimeVersion (getRuntimeVersion example_rt_info)
     (addDefaultLabel labelProcessRuntimeName (getRuntimeName example_rt_info) (Add labelPyroscopeSessionID ''s1'' l))"
  let ?a = "?k (New [(''__name__'', ''app''), (''a'', ''1,b=2'')])"
  let ?b = "?k (New [(''__name__'', ''app''), (''a'', ''1''), (''b'', ''2'')])"
  have "buildAppName ?a scopeSDK (v_sdk (getScopeVersions example_rt_info)) =
      buildAppName ?b scopeSDK (v_sdk (getScopeVersions example_rt_info))"
    by code_simp
  moreover have "buildAppName ?a scopeGodeltaprof (v_godeltaprof (getScopeVersions example_rt_info)) =
      buildAppName ?b scopeGodeltaprof (v_godeltaprof (getScopeVersions example_rt_info))"
    by code_simp
  ultimately show ?thesis
    using v by (simp add: MergeTagsWithAppName_def example_app Let_def New_def Add_def)
qed

end
