(* ===== verification/Upstream.thy ===== *)
theory Upstream
  imports Prelude
begin

text \<open>
  The data that the parts of the client exchange: upload jobs (\<^verbatim>\<open>upstream/upstream.go\<close>), profile
  types (\<^verbatim>\<open>types.go\<close>) and the sample type configurations (\<^verbatim>\<open>sample_types.go\<close>).
  A \<^verbatim>\<open>time.Time\<close> is a number of nanoseconds; where the code tests for the zero time, it is an option.
  A \<^verbatim>\<open>time.Duration\<close> is an integer.
\<close>

type_synonym time = int

definition Second :: int where
  "Second = 1000000000"

record SampleType =
  st_Units :: string
  st_Aggregation :: string
  st_DisplayName :: string
  st_Sampled :: bool
  st_Cumulative :: bool

definition FormatPprof :: string where
  "FormatPprof = ''pprof''"

record UploadJob =
  uj_Name :: string
  uj_StartTime :: time
  uj_EndTime :: time
  uj_SpyName :: string
  uj_SampleRate :: nat
  uj_Units :: string
  uj_AggregationType :: string
  uj_Format :: string
  uj_Profile :: "u8 list"
  uj_PrevProfile :: "u8 list"
  uj_SampleTypeConfig :: "(string \<times> SampleType) list option"

text \<open>A job with the zero value in every field.\<close>

definition zero_job :: UploadJob where
  "zero_job = \<lparr>uj_Name = [], uj_StartTime = 0, uj_EndTime = 0, uj_SpyName = [], uj_SampleRate = 0, uj_Units = [],
     uj_AggregationType = [], uj_Format = [], uj_Profile = [], uj_PrevProfile = [], uj_SampleTypeConfig = None\<rparr>"

definition zero_SampleType :: SampleType where
  "zero_SampleType = \<lparr>st_Units = [], st_Aggregation = [], st_DisplayName = [], st_Sampled = False, st_Cumulative = False\<rparr>"

section \<open>Profile types\<close>

type_synonym ProfileType = string

definition ProfileCPU :: ProfileType where "ProfileCPU = ''cpu''"
definition ProfileInuseObjects :: ProfileType where "ProfileInuseObjects = ''inuse_objects''"
definition ProfileAllocObjects :: ProfileType where "ProfileAllocObjects = ''alloc_objects''"
definition ProfileInuseSpace :: ProfileType where "ProfileInuseSpace = ''inuse_space''"
definition ProfileAllocSpace :: ProfileType where "ProfileAllocSpace = ''alloc_space''"
definition ProfileGoroutines :: ProfileType where "ProfileGoroutines = ''goroutines''"
definition ProfileMutexCount :: ProfileType where "ProfileMutexCount = ''mutex_count''"
definition ProfileMutexDuration :: ProfileType where "ProfileMutexDuration = ''mutex_duration''"
definition ProfileBlockCount :: ProfileType where "ProfileBlockCount = ''block_count''"
definition ProfileBlockDuration :: ProfileType where "ProfileBlockDuration = ''block_duration''"
definition ProfileGoroutineLeak :: ProfileType where "ProfileGoroutineLeak = ''goroutine_leak''"

definition DefaultSampleRate :: nat where
  "DefaultSampleRate = 100"

definition DefaultProfileTypes :: "ProfileType list" where
  "DefaultProfileTypes = [ProfileCPU, ProfileAllocObjects, ProfileAllocSpace, ProfileInuseObjects, ProfileInuseSpace]"

lemmas profile_types = ProfileCPU_def ProfileInuseObjects_def ProfileAllocObjects_def ProfileInuseSpace_def
  ProfileAllocSpace_def ProfileGoroutines_def ProfileMutexCount_def ProfileMutexDuration_def ProfileBlockCount_def
  ProfileBlockDuration_def ProfileGoroutineLeak_def

section \<open>Sample type configurations\<close>

definition sampleTypeConfigHeap :: "(string \<times> SampleType) list" where
  "sampleTypeConfigHeap =
     [(''alloc_objects'', zero_SampleType\<lparr>st_Units := ''objects'', st_Cumulative := False\<rparr>),
      (''alloc_space'', zero_SampleType\<lparr>st_Units := ''bytes'', st_Cumulative := False\<rparr>),
      (''inuse_space'', zero_SampleType\<lparr>st_Units := ''bytes'', st_Aggregation := ''average'', st_Cumulative := False\<rparr>),
      (''inuse_objects'', zero_SampleType\<lparr>st_Units := ''objects'', st_Aggregation := ''average'', st_Cumulative := False\<rparr>)]"

definition sampleTypeConfigMutex :: "(string \<times> SampleType) list" where
  "sampleTypeConfigMutex =
     [(''contentions'', zero_SampleType\<lparr>st_DisplayName := ''mutex_count'', st_Units := ''lock_samples'', st_Cumulative := False\<rparr>),
      (''delay'', zero_SampleType\<lparr>st_DisplayName := ''mutex_duration'', st_Units := ''lock_nanoseconds'', st_Cumulative := False\<rparr>)]"

definition sampleTypeConfigBlock :: "(string \<times> SampleType) list" where
  "sampleTypeConfigBlock =
     [(''contentions'', zero_SampleType\<lparr>st_DisplayName := ''block_count'', st_Units := ''lock_samples'', st_Cumulative := False\<rparr>),
      (''delay'', zero_SampleType\<lparr>st_DisplayName := ''block_duration'', st_Units := ''lock_nanoseconds'', st_Cumulative := False\<rparr>)]"

definition sampleTypeConfigGoroutineLeak :: "(string \<times> SampleType) list" where
  "sampleTypeConfigGoroutineLeak =
     [(''goroutineleak'', zero_SampleType\<lparr>st_DisplayName := ''goroutine_leak'', st_Units := ''goroutines'', st_Aggregation := ''average''\<rparr>)]"

end
