(* ===== verification/CpuCollector.thy ===== *)
theory CpuCollector
  imports Upstream
begin

text \<open>
  CPU profiling: \<^verbatim>\<open>collector.go\<close> and the switch of \<^verbatim>\<open>internal/pprof\<close>.

  The process has one CPU profiler, that of Go's \<^verbatim>\<open>runtime/pprof\<close>.  It is off, or on with a writer
  that receives the whole profile when it is stopped.  The default collector of \<^verbatim>\<open>internal/pprof\<close> is
  this profiler; any other code of the process may use it at any moment too.  The background collector is a
  goroutine that serves ticks, events and a halt; a step of its loop is a function on the state of the collector and
  the process, with the readings of the clock, the bytes of a finished profile and the interference of other
  goroutines as inputs.
\<close>

section \<open>The process\<close>

text \<open>Where a running CPU profile is written: the buffer of the collector, a foreground writer, or both.\<close>

record dest =
  to_buf :: bool
  to_writer :: "nat option"

text \<open>\<open>history\<close> records the profiles that were written, in order; no function reads it.\<close>

record process =
  cpu :: "dest option"
  buf :: "u8 list"
  writers :: "nat \<Rightarrow> u8 list"
  uploads :: "UploadJob list"
  history :: "(dest \<times> u8 list) list"

datatype cpu_error = errCPUInUse | errAlreadyStarted | errFlushRejected

definition write_dest :: "dest \<Rightarrow> u8 list \<Rightarrow> process \<Rightarrow> process" where
  "write_dest d data s =
     s\<lparr>buf := (if to_buf d then buf s @ data else buf s),
       writers := (case to_writer d of None \<Rightarrow> writers s | Some w \<Rightarrow> (writers s)(w := writers s w @ data))\<rparr>"

text \<open>
  \<^verbatim>\<open>pprof.StartCPUProfile\<close> fails when the profiler is on.  \<^verbatim>\<open>pprof.StopCPUProfile\<close> does nothing
  when it is off, and otherwise writes the profile, whoever started it.
\<close>

definition default_StartCPUProfile :: "dest \<Rightarrow> process \<Rightarrow> process \<times> cpu_error option" where
  "default_StartCPUProfile d s =
     (case cpu s of None \<Rightarrow> (s\<lparr>cpu := Some d\<rparr>, None) | Some _ \<Rightarrow> (s, Some errCPUInUse))"

definition default_StopCPUProfile :: "u8 list \<Rightarrow> process \<Rightarrow> process" where
  "default_StopCPUProfile data s =
     (case cpu s of None \<Rightarrow> s | Some d \<Rightarrow> (write_dest d data s)\<lparr>cpu := None, history := history s @ [(d, data)]\<rparr>)"

section \<open>The collector\<close>

text \<open>\<open>timeStarted\<close> is \<^const>\<open>None\<close> for the zero time.  \<open>ticker\<close> is the period of the loop's ticker.\<close>

record cpuProfileCollector =
  cc_name :: string
  dur :: int
  timeStarted :: "time option"
  started :: bool
  ticker :: int
  halted :: bool
  finished :: bool

definition newCPUProfileCollector :: "string \<Rightarrow> int \<Rightarrow> cpuProfileCollector" where
  "newCPUProfileCollector name period =
     \<lparr>cc_name = name, dur = period, timeStarted = None, started = False, ticker = 0, halted = False, finished = False\<rparr>"

type_synonym cstate = "cpuProfileCollector \<times> process"

text \<open>
  The inputs of one reset: the bytes of the profile that is stopped, the two readings of the clock, and a foreign
  writer when another goroutine calls \<^verbatim>\<open>pprof.StartCPUProfile\<close> between the stop and the start.
\<close>

record reset_env =
  r_data :: "u8 list"
  r_end :: time
  r_now :: time
  r_race :: "nat option"

definition upload :: "time \<Rightarrow> cstate \<Rightarrow> cstate" where
  "upload now = (\<lambda>(c, s).
     case timeStarted c of
       None \<Rightarrow> (c, s)
     | Some t \<Rightarrow>
         if length (buf s) = 0 then (c, s)
         else (c, s\<lparr>uploads := uploads s @ [zero_job\<lparr>uj_Name := cc_name c, uj_StartTime := t, uj_EndTime := now,
                      uj_SpyName := ''gospy'', uj_SampleRate := DefaultSampleRate, uj_Units := ''samples'',
                      uj_AggregationType := ''sum'', uj_Format := FormatPprof, uj_Profile := buf s\<rparr>],
                    buf := []\<rparr>))"

definition foreign_start :: "nat option \<Rightarrow> process \<Rightarrow> process" where
  "foreign_start w s =
     (case w of None \<Rightarrow> s | Some x \<Rightarrow> fst (default_StartCPUProfile \<lparr>to_buf = False, to_writer = Some x\<rparr> s))"

definition cc_reset :: "reset_env \<Rightarrow> nat option \<Rightarrow> cstate \<Rightarrow> cstate \<times> cpu_error option" where
  "cc_reset env w = (\<lambda>(c, s).
     let (c, s) = upload (r_end env) (c, default_StopCPUProfile (r_data env) s);
         d = \<lparr>to_buf = True, to_writer = w\<rparr>;
         c = c\<lparr>timeStarted := Some (r_now env)\<rparr> in
     case default_StartCPUProfile d (foreign_start (r_race env) s) of
       (s, Some e) \<Rightarrow> ((c\<lparr>timeStarted := None\<rparr>, s\<lparr>buf := []\<rparr>), Some e)
     | (s, None) \<Rightarrow> ((c, s), None))"

datatype eventType = startEvent | stopEvent | flushEvent

record event =
  ev_typ :: eventType
  ev_w :: "nat option"

definition newEvent :: "eventType \<Rightarrow> event" where
  "newEvent t = \<lparr>ev_typ = t, ev_w = None\<rparr>"

definition newStartEvent :: "nat \<Rightarrow> event" where
  "newStartEvent w = (newEvent startEvent)\<lparr>ev_w := Some w\<rparr>"

text \<open>\<^verbatim>\<open>handleEvent\<close> returns what it sends on the channel of the event.\<close>

definition handleEvent :: "reset_env \<Rightarrow> event \<Rightarrow> cstate \<Rightarrow> cstate \<times> cpu_error option" where
  "handleEvent env e = (\<lambda>(c, s).
     case ev_typ e of
       startEvent \<Rightarrow>
         if started c then ((c, s), Some errAlreadyStarted)
         else (case cc_reset env (ev_w e) (c, s) of
                 ((c, s), err) \<Rightarrow> ((c\<lparr>started := (err = None)\<rparr>, s), err))
     | stopEvent \<Rightarrow>
         if started c then
           (case cc_reset env None (c, s) of ((c, s), err) \<Rightarrow> ((c\<lparr>started := False\<rparr>, s), err))
         else ((c, s), None)
     | flushEvent \<Rightarrow>
         if started c then ((c, s), Some errFlushRejected)
         else cc_reset env None (c, s))"

definition cc_StartCPUProfile :: "reset_env \<Rightarrow> nat \<Rightarrow> cstate \<Rightarrow> cstate \<times> cpu_error option" where
  "cc_StartCPUProfile env w = handleEvent env (newStartEvent w)"

definition cc_StopCPUProfile :: "reset_env \<Rightarrow> cstate \<Rightarrow> cstate" where
  "cc_StopCPUProfile env st = fst (handleEvent env (newEvent stopEvent) st)"

definition cc_Flush :: "reset_env \<Rightarrow> cstate \<Rightarrow> cstate \<times> cpu_error option" where
  "cc_Flush env = handleEvent env (newEvent flushEvent)"

text \<open>
  \<^verbatim>\<open>n.Sub(c.timeStarted)\<close> saturates at the largest duration, which is what it gives for the zero time.
\<close>

definition maxDuration :: int where
  "maxDuration = 2 ^ 63 - 1"

definition Sub :: "time \<Rightarrow> time option \<Rightarrow> int" where
  "Sub n t = (case t of None \<Rightarrow> maxDuration | Some t \<Rightarrow> max (- (2 ^ 63)) (min maxDuration (n - t)))"

text \<open>\<^verbatim>\<open>Ticker.Reset\<close> panics on a duration that is not positive; \<^const>\<open>None\<close> is the panic.\<close>

definition ticker_Reset :: "int \<Rightarrow> cpuProfileCollector \<Rightarrow> cpuProfileCollector option" where
  "ticker_Reset d c = (if d \<le> 0 then None else Some (c\<lparr>ticker := d\<rparr>))"

definition cc_init :: "reset_env \<Rightarrow> cstate \<Rightarrow> cstate option" where
  "cc_init env = (\<lambda>(c, s).
     case ticker_Reset (dur c) c of
       None \<Rightarrow> None
     | Some c \<Rightarrow> Some (fst (cc_reset env None (c, s))))"

definition cc_tick :: "reset_env \<Rightarrow> time \<Rightarrow> cstate \<Rightarrow> cstate option" where
  "cc_tick env n = (\<lambda>(c, s).
     let d = Sub n (timeStarted c) in
     if d < dur c then
       (case ticker_Reset (if d < 0 then dur c else d) c of None \<Rightarrow> None | Some c \<Rightarrow> Some (c, s))
     else
       case ticker_Reset (dur c) c of
         None \<Rightarrow> None
       | Some c \<Rightarrow> if \<not> started c then Some (fst (cc_reset env None (c, s))) else Some (c, s))"

text \<open>The halt case of the loop: with a foreground profile in progress it only stops the ticker.\<close>

definition cc_halt :: "u8 list \<Rightarrow> time \<Rightarrow> cstate \<Rightarrow> cstate" where
  "cc_halt data now = (\<lambda>(c, s).
     let c = c\<lparr>ticker := 0\<rparr> in
     if started c then (c, s)
     else (case upload now (c, default_StopCPUProfile data s) of (c, s) \<Rightarrow> (c\<lparr>finished := True\<rparr>, s)))"

section \<open>Runs\<close>

text \<open>
  What can happen to the collector and the profiler of the process: a tick, an event, a call of
  \<^verbatim>\<open>Stop\<close> that closes the halt channel, the halt case of the loop, and other code of the process that
  starts or stops the profiler.
\<close>

inductive cstep :: "cstate \<Rightarrow> cstate \<Rightarrow> bool" where
  tick: "\<not> finished c \<Longrightarrow> cc_tick env n (c, s) = Some st \<Longrightarrow> cstep (c, s) st"
| event: "\<not> finished c \<Longrightarrow> cstep (c, s) (fst (handleEvent env e (c, s)))"
| stop: "cstep (c, s) (c\<lparr>halted := True\<rparr>, s)"
| halt: "\<not> finished c \<Longrightarrow> halted c \<Longrightarrow> cstep (c, s) (cc_halt data now (c, s))"
| foreign_start: "cstep (c, s) (c, CpuCollector.foreign_start w s)"
| foreign_stop: "cstep (c, s) (c, default_StopCPUProfile data s)"

inductive creachable :: "cstate \<Rightarrow> cstate \<Rightarrow> bool" for st0 where
  init: "cc_init env st0 = Some st \<Longrightarrow> creachable st0 st"
| step: "creachable st0 st \<Longrightarrow> cstep st st' \<Longrightarrow> creachable st0 st'"

text \<open>The profiles in the buffer that have not been uploaded.\<close>

definition pending :: "u8 list \<Rightarrow> u8 list list" where
  "pending b = (if b = [] then [] else [b])"

definition collected :: "(dest \<times> u8 list) list \<Rightarrow> u8 list list" where
  "collected h = filter (\<lambda>p. p \<noteq> []) (map snd (filter (\<lambda>e. to_buf (fst e)) h))"

definition received :: "nat \<Rightarrow> (dest \<times> u8 list) list \<Rightarrow> u8 list" where
  "received w h = concat (map snd (filter (\<lambda>e. to_writer (fst e) = Some w) h))"

definition process_inv :: "process \<Rightarrow> bool" where
  "process_inv s \<longleftrightarrow>
     (\<forall>d. cpu s = Some d \<longrightarrow> to_buf d \<longrightarrow> buf s = []) \<and>
     map uj_Profile (uploads s) @ pending (buf s) = collected (history s) \<and>
     (\<forall>w. writers s w = received w (history s))"

definition cc_inv :: "cstate \<Rightarrow> bool" where
  "cc_inv = (\<lambda>(c, s). process_inv s \<and>
     (timeStarted c = None \<longrightarrow> buf s = [] \<and> (\<forall>d. cpu s = Some d \<longrightarrow> \<not> to_buf d)) \<and>
     (finished c \<longrightarrow> buf s = [] \<and> (\<forall>d. cpu s = Some d \<longrightarrow> \<not> to_buf d)))"

definition quiet :: "process \<Rightarrow> bool" where
  "quiet s \<longleftrightarrow> buf s = [] \<and> (\<forall>d. cpu s = Some d \<longrightarrow> \<not> to_buf d)"

lemma collected_snoc: "collected (h @ [(d, p)]) = collected h @ (if to_buf d \<and> p \<noteq> [] then [p] else [])"
  by (simp add: collected_def)

lemma received_snoc: "received w (h @ [(d, p)]) = received w h @ (if to_writer d = Some w then p else [])"
  by (simp add: received_def)

lemma pending_append: "b = [] \<Longrightarrow> pending (b @ p) = (if p = [] then [] else [p])"
  by (simp add: pending_def)

lemma stop_cpu [simp]: "cpu (default_StopCPUProfile data s) = None"
  by (simp add: default_StopCPUProfile_def split: option.split)

lemma stop_inv: "process_inv s \<Longrightarrow> process_inv (default_StopCPUProfile data s)"
  by (auto simp: process_inv_def default_StopCPUProfile_def write_dest_def collected_snoc received_snoc pending_append
      split: option.split) (simp_all add: pending_def)

lemma stop_quiet: "quiet s \<Longrightarrow> quiet (default_StopCPUProfile data s)"
  by (auto simp: quiet_def default_StopCPUProfile_def write_dest_def split: option.split)

lemma foreign_start_inv [simp]:
  "process_inv s \<Longrightarrow> process_inv (foreign_start w s)" "quiet s \<Longrightarrow> quiet (foreign_start w s)"
  "buf (foreign_start w s) = buf s"
  by (auto simp: foreign_start_def default_StartCPUProfile_def process_inv_def quiet_def split: option.split)

lemma cc_inv_alt:
  "cc_inv (c, s) \<longleftrightarrow> process_inv s \<and> (timeStarted c = None \<longrightarrow> quiet s) \<and> (finished c \<longrightarrow> quiet s)"
  by (auto simp: cc_inv_def quiet_def)

text \<open>After an upload the buffer is empty, and nothing was lost.\<close>

lemma upload_inv:
  assumes "cc_inv (c, s)" "upload now (c, s) = (c', s')" "cpu s = None"
  shows "c' = c \<and> process_inv s' \<and> quiet s'"
  using assms
  by (auto simp: upload_def cc_inv_alt process_inv_def quiet_def pending_def split: option.splits if_splits)

lemma cc_inv_stop: "cc_inv (c, s) \<Longrightarrow> cc_inv (c, default_StopCPUProfile data s)"
  by (simp add: cc_inv_alt stop_inv stop_quiet)

lemma cc_reset_cases:
  assumes "cc_inv (c, s)" "cc_reset env w (c, s) = ((c', s'), err)"
  obtains (ok) s1 where "err = None" "process_inv s1" "quiet s1" "cpu s1 = None"
      "c' = c\<lparr>timeStarted := Some (r_now env)\<rparr>" "s' = s1\<lparr>cpu := Some \<lparr>to_buf = True, to_writer = w\<rparr>\<rparr>"
  | (failed) e where "err = Some e" "process_inv s'" "quiet s'" "c' = c\<lparr>timeStarted := None\<rparr>"
proof -
  obtain s1 where u: "upload (r_end env) (c, default_StopCPUProfile (r_data env) s) = (c, s1)" "process_inv s1" "quiet s1"
    using upload_inv [OF cc_inv_stop [OF assms(1)]] by (metis prod.exhaust stop_cpu)
  let ?s = "foreign_start (r_race env) s1"
  have i: "process_inv ?s" "quiet ?s"
    using u by simp_all
  show ?thesis
  proof (cases "cpu ?s")
    case None
    then show ?thesis
      using assms(2) u i ok [of ?s] by (auto simp: cc_reset_def default_StartCPUProfile_def)
  next
    case (Some d)
    then have "?s\<lparr>buf := []\<rparr> = ?s"
      using i(2) by (simp add: quiet_def)
    then show ?thesis
      using Some assms(2) u i failed by (auto simp: cc_reset_def default_StartCPUProfile_def)
  qed
qed

lemma cc_reset_inv:
  assumes "cc_inv (c, s)" "\<not> finished c"
  shows "cc_inv (fst (cc_reset env w (c, s)))"
proof -
  obtain c' s' err where r: "cc_reset env w (c, s) = ((c', s'), err)"
    by (metis prod.exhaust)
  have "cc_inv (c', s')"
    using assms(2) by (cases rule: cc_reset_cases [OF assms(1) r]) (auto simp: cc_inv_alt process_inv_def quiet_def)
  then show ?thesis
    by (simp add: r)
qed

lemma cc_inv_upd [simp]: "cc_inv (c\<lparr>started := b\<rparr>, s) = cc_inv (c, s)" "cc_inv (c\<lparr>ticker := d\<rparr>, s) = cc_inv (c, s)"
    "cc_inv (c\<lparr>halted := b\<rparr>, s) = cc_inv (c, s)"
  by (simp_all add: cc_inv_alt)

lemma handleEvent_inv:
  assumes "cc_inv (c, s)" "\<not> finished c"
  shows "cc_inv (fst (handleEvent env e (c, s)))"
proof -
  have "cc_inv (fst (cc_reset env w (c, s)))" for w
    by (rule cc_reset_inv [OF assms])
  from this [of None] this [of "ev_w e"] show ?thesis
    using assms by (cases "ev_typ e") (auto simp: handleEvent_def split: prod.splits)
qed

lemma cc_tick_inv:
  assumes "cc_inv (c, s)" "\<not> finished c" "cc_tick env n (c, s) = Some st"
  shows "cc_inv st"
  using assms cc_reset_inv [of "c\<lparr>ticker := dur c\<rparr>" s env None]
  by (auto simp: cc_tick_def ticker_Reset_def Let_def split: if_splits)

lemma cc_halt_inv:
  assumes "cc_inv (c, s)"
  shows "cc_inv (cc_halt data now (c, s))"
proof -
  obtain c' s' where u: "upload now (c\<lparr>ticker := 0\<rparr>, default_StopCPUProfile data s) = (c', s')"
    by force
  have "c' = c\<lparr>ticker := 0\<rparr> \<and> process_inv s' \<and> quiet s'"
    using upload_inv [OF _ u] cc_inv_stop [of "c\<lparr>ticker := 0\<rparr>" s data] assms by simp
  then show ?thesis
    using assms u by (auto simp: cc_halt_def Let_def cc_inv_alt)
qed

lemma cc_inv_foreign_start: "cc_inv (c, s) \<Longrightarrow> cc_inv (c, foreign_start w s)"
  by (simp add: cc_inv_alt)

lemma cstep_inv: "cstep st st' \<Longrightarrow> cc_inv st \<Longrightarrow> cc_inv st'"
proof (induction rule: cstep.induct)
  case (tick c env n s st)
  then show ?case
    by (blast intro: cc_tick_inv)
qed (simp_all add: handleEvent_inv cc_halt_inv cc_inv_stop cc_inv_foreign_start)

lemma creachable_inv:
  assumes "creachable (c, s) st" "cc_inv (c, s)" "\<not> finished c"
  shows "cc_inv st"
  using assms(1)
proof induction
  case (init env st)
  then show ?case
    using cc_reset_inv [of "c\<lparr>ticker := dur c\<rparr>" s env None] assms(2,3)
    by (auto simp: cc_init_def ticker_Reset_def split: if_splits)
qed (rule cstep_inv)

section \<open>Properties\<close>

text \<open>A process in which nothing was collected yet; a foreign profile may be running.\<close>

definition fresh_process :: "nat option \<Rightarrow> process" where
  "fresh_process foreign =
     \<lparr>cpu = map_option (\<lambda>x. \<lparr>to_buf = False, to_writer = Some x\<rparr>) foreign, buf = [], writers = (\<lambda>_. []),
      uploads = [], history = []\<rparr>"

lemma fresh_inv: "cc_inv (newCPUProfileCollector name d, fresh_process f)"
  by (auto simp: cc_inv_alt newCPUProfileCollector_def fresh_process_def process_inv_def quiet_def pending_def
      collected_def received_def)

lemma fresh_reachable_inv: "creachable (newCPUProfileCollector name d, fresh_process f) st \<Longrightarrow> cc_inv st"
  by (rule creachable_inv [OF _ fresh_inv]) (simp_all add: newCPUProfileCollector_def)

text \<open>
  C8. Every CPU profile that the collector took is uploaded once and whole: in any state the
  collector can reach, whatever ticks, events, halts and foreign uses of the profiler happened, the profiles uploaded so
  far, followed by the one that waits in the buffer, are exactly the non-empty profiles written to the buffer, in order
  and never merged; every foreground writer has received exactly the profiles started for it; and when the loop has
  ended nothing waits.
\<close>

theorem collector_uploads_exact:
  assumes "creachable (newCPUProfileCollector name d, fresh_process f) (c, s)"
  shows "map uj_Profile (uploads s) @ pending (buf s) = collected (history s) \<and>
    (\<forall>w. writers s w = received w (history s)) \<and>
    (finished c \<longrightarrow> map uj_Profile (uploads s) = collected (history s))"
  using fresh_reachable_inv [OF assms] by (auto simp: cc_inv_def process_inv_def pending_def)

text \<open>The steps that may happen between the start and the stop of a foreground profile.\<close>

inductive fg_step :: "cstate \<Rightarrow> cstate \<Rightarrow> bool" where
  tick: "cc_tick env n (c, s) = Some st \<Longrightarrow> fg_step (c, s) st"
| event: "ev_typ e \<noteq> stopEvent \<Longrightarrow> fg_step (c, s) (fst (handleEvent env e (c, s)))"
| stop: "fg_step (c, s) (c\<lparr>halted := True\<rparr>, s)"
| halt: "fg_step (c, s) (cc_halt data now (c, s))"
| foreign_start: "fg_step (c, s) (c, CpuCollector.foreign_start w s)"

definition same_collector :: "cpuProfileCollector \<Rightarrow> cpuProfileCollector \<Rightarrow> bool" where
  "same_collector c c' \<longleftrightarrow> started c' = started c \<and> timeStarted c' = timeStarted c \<and> cc_name c' = cc_name c \<and>
     finished c' = finished c"

lemma fg_step_keeps:
  assumes "fg_step st st'" "started (fst st)" "cpu (snd st) = Some d"
  shows "snd st' = snd st \<and> same_collector (fst st) (fst st')"
  using assms
  by cases (auto simp: cc_tick_def ticker_Reset_def handleEvent_def cc_halt_def foreign_start_def same_collector_def
      default_StartCPUProfile_def Let_def split: if_splits eventType.splits option.splits)

lemma fg_steps_keep:
  assumes "fg_step\<^sup>*\<^sup>* st st'" "started (fst st)" "cpu (snd st) = Some d"
  shows "snd st' = snd st \<and> same_collector (fst st) (fst st')"
  using assms(1)
proof induction
  case (step st1 st2)
  then show ?case
    using fg_step_keeps [OF step(2), of d] assms(2,3) by (auto simp: same_collector_def)
qed (simp add: same_collector_def)

text \<open>A reset that ends a profile written to the buffer.\<close>

lemma start_frame:
  "default_StartCPUProfile x (foreign_start y z) = (s', err) \<Longrightarrow> writers s' = writers z \<and> uploads s' = uploads z"
  by (auto simp: default_StartCPUProfile_def foreign_start_def split: option.splits)

lemma cc_reset_ends:
  assumes "cc_reset env w (c, s) = ((c', s'), err)" "cpu s = Some d" "to_buf d" "buf s = []" "timeStarted c = Some t"
    and "r_data env \<noteq> []"
  shows "writers s' = writers (write_dest d (r_data env) s) \<and>
    (\<exists>j. uploads s' = uploads s @ [j] \<and> uj_Profile j = r_data env \<and> uj_StartTime j = t \<and> uj_EndTime j = r_end env \<and>
       uj_Name j = cc_name c)"
proof -
  obtain s1 where s1: "upload (r_end env) (c, default_StopCPUProfile (r_data env) s) = (c, s1)"
      "writers s1 = writers (write_dest d (r_data env) s)"
      "\<exists>j. uploads s1 = uploads s @ [j] \<and> uj_Profile j = r_data env \<and> uj_StartTime j = t \<and> uj_EndTime j = r_end env \<and>
       uj_Name j = cc_name c"
    using assms(2-6) by (auto simp: upload_def default_StopCPUProfile_def write_dest_def)
  obtain s2 err2 where s2: "default_StartCPUProfile \<lparr>to_buf = True, to_writer = w\<rparr> (foreign_start (r_race env) s1) = (s2, err2)"
    by force
  have "writers s' = writers s2 \<and> uploads s' = uploads s2"
    using assms(1) s1(1) s2 by (auto simp: cc_reset_def split: option.splits)
  then show ?thesis
    using start_frame [OF s2] s1(2,3) by simp
qed

text \<open>
  C24. A foreground profile is neither interrupted nor mixed with the background one: after
  a successful \<^verbatim>\<open>StartCPUProfile(w)\<close>, any number of ticks, flushes, further starts, halts and foreign starts
  leave the profiler as it is, and \<^verbatim>\<open>StopCPUProfile\<close> then appends the bytes of the profile to
  \<open>w\<close> and uploads the same bytes, with the time of the start.
\<close>

theorem foreground_profile_complete:
  assumes "creachable (newCPUProfileCollector name d, fresh_process f) st" and "\<not> finished (fst st)"
    and "cc_StartCPUProfile env w st = ((c1, s1), None)"
    and "fg_step\<^sup>*\<^sup>* (c1, s1) (c2, s2)"
    and "cc_StopCPUProfile env' (c2, s2) = (c3, s3)" and "r_data env' \<noteq> []"
  shows "started c1 \<and> started c2 \<and> \<not> started c3 \<and> s2 = s1 \<and> writers s3 w = writers s1 w @ r_data env' \<and>
    (\<exists>j. uploads s3 = uploads s1 @ [j] \<and> uj_Profile j = r_data env' \<and> uj_StartTime j = r_now env \<and>
       uj_EndTime j = r_end env' \<and> uj_Name j = cc_name c1)"
proof -
  obtain c s where st: "st = (c, s)"
    by force
  have i: "cc_inv (c, s)"
    using fresh_reachable_inv [OF assms(1)] by (simp add: st)
  obtain c0 s0 where r: "cc_reset env (Some w) (c, s) = ((c0, s0), None)" "c1 = c0\<lparr>started := True\<rparr>" "s1 = s0"
    using assms(3)
    by (auto simp: st cc_StartCPUProfile_def handleEvent_def newStartEvent_def newEvent_def split: if_splits prod.splits)
  have a: "started c1" "timeStarted c1 = Some (r_now env)" "cpu s1 = Some \<lparr>to_buf = True, to_writer = Some w\<rparr>" "buf s1 = []"
    using r(2,3) by (cases rule: cc_reset_cases [OF i r(1)]; simp add: quiet_def)+
  have k: "s2 = s1" "started c2" "timeStarted c2 = Some (r_now env)" "cc_name c2 = cc_name c1"
    using fg_steps_keep [OF assms(4)] a by (simp_all add: same_collector_def)
  obtain c' s' err where q: "cc_reset env' None (c2, s2) = ((c', s'), err)"
    by (metis prod.exhaust)
  have e: "c3 = c'\<lparr>started := False\<rparr>" "s3 = s'"
    using assms(5) k(2) q by (simp_all add: cc_StopCPUProfile_def handleEvent_def newEvent_def)
  show ?thesis
    using cc_reset_ends [OF q, of "\<lparr>to_buf = True, to_writer = Some w\<rparr>" "r_now env"] a k e assms(6)
    by (auto simp: write_dest_def)
qed

text \<open>
  Stopping ends the loop: once no foreground profile is in progress, the halt case ends the loop with
  the profiler off and every collected profile uploaded; while one is in progress it changes neither the profiler nor
  the uploads.
\<close>

theorem halt_finishes:
  assumes "creachable (newCPUProfileCollector name d, fresh_process f) (c, s)"
  shows "(\<not> started c \<longrightarrow> finished (fst (cc_halt data now (c, s))) \<and> cpu (snd (cc_halt data now (c, s))) = None \<and>
      map uj_Profile (uploads (snd (cc_halt data now (c, s)))) = collected (history (snd (cc_halt data now (c, s))))) \<and>
    (started c \<longrightarrow> snd (cc_halt data now (c, s)) = s \<and> finished (fst (cc_halt data now (c, s))) = finished c)"
proof -
  have i: "cc_inv (cc_halt data now (c, s))"
    by (rule cc_halt_inv [OF fresh_reachable_inv [OF assms]])
  have "finished (fst (cc_halt data now (c, s))) \<and> cpu (snd (cc_halt data now (c, s))) = None" if "\<not> started c"
    using that by (auto simp: cc_halt_def upload_def Let_def split: option.split)
  moreover have "finished (fst st) \<Longrightarrow> cc_inv st \<Longrightarrow> map uj_Profile (uploads (snd st)) = collected (history (snd st))" for st
    by (cases st) (auto simp: cc_inv_def process_inv_def pending_def)
  ultimately show ?thesis
    using i by (auto simp: cc_halt_def Let_def)
qed

text \<open>
  C37. A background profile lasts less than twice the upload period.  When the first tick after a start
  comes after \<open>e\<close> of the period, each skipped tick sets the ticker to the elapsed time, so that the next one comes
  after twice that time; some tick number \<open>k\<close>, before twice the period, is the first that does not skip.
\<close>

theorem tick_within_twice:
  assumes "timeStarted c = Some t" and "0 < e" and "e < dur c" and "dur c < 2 ^ 62"
  shows "\<exists>k. dur c \<le> e * 2 ^ k \<and> e * 2 ^ k < 2 * dur c \<and>
    (\<forall>i < k. \<forall>p env. cc_tick env (t + e * 2 ^ i) (c\<lparr>ticker := p\<rparr>, s) = Some (c\<lparr>ticker := e * 2 ^ i\<rparr>, s)) \<and>
    (\<forall>p env. \<not> started c \<longrightarrow>
       cc_tick env (t + e * 2 ^ k) (c\<lparr>ticker := p\<rparr>, s) = Some (fst (cc_reset env None (c\<lparr>ticker := dur c\<rparr>, s))))"
proof -
  define k where "k = (LEAST k. dur c \<le> e * 2 ^ k)"
  have "int (nat (dur c)) < int (2 ^ nat (dur c))"
    using less_exp [of "nat (dur c)"] by (simp only: of_nat_less_iff)
  then have "dur c < 2 ^ nat (dur c)"
    using assms(2,3) by simp
  moreover have "1 * 2 ^ nat (dur c) \<le> e * 2 ^ nat (dur c)"
    using assms(2) by (intro mult_right_mono) simp_all
  ultimately have "dur c \<le> e * 2 ^ nat (dur c)"
    by linarith
  then have k: "dur c \<le> e * 2 ^ k"
    unfolding k_def by (rule LeastI)
  have less: "e * 2 ^ i < dur c" if "i < k" for i
    using not_less_Least [OF that [unfolded k_def]] by simp
  have "k \<noteq> 0"
    using k assms(3) by (cases k) auto
  then have twice: "e * 2 ^ k < 2 * dur c"
    using less [of "k - 1"] by (cases k) auto
  have s: "Sub (t + e * 2 ^ i) (Some t) = e * 2 ^ i" if "i \<le> k" for i
  proof -
    have "e * 2 ^ i \<le> e * 2 ^ k" "0 < e * 2 ^ i"
      using that assms(2) by (simp_all add: power_increasing)
    then show ?thesis
      using twice assms(4) by (simp add: Sub_def maxDuration_def)
  qed
  have "cc_tick env (t + e * 2 ^ i) (c\<lparr>ticker := p\<rparr>, s) = Some (c\<lparr>ticker := e * 2 ^ i\<rparr>, s)" if "i < k" for i p env
  proof -
    have "0 < e * 2 ^ i"
      using assms(2) by simp
    then show ?thesis
      using s [of i] less [OF that] that assms(1) by (simp add: cc_tick_def ticker_Reset_def Let_def)
  qed
  moreover have "cc_tick env (t + e * 2 ^ k) (c\<lparr>ticker := p\<rparr>, s) = Some (fst (cc_reset env None (c\<lparr>ticker := dur c\<rparr>, s)))"
    if "\<not> started c" for p env
    using s [of k] k that assms(1-3) by (simp add: cc_tick_def ticker_Reset_def Let_def)
  ultimately show ?thesis
    using k twice by blast
qed

text \<open>
  A tick whose time is that of the last start makes the loop panic: the elapsed time is zero, and
  \<^verbatim>\<open>Ticker.Reset\<close> is called with it.
\<close>

theorem tick_at_start_panics:
  assumes "timeStarted c = Some n" and "0 < dur c"
  shows "cc_tick env n (c, s) = None"
  using assms by (simp add: cc_tick_def Sub_def maxDuration_def ticker_Reset_def)

text \<open>
  Starting the collector ends a profile that other code of the process has started with
  \<^verbatim>\<open>pprof.StartCPUProfile\<close>: its writer gets what was recorded so far, and the background profile starts at
  once.
\<close>

theorem foreign_profile_cut:
  assumes "0 < d" and "r_race env = None"
  shows "\<exists>c s. cc_init env (newCPUProfileCollector name d, fresh_process (Some x)) = Some (c, s) \<and>
    writers s x = r_data env \<and> cpu s = Some \<lparr>to_buf = True, to_writer = None\<rparr> \<and> timeStarted c = Some (r_now env)"
  using assms
  by (simp add: cc_init_def ticker_Reset_def newCPUProfileCollector_def fresh_process_def cc_reset_def upload_def
      default_StopCPUProfile_def default_StartCPUProfile_def write_dest_def foreign_start_def)

section \<open>A concrete run\<close>

definition example_reset :: "u8 list \<Rightarrow> time \<Rightarrow> reset_env" where
  "example_reset data t = \<lparr>r_data = data, r_end = t, r_now = t, r_race = None\<rparr>"

abbreviation example_cc :: cpuProfileCollector where
  "example_cc \<equiv> newCPUProfileCollector ''app'' (15 * Second)"

definition example_state :: cstate where
  "example_state = (example_cc\<lparr>timeStarted := Some 7, ticker := 15 * Second\<rparr>,
     (fresh_process None)\<lparr>cpu := Some \<lparr>to_buf = True, to_writer = None\<rparr>\<rparr>)"

lemmas cc_eval = cc_reset_def upload_def default_StopCPUProfile_def default_StartCPUProfile_def write_dest_def
  foreign_start_def newCPUProfileCollector_def fresh_process_def example_reset_def

lemma example_reachable: "creachable (example_cc, fresh_process None) example_state"
proof (rule creachable.init)
  show "cc_init (example_reset [] 7) (example_cc, fresh_process None) = Some example_state"
    by (simp add: cc_init_def ticker_Reset_def example_state_def Second_def cc_eval)
qed

lemma example_flushed: "creachable (example_cc, fresh_process None) (fst (cc_Flush (example_reset [1, 2] 9) example_state))"
  unfolding cc_Flush_def example_state_def
  by (rule creachable.step [OF example_reachable [unfolded example_state_def] cstep.event])
     (simp add: newCPUProfileCollector_def)

theorem collector_uploads_exact_witness:
  "let (c, s) = fst (cc_Flush (example_reset [1, 2] 9) example_state) in
     map uj_Profile (uploads s) = [[1, 2]] \<and>
     map uj_Profile (uploads s) @ pending (buf s) = collected (history s)"
proof -
  obtain c s where f: "fst (cc_Flush (example_reset [1, 2] 9) example_state) = (c, s)"
    by force
  have "map uj_Profile (uploads s) = [[1, 2]]"
    using f by (simp add: cc_Flush_def handleEvent_def newEvent_def example_state_def cc_eval zero_job_def) auto
  then show ?thesis
    using collector_uploads_exact [OF example_flushed [unfolded f]] f by simp
qed

theorem foreground_profile_complete_witness:
  "\<exists>c1 s1 c3 s3. cc_StartCPUProfile (example_reset [] 9) 4 example_state = ((c1, s1), None) \<and>
     cc_StopCPUProfile (example_reset [5] 11) (c1, s1) = (c3, s3) \<and> writers s3 4 = writers s1 4 @ [5]"
proof -
  obtain c1 s1 where a: "cc_StartCPUProfile (example_reset [] 9) 4 example_state = ((c1, s1), None)"
    by (simp add: cc_StartCPUProfile_def handleEvent_def newStartEvent_def newEvent_def example_state_def cc_eval)
  obtain c3 s3 where b: "cc_StopCPUProfile (example_reset [5] 11) (c1, s1) = (c3, s3)"
    by force
  have "writers s3 4 = writers s1 4 @ [5]"
    using foreground_profile_complete [OF example_reachable _ a _ b]
    by (simp add: example_reset_def example_state_def newCPUProfileCollector_def)
  with a b show ?thesis
    by blast
qed

theorem halt_finishes_witness:
  "finished (fst (cc_halt [8] 20 example_state)) \<and> cpu (snd (cc_halt [8] 20 example_state)) = None \<and>
   map uj_Profile (uploads (snd (cc_halt [8] 20 example_state))) = [[8]]"
proof -
  obtain c s where f: "example_state = (c, s)"
    by force
  have "\<not> started c" "history (snd (cc_halt [8] 20 (c, s))) = [(\<lparr>to_buf = True, to_writer = None\<rparr>, [8])]"
    using f [symmetric] by (simp_all add: example_state_def cc_halt_def cc_eval)
  then show ?thesis
    using halt_finishes [OF example_reachable [unfolded f], of "[8]" 20] f by (simp add: collected_def)
qed

theorem tick_within_twice_witness:
  "\<exists>k. dur (fst example_state) \<le> 4 * Second * 2 ^ k \<and> 4 * Second * 2 ^ k < 2 * dur (fst example_state)"
proof -
  have "timeStarted (fst example_state) = Some 7" "dur (fst example_state) = 15 * Second"
    by (simp_all add: example_state_def newCPUProfileCollector_def)
  then show ?thesis
    using tick_within_twice [of "fst example_state" 7 "4 * Second" "snd example_state"] by (auto simp: Second_def)
qed

theorem tick_at_start_panics_witness: "cc_tick (example_reset [] 7) 7 example_state = None"
  using tick_at_start_panics [of "fst example_state" 7 "example_reset [] 7" "snd example_state"]
  by (simp add: example_state_def newCPUProfileCollector_def Second_def)

theorem foreign_profile_cut_witness:
  "\<exists>c s. cc_init (example_reset [3] 7) (example_cc, fresh_process (Some 1)) = Some (c, s) \<and> writers s 1 = [3] \<and>
     cpu s = Some \<lparr>to_buf = True, to_writer = None\<rparr>"
  using foreign_profile_cut [of "15 * Second" "example_reset [3] 7" "''app''" 1] by (auto simp: Second_def example_reset_def)

end
