(* ===== verification/CpuSwitch.thy ===== *)
theory CpuSwitch
  imports CpuCollector LabelSets
begin

text \<open>
  The switch between CPU profile collectors (\<^verbatim>\<open>internal/pprof/pprof.go\<close>) and the HTTP handler on top of
  it (\<^verbatim>\<open>http/pprof/pprof.go\<close>).

  The switch keeps the collector that handles \<^verbatim>\<open>StartCPUProfile\<close>, a count of profiles in progress and the
  changes of the collector that wait for them.  Its mutex makes every call atomic.  The collectors are an interface:
  the locale \<open>cpu_service\<close> states what the switch relies on, and its interpretation shows it for the default
  collector and the background collector.
\<close>

section \<open>The switch\<close>

text \<open>
  The interface: a collector value, the inputs of a call, the foreground writer and the state.  A pending change is the
  collector it will set; the closures of \<^verbatim>\<open>c.fn\<close> run in the order they were added.
\<close>

record ('c, 'i, 's, 'e) collector_ops =
  op_start :: "'c \<Rightarrow> 'i \<Rightarrow> nat \<Rightarrow> 's \<Rightarrow> 's \<times> 'e option"
  op_stop :: "'c \<Rightarrow> 'i \<Rightarrow> 's \<Rightarrow> 's"
  op_default :: 'c

record 'c switch =
  sw_Collector :: "'c option"
  ref :: int
  fn :: "'c option list"

definition switch_init :: "'c switch" where
  "switch_init = \<lparr>sw_Collector = None, ref = 0, fn = []\<rparr>"

definition StartCPUProfile ::
    "('c, 'i, 's, 'e) collector_ops \<Rightarrow> 'i \<Rightarrow> nat \<Rightarrow> 'c switch \<times> 's \<Rightarrow> ('c switch \<times> 's) \<times> 'e option" where
  "StartCPUProfile ops i w = (\<lambda>(sw, st).
     let k = (case sw_Collector sw of None \<Rightarrow> op_default ops | Some k \<Rightarrow> k);
         sw = sw\<lparr>sw_Collector := Some k\<rparr> in
     case op_start ops k i w st of
       (st, None) \<Rightarrow> ((sw\<lparr>ref := ref sw + 1\<rparr>, st), None)
     | (st, Some e) \<Rightarrow> ((sw, st), Some e))"

definition run_fn :: "'c option list \<Rightarrow> 'c switch \<Rightarrow> 'c switch" where
  "run_fn fs sw = fold (\<lambda>k sw. sw\<lparr>sw_Collector := k\<rparr>) fs sw"

text \<open>A call through a collector that is not set is a nil dereference: the result is \<^const>\<open>None\<close>.\<close>

definition StopCPUProfile ::
    "('c, 'i, 's, 'e) collector_ops \<Rightarrow> 'i \<Rightarrow> 'c switch \<times> 's \<Rightarrow> ('c switch \<times> 's) option" where
  "StopCPUProfile ops i = (\<lambda>(sw, st).
     case sw_Collector sw of
       None \<Rightarrow> None
     | Some k \<Rightarrow>
         let st = op_stop ops k i st;
             sw = sw\<lparr>ref := ref sw - 1\<rparr> in
         if ref sw = 0 \<and> fn sw \<noteq> [] then Some ((run_fn (fn sw) sw)\<lparr>fn := []\<rparr>, st)
         else Some (sw, st))"

text \<open>The second component says whether the call returns at once or waits for its channel to be closed.\<close>

definition SetCollector :: "'c option \<Rightarrow> 'c switch \<Rightarrow> 'c switch \<times> bool" where
  "SetCollector k sw =
     (if ref sw = 0 then (sw\<lparr>sw_Collector := k\<rparr>, True) else (sw\<lparr>fn := fn sw @ [k]\<rparr>, False))"

definition ResetCollector :: "'c switch \<Rightarrow> 'c switch \<times> bool" where
  "ResetCollector sw = SetCollector None sw"

text \<open>Calls on the switch; a caller only stops what was started.\<close>

inductive switch_step :: "('c, 'i, 's, 'e) collector_ops \<Rightarrow> 'c switch \<times> 's \<Rightarrow> 'c switch \<times> 's \<Rightarrow> bool" for ops where
  start: "switch_step ops x (fst (StartCPUProfile ops i w x))"
| stop: "0 < ref (fst x) \<Longrightarrow> StopCPUProfile ops i x = Some y \<Longrightarrow> switch_step ops x y"
| set: "switch_step ops (sw, st) (fst (SetCollector k sw), st)"

section \<open>The interface of a collector\<close>

locale cpu_service =
  fixes ops :: "('c, 'i, 's, 'e) collector_ops"
    and active :: "'c \<Rightarrow> 's \<Rightarrow> bool"
  assumes start_ok: "op_start ops k i w st = (st', None) \<Longrightarrow> \<not> active k st \<and> active k st'"
    and start_err: "op_start ops k i w st = (st', Some e) \<Longrightarrow> active k st' = active k st"
    and stop_ok: "\<not> active k (op_stop ops k i st)"
begin

definition sinv :: "'c switch \<times> 's \<Rightarrow> bool" where
  "sinv = (\<lambda>(sw, st). (ref sw = 0 \<and> fn sw = []) \<or> (ref sw = 1 \<and> (\<exists>k. sw_Collector sw = Some k \<and> active k st)))"

lemma sinv_init: "sinv (switch_init, st)"
  by (simp add: sinv_def switch_init_def)

lemma switch_start_inv:
  assumes "sinv (sw, st)"
  shows "sinv (fst (StartCPUProfile ops i w (sw, st)))"
proof -
  let ?k = "case sw_Collector sw of None \<Rightarrow> op_default ops | Some k \<Rightarrow> k"
  obtain st' r where s: "op_start ops ?k i w st = (st', r)"
    by force
  show ?thesis
  proof (cases r)
    case None
    then show ?thesis
      using assms s start_ok [of ?k i w st st'] by (auto simp: sinv_def StartCPUProfile_def Let_def)
  next
    case (Some e)
    then show ?thesis
      using assms s start_err [of ?k i w st st' e] by (auto simp: sinv_def StartCPUProfile_def Let_def)
  qed
qed

lemma run_fn_sel: "ref (run_fn fs sw) = ref sw" "fn (run_fn fs sw) = fn sw"
  by (induction fs arbitrary: sw) (simp_all add: run_fn_def)

lemma switch_stop_inv:
  assumes "sinv (sw, st)" "0 < ref sw" "StopCPUProfile ops i (sw, st) = Some y"
  shows "sinv y"
  using assms by (auto simp: sinv_def StopCPUProfile_def Let_def run_fn_sel split: if_splits)

lemma sstep_inv: "switch_step ops x y \<Longrightarrow> sinv x \<Longrightarrow> sinv y"
proof (induction rule: switch_step.induct)
  case (start x i w)
  then show ?case
    by (cases x) (simp add: switch_start_inv)
next
  case (stop x i y)
  then show ?case
    by (cases x) (auto intro: switch_stop_inv)
next
  case (set sw st k)
  then show ?case
    by (auto simp: sinv_def SetCollector_def)
qed

lemma ssteps_inv: "(switch_step ops)\<^sup>*\<^sup>* x y \<Longrightarrow> sinv x \<Longrightarrow> sinv y"
  by (induction rule: rtranclp_induct) (auto intro: sstep_inv)

text \<open>A stop never dereferences nil, and ends with every pending change applied.\<close>

lemma stop_defined:
  assumes "sinv (sw, st)" "0 < ref sw"
  shows "\<exists>sw' st'. StopCPUProfile ops i (sw, st) = Some (sw', st') \<and> ref sw' = 0 \<and> fn sw' = [] \<and>
    sw_Collector sw' = last (sw_Collector sw # fn sw) \<and> (\<forall>k. sw_Collector sw = Some k \<longrightarrow> \<not> active k st')"
proof -
  have r: "sw_Collector (run_fn fs sw') = last (sw_Collector sw' # fs)" for fs and sw' :: "'c switch"
    by (induction fs arbitrary: sw') (simp_all add: run_fn_def)
  show ?thesis
    using assms stop_ok by (auto simp: sinv_def StopCPUProfile_def Let_def run_fn_sel r)
qed

end

section \<open>The two collectors\<close>

datatype Collector = defaultCollector | backgroundCollector

fun start_with :: "Collector \<Rightarrow> reset_env \<Rightarrow> nat \<Rightarrow> cstate \<Rightarrow> cstate \<times> cpu_error option" where
  "start_with defaultCollector env w (c, s) =
     (case default_StartCPUProfile \<lparr>to_buf = False, to_writer = Some w\<rparr> s of (s, err) \<Rightarrow> ((c, s), err))"
| "start_with backgroundCollector env w st = cc_StartCPUProfile env w st"

fun stop_with :: "Collector \<Rightarrow> reset_env \<Rightarrow> cstate \<Rightarrow> cstate" where
  "stop_with defaultCollector env (c, s) = (c, default_StopCPUProfile (r_data env) s)"
| "stop_with backgroundCollector env st = cc_StopCPUProfile env st"

fun in_progress :: "Collector \<Rightarrow> cstate \<Rightarrow> bool" where
  "in_progress defaultCollector (c, s) = (cpu s \<noteq> None)"
| "in_progress backgroundCollector (c, s) = started c"

definition collectors :: "(Collector, reset_env, cstate, cpu_error) collector_ops" where
  "collectors = \<lparr>op_start = start_with, op_stop = stop_with, op_default = defaultCollector\<rparr>"

lemma reset_started: "started (fst (fst (cc_reset env w (c, s)))) = started c"
  by (auto simp: cc_reset_def upload_def split: prod.splits option.splits if_splits)

interpretation cpus: cpu_service collectors in_progress
proof unfold_locales
  fix k env w st st'
  assume "op_start collectors k env w st = (st', None)"
  then show "\<not> in_progress k st \<and> in_progress k st'"
    by (cases k; cases st)
       (auto simp: collectors_def default_StartCPUProfile_def cc_StartCPUProfile_def handleEvent_def newStartEvent_def
          newEvent_def split: option.splits if_splits prod.splits)
next
  fix k env w st st' e
  assume a: "op_start collectors k env w st = (st', Some e)"
  obtain c s where st: "st = (c, s)"
    by force
  show "in_progress k st' = in_progress k st"
    using a
    by (cases k)
       (auto simp: st collectors_def default_StartCPUProfile_def cc_StartCPUProfile_def handleEvent_def
          newStartEvent_def newEvent_def split: option.splits if_splits prod.splits)
next
  fix k env st
  show "\<not> in_progress k (op_stop collectors k env st)"
    by (cases k; cases st)
       (auto simp: collectors_def cc_StopCPUProfile_def handleEvent_def newEvent_def split: prod.splits)
qed

text \<open>
  C26. The switch counts the foreground profiles: after any calls, in which a stop follows a start, the count
  is zero with no change of the collector waiting, or it is one and the collector that is set is the one whose profile
  is in progress; and then the stop goes to that collector and never to a missing one, ends its profile, and lets every
  waiting \<^verbatim>\<open>SetCollector\<close> return, of which the last determines the collector.
\<close>

theorem switch_safe:
  assumes "(switch_step collectors)\<^sup>*\<^sup>* (switch_init, st0) (sw, st)"
  shows "(ref sw = 0 \<and> fn sw = []) \<or>
    (ref sw = 1 \<and> (\<exists>k. sw_Collector sw = Some k \<and> in_progress k st \<and>
      (\<exists>sw' st'. StopCPUProfile collectors env (sw, st) = Some (sw', st') \<and> ref sw' = 0 \<and> fn sw' = [] \<and>
         sw_Collector sw' = last (Some k # fn sw) \<and> \<not> in_progress k st')))"
proof -
  have i: "cpus.sinv (sw, st)"
    by (rule cpus.ssteps_inv [OF assms cpus.sinv_init])
  then show ?thesis
    using cpus.stop_defined [OF i, of env] by (auto simp: cpus.sinv_def)
qed

section \<open>The HTTP handler\<close>

record response =
  r_header :: "(string \<times> string) list"
  r_status :: "nat option"
  r_text :: string

definition Header_Set :: "string \<Rightarrow> string \<Rightarrow> response \<Rightarrow> response" where
  "Header_Set k v r = r\<lparr>r_header := AList.update k v (r_header r)\<rparr>"

definition Header_Del :: "string \<Rightarrow> response \<Rightarrow> response" where
  "Header_Del k r = r\<lparr>r_header := AList.delete k (r_header r)\<rparr>"

definition serveError :: "nat \<Rightarrow> string \<Rightarrow> response \<Rightarrow> response" where
  "serveError status txt r =
     (Header_Del ''Content-Disposition'' (Header_Set ''X-Go-Pprof'' ''1''
        (Header_Set ''Content-Type'' ''text/plain; charset=utf-8'' r)))
     \<lparr>r_status := Some status, r_text := r_text r @ txt @ [char_of (10 :: nat)]\<rparr>"

text \<open>
  The server of the request and its write timeout in nanoseconds; the comparison of the requested seconds with the
  timeout is done in floating point, and is the parameter \<open>ge_seconds\<close>.
\<close>

definition durationExceedsWriteTimeout :: "(int \<Rightarrow> int \<Rightarrow> bool) \<Rightarrow> int option \<Rightarrow> int \<Rightarrow> bool" where
  "durationExceedsWriteTimeout ge_seconds srv sec =
     (case srv of None \<Rightarrow> False | Some timeout \<Rightarrow> timeout \<noteq> 0 \<and> ge_seconds sec timeout)"

text \<open>\<open>during\<close> is what other callers do until the context is done.\<close>

definition collectCPUProfile ::
    "('c, 'i, 's, 'e) collector_ops \<Rightarrow> 'i \<Rightarrow> 'i \<Rightarrow> ('c switch \<times> 's \<Rightarrow> 'c switch \<times> 's) \<Rightarrow> nat \<Rightarrow> 'c switch \<times> 's \<Rightarrow>
     (('c switch \<times> 's) \<times> 'e option) option" where
  "collectCPUProfile ops i1 i2 during w x =
     (case StartCPUProfile ops i1 w x of
        (x, Some e) \<Rightarrow> Some (x, Some e)
      | (x, None) \<Rightarrow>
          (case StopCPUProfile ops i2 (during x) of None \<Rightarrow> None | Some x \<Rightarrow> Some (x, None)))"

definition profile_seconds :: "string \<Rightarrow> int" where
  "profile_seconds v = (case Atoi v of Inl _ \<Rightarrow> 30 | Inr sec \<Rightarrow> if sec \<le> 0 then 30 else sec)"

text \<open>\<^verbatim>\<open>time.Duration(sec)*time.Second\<close> wraps around at 64 bits.\<close>

definition profile_timeout :: "int \<Rightarrow> int" where
  "profile_timeout sec = sint (word_of_int (sec * Second) :: i64)"

definition Profile ::
    "(int \<Rightarrow> int \<Rightarrow> bool) \<Rightarrow> ('c, 'i, 's, 'e) collector_ops \<Rightarrow> ('e \<Rightarrow> string) \<Rightarrow> int option \<Rightarrow> string \<Rightarrow> 'i \<Rightarrow> 'i \<Rightarrow>
     (int \<Rightarrow> 'c switch \<times> 's \<Rightarrow> 'c switch \<times> 's) \<Rightarrow> nat \<Rightarrow> response \<times> 'c switch \<times> 's \<Rightarrow> (response \<times> 'c switch \<times> 's) option" where
  "Profile ge_seconds ops err_text srv seconds i1 i2 during w = (\<lambda>(r, x).
     let r = Header_Set ''X-Content-Type-Options'' ''nosniff'' r;
         sec = profile_seconds seconds in
     if durationExceedsWriteTimeout ge_seconds srv sec then
       Some (serveError 400 ''profile duration exceeds server's WriteTimeout'' r, x)
     else
       let r = Header_Set ''Content-Disposition'' ''attachment; filename=\"profile\"''
                 (Header_Set ''Content-Type'' ''application/octet-stream'' r) in
       case collectCPUProfile ops i1 i2 (during (profile_timeout sec)) w x of
         None \<Rightarrow> None
       | Some (x, Some e) \<Rightarrow> Some (serveError 500 (''Could not enable CPU profiling: '' @ err_text e) r, x)
       | Some (x, None) \<Rightarrow> Some (r, x))"

lemma start_ref:
  "StartCPUProfile ops i w (sw, st) = ((sw', st'), r) \<Longrightarrow> ref sw' = (if r = None then ref sw + 1 else ref sw)"
  by (auto simp: StartCPUProfile_def Let_def split: option.splits prod.splits)

lemma collect_total:
  assumes "cpus.sinv x" and "\<And>y. (switch_step collectors)\<^sup>*\<^sup>* y (during y) \<and> (0 < ref (fst y) \<longrightarrow> 0 < ref (fst (during y)))"
  shows "\<exists>y r. collectCPUProfile collectors i1 i2 during w x = Some (y, r) \<and>
    (case r of Some e \<Rightarrow> ref (fst y) = ref (fst x) | None \<Rightarrow> ref (fst x) = 0 \<and> ref (fst y) = 0)"
proof -
  obtain sw st where x: "x = (sw, st)"
    by (cases x)
  obtain sw1 st1 r where s: "StartCPUProfile collectors i1 w x = ((sw1, st1), r)"
    by (metis prod.exhaust)
  have i: "cpus.sinv (sw1, st1)"
    using cpus.switch_start_inv [of sw st i1 w] assms(1) s by (simp add: x)
  show ?thesis
  proof (cases r)
    case None
    then have r: "ref sw1 = ref sw + 1"
      using start_ref [of collectors i1 w sw st sw1 st1 r] s by (simp add: x)
    then have "ref sw = 0"
      using i assms(1) by (auto simp: cpus.sinv_def x)
    obtain sw2 st2 where d: "during (sw1, st1) = (sw2, st2)"
      by (cases "during (sw1, st1)")
    have "0 < ref sw2"
      using assms(2) [of "(sw1, st1)"] r \<open>ref sw = 0\<close> d by simp
    moreover have "cpus.sinv (sw2, st2)"
      using cpus.ssteps_inv [OF _ i] assms(2) [of "(sw1, st1)"] d by simp
    ultimately obtain sw3 st3 where "StopCPUProfile collectors i2 (sw2, st2) = Some (sw3, st3)" "ref sw3 = 0"
      using cpus.stop_defined [of sw2 st2 i2] by blast
    then show ?thesis
      using s None d \<open>ref sw = 0\<close> by (simp add: collectCPUProfile_def x)
  next
    case (Some e)
    then show ?thesis
      using s start_ref [of collectors i1 w sw st sw1 st1 r] by (simp add: collectCPUProfile_def x)
  qed
qed

text \<open>
  C27. The handler always answers and leaves the switch balanced: it refuses a duration beyond the
  server's write timeout with status 400 and touches no profiler; when the profile cannot be started it answers 500 and
  the count of profiles is unchanged; otherwise a profile was started, and after the handler none is in progress,
  whatever the other callers of the switch did meanwhile.
\<close>

theorem http_Profile_balanced:
  assumes "(switch_step collectors)\<^sup>*\<^sup>* (switch_init, st0) x"
    and "\<And>d y. (switch_step collectors)\<^sup>*\<^sup>* y (during d y) \<and> (0 < ref (fst y) \<longrightarrow> 0 < ref (fst (during d y)))"
  shows "\<exists>r y. Profile ge collectors txt srv seconds i1 i2 during w (\<lparr>r_header = [], r_status = None, r_text = []\<rparr>, x) = Some (r, y) \<and>
    (if durationExceedsWriteTimeout ge srv (profile_seconds seconds) then r_status r = Some 400 \<and> y = x
     else r_status r = Some 500 \<and> ref (fst y) = ref (fst x) \<or>
       r_status r = None \<and> ref (fst x) = 0 \<and> ref (fst y) = 0 \<and>
       map_of (r_header r) ''Content-Type'' = Some ''application/octet-stream'')"
proof (cases "durationExceedsWriteTimeout ge srv (profile_seconds seconds)")
  case True
  then show ?thesis
    by (cases x) (simp add: Profile_def serveError_def Let_def)
next
  case False
  have i: "cpus.sinv x"
    by (rule cpus.ssteps_inv [OF assms(1) cpus.sinv_init])
  obtain y q where c: "collectCPUProfile collectors i1 i2 (during (profile_timeout (profile_seconds seconds))) w x = Some (y, q)"
      "case q of Some e \<Rightarrow> ref (fst y) = ref (fst x) | None \<Rightarrow> ref (fst x) = 0 \<and> ref (fst y) = 0"
    using collect_total [OF i assms(2) [of _ "profile_timeout (profile_seconds seconds)"], of i1 i2 w] by blast
  with False show ?thesis
    by (cases q) (simp_all add: Profile_def serveError_def Header_Set_def Let_def)
qed

text \<open>
  The requested number of seconds is positive, and the profile lasts exactly that long up to
  9223372036 seconds; the product with the nanoseconds of a second wraps around beyond.
\<close>

theorem profile_timeout_exact:
  "0 < profile_seconds v \<and>
   (profile_seconds v \<le> 9223372036 \<longrightarrow> profile_timeout (profile_seconds v) = profile_seconds v * Second)"
proof -
  have p: "0 < profile_seconds v"
    by (simp add: profile_seconds_def split: sum.split)
  have "sint (word_of_int k :: i64) = k" if "0 \<le> k" "k < 2 ^ 63" for k :: int
    using that by (simp add: sint_sbintrunc' signed_take_bit_int_eq_self)
  from this [of "profile_seconds v * Second"] p show ?thesis
    unfolding profile_timeout_def by (auto simp: Second_def simp del: of_int_mult)
qed

theorem profile_timeout_exact_witness: "profile_timeout (profile_seconds ''60'') = 60 * Second"
proof -
  have "profile_seconds ''60'' = 60"
    by (simp add: profile_seconds_def Atoi_def byte_def)
  then show ?thesis
    using profile_timeout_exact [of "''60''"] by simp
qed

section \<open>Concrete inputs\<close>

theorem switch_safe_witness:
  "\<exists>sw st. (switch_step collectors)\<^sup>*\<^sup>* (switch_init, (example_cc, fresh_process None)) (sw, st) \<and> ref sw = 1 \<and>
     (\<exists>sw' st'. StopCPUProfile collectors (example_reset [1] 9) (sw, st) = Some (sw', st') \<and> ref sw' = 0)"
proof -
  define x where "x = fst (StartCPUProfile collectors (example_reset [] 7) 3 (switch_init, (example_cc, fresh_process None)))"
  have r: "(switch_step collectors)\<^sup>*\<^sup>* (switch_init, (example_cc, fresh_process None)) x"
    unfolding x_def by (rule r_into_rtranclp) (rule switch_step.start)
  have "ref (fst x) = 1"
    by (simp add: x_def StartCPUProfile_def switch_init_def collectors_def cc_eval)
  then show ?thesis
    using switch_safe [of "(example_cc, fresh_process None)" "fst x" "snd x" "example_reset [1] 9"] r
    by (intro exI [of _ "fst x"] exI [of _ "snd x"]) auto
qed

theorem http_Profile_balanced_witness:
  "\<exists>r y. Profile (\<lambda>_ _. False) collectors (\<lambda>_. ''in use'') None ''5'' (example_reset [] 7) (example_reset [1] 12) (\<lambda>_ y. y) 3
     (\<lparr>r_header = [], r_status = None, r_text = []\<rparr>, (switch_init, (example_cc, fresh_process None))) = Some (r, y) \<and>
     ref (fst y) = 0"
  using http_Profile_balanced [of "(example_cc, fresh_process None)" "(switch_init, (example_cc, fresh_process None))" "\<lambda>_ y. y"
      "\<lambda>_ _. False" "\<lambda>_. ''in use''" None "''5''" "example_reset [] 7" "example_reset [1] 12" 3]
  by (auto simp: switch_init_def durationExceedsWriteTimeout_def)

end
