(* ===== verification/RemoteQueue.thy ===== *)
theory RemoteQueue
  imports Upstream "HOL-Library.Multiset"
begin

text \<open>
  The upload queue of \<^verbatim>\<open>upstream/remote/remote.go\<close>: \<^verbatim>\<open>Upload\<close>, \<^verbatim>\<open>Flush\<close>,
  \<^verbatim>\<open>Start\<close>, \<^verbatim>\<open>Stop\<close> and the workers of \<^verbatim>\<open>handleJobs\<close>.

  The state is shared by any number of callers and by the workers; the mutex makes \<^verbatim>\<open>Upload\<close> and the
  swap in \<^verbatim>\<open>Flush\<close> atomic, and a worker's select takes a job, ends, or waits.  A wait group is a number:
  \<open>flushWG\<close> is the current one and \<open>counts\<close> holds the counters.  The lists \<open>accepted\<close>,
  \<open>taken\<close>, \<open>sent\<close> and \<open>dropped\<close> record what happened; no step reads them.
\<close>

section \<open>Definitions\<close>

record job =
  jb_upload :: UploadJob
  jb_flush :: nat

datatype worker = Waiting | Busy job | Exited

record remote =
  jobs :: "job list"
  flushWG :: nat
  counts :: "nat \<Rightarrow> nat"
  workers :: "worker list"
  closed :: bool
  accepted :: "job list"
  taken :: "job list"
  sent :: "job list"
  dropped :: "UploadJob list"

definition queue_capacity :: nat where
  "queue_capacity = 20"

definition queue_init :: remote where
  "queue_init = \<lparr>jobs = [], flushWG = 0, counts = (\<lambda>_. 0), workers = [], closed = False,
     accepted = [], taken = [], sent = [], dropped = []\<rparr>"

definition Start :: "nat \<Rightarrow> remote \<Rightarrow> remote" where
  "Start threads r = r\<lparr>workers := workers r @ replicate threads Waiting\<rparr>"

definition wg_Add :: "nat \<Rightarrow> remote \<Rightarrow> remote" where
  "wg_Add g r = r\<lparr>counts := (counts r)(g := counts r g + 1)\<rparr>"

definition wg_Done :: "nat \<Rightarrow> remote \<Rightarrow> remote" where
  "wg_Done g r = r\<lparr>counts := (counts r)(g := counts r g - 1)\<rparr>"

definition Upload :: "UploadJob \<Rightarrow> remote \<Rightarrow> remote" where
  "Upload uj r =
     (let r = wg_Add (flushWG r) r;
          j = \<lparr>jb_upload = uj, jb_flush = flushWG r\<rparr> in
      if length (jobs r) < queue_capacity then r\<lparr>jobs := jobs r @ [j], accepted := accepted r @ [j]\<rparr>
      else (wg_Done (jb_flush j) r)\<lparr>dropped := dropped r @ [uj]\<rparr>)"

text \<open>\<^verbatim>\<open>Flush\<close> replaces the wait group and then waits until the counter of the old one is zero.\<close>

definition Flush_swap :: "remote \<Rightarrow> nat \<times> remote" where
  "Flush_swap r = (flushWG r, r\<lparr>flushWG := flushWG r + 1\<rparr>)"

definition Flush_returns :: "nat \<Rightarrow> remote \<Rightarrow> bool" where
  "Flush_returns g r \<longleftrightarrow> counts r g = 0"

text \<open>The three things a worker can do; \<^const>\<open>None\<close> when it cannot.\<close>

definition handle_take :: "nat \<Rightarrow> remote \<Rightarrow> remote option" where
  "handle_take i r =
     (if i < length (workers r) \<and> workers r ! i = Waiting then
        (case jobs r of
           [] \<Rightarrow> None
         | j # js \<Rightarrow> Some (r\<lparr>jobs := js, workers := (workers r)[i := Busy j], taken := taken r @ [j]\<rparr>))
      else None)"

definition handle_finish :: "nat \<Rightarrow> remote \<Rightarrow> remote option" where
  "handle_finish i r =
     (if i < length (workers r) then
        (case workers r ! i of
           Busy j \<Rightarrow> Some ((wg_Done (jb_flush j) r)\<lparr>workers := (workers r)[i := Waiting], sent := sent r @ [j]\<rparr>)
         | _ \<Rightarrow> None)
      else None)"

definition handle_exit :: "nat \<Rightarrow> remote \<Rightarrow> remote option" where
  "handle_exit i r =
     (if i < length (workers r) \<and> workers r ! i = Waiting \<and> closed r
      then Some (r\<lparr>workers := (workers r)[i := Exited]\<rparr>) else None)"

text \<open>\<^verbatim>\<open>Stop\<close> closes the channel, which panics the second time, and waits for the workers.\<close>

definition Stop_close :: "remote \<Rightarrow> remote option" where
  "Stop_close r = (if closed r then None else Some (r\<lparr>closed := True\<rparr>))"

definition Stop_returns :: "remote \<Rightarrow> bool" where
  "Stop_returns r \<longleftrightarrow> (\<forall>w \<in> set (workers r). w = Exited)"

inductive wstep :: "remote \<Rightarrow> remote \<Rightarrow> bool" where
  take: "handle_take i r = Some r' \<Longrightarrow> wstep r r'"
| finish: "handle_finish i r = Some r' \<Longrightarrow> wstep r r'"

inductive rstep :: "remote \<Rightarrow> remote \<Rightarrow> bool" where
  worker: "wstep r r' \<Longrightarrow> rstep r r'"
| exit: "handle_exit i r = Some r' \<Longrightarrow> rstep r r'"
| upload: "rstep r (Upload uj r)"
| flush: "rstep r (snd (Flush_swap r))"
| stop: "Stop_close r = Some r' \<Longrightarrow> rstep r r'"

definition queue_started :: "nat \<Rightarrow> remote" where
  "queue_started threads = Start threads queue_init"

section \<open>The invariant\<close>

fun worker_jobs :: "worker \<Rightarrow> job list" where
  "worker_jobs (Busy j) = [j]"
| "worker_jobs Waiting = []"
| "worker_jobs Exited = []"

definition busy :: "remote \<Rightarrow> job list" where
  "busy r = concat (map worker_jobs (workers r))"

definition in_flight :: "remote \<Rightarrow> job multiset" where
  "in_flight r = mset (jobs r) + mset (busy r)"

definition of_group :: "nat \<Rightarrow> job multiset \<Rightarrow> nat" where
  "of_group g M = size (filter_mset (\<lambda>j. jb_flush j = g) M)"

definition rinv :: "remote \<Rightarrow> bool" where
  "rinv r \<longleftrightarrow>
     length (jobs r) \<le> queue_capacity \<and>
     (\<forall>g. counts r g = of_group g (in_flight r)) \<and>
     accepted r = taken r @ jobs r \<and>
     mset (taken r) = mset (busy r) + mset (sent r) \<and>
     (\<forall>j \<in> set (accepted r). jb_flush j \<le> flushWG r) \<and>
     (Exited \<in> set (workers r) \<longrightarrow> closed r)"

lemma of_group_add [simp]: "of_group g (M + N) = of_group g M + of_group g N" "of_group g {#} = 0"
    "of_group g (add_mset j M) = (if jb_flush j = g then 1 else 0) + of_group g M"
  by (simp_all add: of_group_def)

lemma mset_busy_update:
  assumes "i < length ws"
  shows "mset (concat (map f (ws[i := w]))) + mset (f (ws ! i)) = mset (concat (map f ws)) + mset (f w)"
  using assms
proof (induction ws arbitrary: i)
  case (Cons a ws)
  then show ?case
    by (cases i) (simp_all add: add.assoc Cons.IH)
qed simp

lemma take_busy:
  assumes "handle_take i r = Some r'" 
  obtains j js where "jobs r = j # js" "jobs r' = js" "mset (busy r') = add_mset j (mset (busy r))" 
    "taken r' = taken r @ [j]" "workers r' = (workers r)[i := Busy j]" "i < length (workers r)" "workers r ! i = Waiting"
    "counts r' = counts r" "accepted r' = accepted r" "sent r' = sent r" "flushWG r' = flushWG r" "closed r' = closed r"
    "dropped r' = dropped r"
  using assms mset_busy_update [of i "workers r" worker_jobs]
  by (auto simp: handle_take_def busy_def split: if_splits list.splits)

lemma finish_busy:
  assumes "handle_finish i r = Some r'"
  obtains j where "mset (busy r) = add_mset j (mset (busy r'))" "jobs r' = jobs r" "taken r' = taken r"
    "sent r' = sent r @ [j]" "workers r' = (workers r)[i := Waiting]" "i < length (workers r)" "workers r ! i = Busy j"
    "counts r' = (counts r)(jb_flush j := counts r (jb_flush j) - 1)" "accepted r' = accepted r"
    "flushWG r' = flushWG r" "closed r' = closed r" "dropped r' = dropped r"
  using assms mset_busy_update [of i "workers r" worker_jobs Waiting, symmetric]
  by (auto simp: handle_finish_def busy_def wg_Done_def split: if_splits worker.splits)

lemma wstep_inv: "wstep r r' \<Longrightarrow> rinv r \<Longrightarrow> rinv r'"
proof (induction rule: wstep.induct)
  case (take i r r')
  then show ?case
    by (elim take_busy) (auto simp: rinv_def in_flight_def dest!: set_update_subset_insert [THEN subsetD])
next
  case (finish i r r')
  then show ?case
    by (elim finish_busy) (auto simp: rinv_def in_flight_def dest!: set_update_subset_insert [THEN subsetD])
qed

lemma exit_busy: "handle_exit i r = Some r' \<Longrightarrow> mset (busy r') = mset (busy r)"
  using mset_busy_update [of i "workers r" worker_jobs Exited]
  by (auto simp: handle_exit_def busy_def split: if_splits)

lemma rstep_inv: "rstep r r' \<Longrightarrow> rinv r \<Longrightarrow> rinv r'"
proof (induction rule: rstep.induct)
  case (exit i r r')
  then show ?case
    using exit_busy [OF exit(1)] by (auto simp: rinv_def in_flight_def handle_exit_def split: if_splits)
next
  case (upload r uj)
  then show ?case
    by (auto simp: rinv_def in_flight_def Upload_def Let_def wg_Add_def wg_Done_def busy_def)
next
  case (flush r)
  then show ?case
    by (auto simp: rinv_def in_flight_def Flush_swap_def busy_def intro: le_SucI)
next
  case (stop r r')
  then show ?case
    by (auto simp: rinv_def in_flight_def Stop_close_def busy_def split: if_splits)
qed (rule wstep_inv)

lemma queue_started_inv: "rinv (queue_started n)"
  by (auto simp: queue_started_def Start_def queue_init_def rinv_def in_flight_def busy_def)

lemma rsteps_inv: "rstep\<^sup>*\<^sup>* r r' \<Longrightarrow> rinv r \<Longrightarrow> rinv r'"
  by (induction rule: rtranclp_induct) (auto intro: rstep_inv)

section \<open>Properties\<close>

lemma busy_length: "length (busy r) \<le> length (workers r)"
proof -
  have "length (concat (map worker_jobs ws)) \<le> length ws" for ws
  proof (induction ws)
    case (Cons w ws)
    then show ?case
      by (cases w) simp_all
  qed simp
  then show ?thesis
    by (simp add: busy_def)
qed

lemma workers_constant: "rstep\<^sup>*\<^sup>* r r' \<Longrightarrow> length (workers r') = length (workers r)"
proof (induction rule: rtranclp_induct)
  case (step r1 r2)
  have "length (workers r2) = length (workers r1)"
    using step(2)
  proof (cases rule: rstep.cases)
    case worker
    then show ?thesis
      by cases (auto elim: take_busy finish_busy)
  qed (auto simp: handle_exit_def Upload_def Let_def wg_Add_def wg_Done_def Flush_swap_def Stop_close_def split: if_splits)
  with step show ?case
    by simp
qed simp

text \<open>
  C9. In every state that calls and workers can reach: at most 20 jobs wait and at most as many are being
  uploaded as there are workers; the accepted jobs are taken in the order of acceptance; every taken job is being
  uploaded or was handed to the server exactly once; and the counter of each wait group is the number of its jobs that
  wait or are being uploaded.
\<close>

theorem queue_delivery:
  assumes "rstep\<^sup>*\<^sup>* (queue_started threads) r"
  shows "length (jobs r) \<le> queue_capacity \<and> length (busy r) \<le> threads \<and> accepted r = taken r @ jobs r \<and>
    mset (taken r) = mset (busy r) + mset (sent r) \<and>
    (\<forall>g. counts r g = length (filter (\<lambda>j. jb_flush j = g) (jobs r @ busy r)))"
proof -
  have "rinv r"
    by (rule rsteps_inv [OF assms queue_started_inv])
  moreover have "length (workers r) = threads"
    using workers_constant [OF assms] by (simp add: queue_started_def Start_def queue_init_def)
  moreover have "of_group g (mset xs) = length (filter (\<lambda>j. jb_flush j = g) xs)" for g xs
    by (simp add: of_group_def flip: mset_filter)
  ultimately show ?thesis
    using busy_length [of r] by (simp add: rinv_def in_flight_def)
qed





definition work :: "remote \<Rightarrow> nat" where
  "work r = 2 * length (jobs r) + length (busy r)"

lemma wstep_decreases: "wstep r r' \<Longrightarrow> work r' < work r"
proof (induction rule: wstep.induct)
  case (take i r r')
  then show ?case
    by (elim take_busy) (simp add: work_def flip: size_mset)
next
  case (finish i r r')
  then show ?case
    by (elim finish_busy) (simp add: work_def flip: size_mset)
qed

lemma busy_worker:
  assumes "busy r \<noteq> []"
  shows "\<exists>i j. i < length (workers r) \<and> workers r ! i = Busy j"
proof -
  obtain w where "w \<in> set (workers r)" "worker_jobs w \<noteq> []"
    using assms by (auto simp: busy_def)
  moreover from this(2) obtain j where "w = Busy j"
    by (cases w) auto
  ultimately show ?thesis
    by (metis in_set_conv_nth)
qed

lemma wstep_enabled:
  assumes "rinv r" "\<not> closed r" "workers r \<noteq> []" "work r \<noteq> 0"
  shows "\<exists>r'. wstep r r'"
proof (cases "busy r = []")
  case False
  then obtain i j where "i < length (workers r)" "workers r ! i = Busy j"
    using busy_worker by blast
  then have "handle_finish i r \<noteq> None"
    by (simp add: handle_finish_def)
  then show ?thesis
    using wstep.finish by blast
next
  case True
  then have "jobs r \<noteq> []"
    using assms(4) by (auto simp: work_def)
  moreover have "hd (workers r) = Waiting"
    using True assms(1-3) by (cases "workers r"; cases "hd (workers r)") (auto simp: busy_def rinv_def)
  ultimately have "handle_take 0 r \<noteq> None"
    using assms(3) by (auto simp: handle_take_def hd_conv_nth split: list.split)
  then show ?thesis
    using wstep.take by blast
qed

lemma wstep_frame: "wstep r r' \<Longrightarrow> closed r' = closed r \<and> length (workers r') = length (workers r) \<and> accepted r' = accepted r"
  by (induction rule: wstep.induct) (auto elim: take_busy finish_busy)

lemma drains:
  "rinv r \<Longrightarrow> \<not> closed r \<Longrightarrow> workers r \<noteq> [] \<Longrightarrow> \<exists>r'. wstep\<^sup>*\<^sup>* r r' \<and> work r' = 0 \<and> rinv r' \<and> accepted r' = accepted r"
proof (induction "work r" arbitrary: r rule: less_induct)
  case less
  show ?case
  proof (cases "work r = 0")
    case False
    then obtain r1 where r1: "wstep r r1"
      using wstep_enabled less.prems by blast
    have "rinv r1" "\<not> closed r1" "workers r1 \<noteq> []" "accepted r1 = accepted r"
      using wstep_inv [OF r1] wstep_frame [OF r1] less.prems by auto
    with less.hyps [OF wstep_decreases [OF r1]] r1 show ?thesis
      by (metis converse_rtranclp_into_rtranclp)
  qed (use less.prems in blast)
qed

text \<open>
  C11. While the remote is not stopped, waiting for an upload ends: the workers cannot make more
  than two steps per accepted job, as long as something waits or is being uploaded one of them can make a step, and
  their steps lead to a state where every accepted job was sent and every \<^verbatim>\<open>Flush\<close> returns.
\<close>

theorem flush_returns_eventually:
  assumes "rstep\<^sup>*\<^sup>* (queue_started threads) r" and "0 < threads" and "\<not> closed r"
  shows "(\<forall>n r'. (wstep ^^ n) r r' \<longrightarrow> n \<le> 2 * length (jobs r @ busy r)) \<and>
    (jobs r @ busy r \<noteq> [] \<longrightarrow> (\<exists>r'. wstep r r')) \<and>
    (\<exists>r'. wstep\<^sup>*\<^sup>* r r' \<and> mset (sent r') = mset (accepted r) \<and> (\<forall>g. Flush_returns g r'))"
proof (intro conjI)
  have i: "rinv r" "workers r \<noteq> []"
    using rsteps_inv [OF assms(1) queue_started_inv] workers_constant [OF assms(1)] assms(2)
    by (auto simp: queue_started_def Start_def queue_init_def)
  have "n + work r' \<le> work r" if "(wstep ^^ n) r r'" for n r'
    using that
  proof (induction n arbitrary: r')
    case (Suc n)
    then show ?case
      using wstep_decreases by (fastforce elim!: relpowp_Suc_E)
  qed simp
  then show "\<forall>n r'. (wstep ^^ n) r r' \<longrightarrow> n \<le> 2 * length (jobs r @ busy r)"
    by (fastforce simp: work_def)
  show "jobs r @ busy r \<noteq> [] \<longrightarrow> (\<exists>r'. wstep r r')"
    using wstep_enabled [OF i(1) assms(3) i(2)] by (auto simp: work_def)
  obtain r' where r': "wstep\<^sup>*\<^sup>* r r'" "work r' = 0" "rinv r'" "accepted r' = accepted r"
    using drains [OF i(1) assms(3) i(2)] by blast
  then have "mset (sent r') = mset (accepted r)" "\<forall>g. Flush_returns g r'"
    by (auto simp: work_def rinv_def in_flight_def Flush_returns_def)
  with r'(1) show "\<exists>r'. wstep\<^sup>*\<^sup>* r r' \<and> mset (sent r') = mset (accepted r) \<and> (\<forall>g. Flush_returns g r')"
    by blast
qed

text \<open>
  C36. After \<^verbatim>\<open>Stop\<close> has returned, the jobs that are still queued are never sent, whatever is
  called later, and a \<^verbatim>\<open>Flush\<close> of their wait group never returns.
\<close>

theorem stop_loses_queue:
  assumes "rstep\<^sup>*\<^sup>* (queue_started threads) r" and "Stop_returns r" and "j \<in> set (jobs r)" and "rstep\<^sup>*\<^sup>* r r'"
  shows "sent r' = sent r \<and> j \<in> set (jobs r') \<and> \<not> Flush_returns (jb_flush j) r'"
proof -
  have stuck: "\<not> wstep a b" if "Stop_returns a" for a b
  proof -
    have "workers a ! i = Exited" if "i < length (workers a)" for i
      using \<open>Stop_returns a\<close> that by (simp add: Stop_returns_def)
    then show ?thesis
      by (auto simp: handle_take_def handle_finish_def elim!: wstep.cases split: if_splits)
  qed
  have "Stop_returns r' \<and> sent r' = sent r \<and> set (jobs r) \<subseteq> set (jobs r')"
    using assms(4)
  proof (induction rule: rtranclp_induct)
    case (step r1 r2)
    from step(2) have "Stop_returns r2 \<and> sent r2 = sent r1 \<and> set (jobs r1) \<subseteq> set (jobs r2)"
    proof cases
      case worker
      then show ?thesis
        using stuck step(3) by blast
    next
      case (exit i)
      then show ?thesis
        using step(3) by (auto simp: Stop_returns_def handle_exit_def split: if_splits
            dest!: set_update_subset_insert [THEN subsetD])
    qed (use step(3) in \<open>auto simp: Stop_returns_def Upload_def Let_def wg_Add_def wg_Done_def Flush_swap_def Stop_close_def
        split: if_splits\<close>)
    with step(3) show ?case
      by auto
  qed (use assms(2) in simp)
  moreover have "rinv r'"
    using rsteps_inv [OF assms(4)] rsteps_inv [OF assms(1) queue_started_inv] by blast
  ultimately show ?thesis
    using assms(3) by (auto simp: rinv_def in_flight_def Flush_returns_def of_group_def filter_mset_eq_conv)
qed

section \<open>A concrete run\<close>

definition example_job :: job where
  "example_job = \<lparr>jb_upload = zero_job, jb_flush = 0\<rparr>"

abbreviation one_uploaded :: remote where
  "one_uploaded \<equiv> Upload zero_job (queue_started 1)"

abbreviation one_stopped :: remote where
  "one_stopped \<equiv> one_uploaded\<lparr>closed := True, workers := [Exited]\<rparr>"

lemmas queue_eval = queue_started_def Start_def queue_init_def Upload_def wg_Add_def wg_Done_def queue_capacity_def Let_def
  handle_take_def handle_finish_def handle_exit_def Stop_close_def Flush_swap_def example_job_def busy_def

lemma one_uploaded_reached: "rstep\<^sup>*\<^sup>* (queue_started 1) one_uploaded"
  by (rule r_into_rtranclp) (rule rstep.upload)

lemma one_stopped_reached: "rstep\<^sup>*\<^sup>* (queue_started 1) one_stopped"
proof -
  have "rstep one_uploaded (one_uploaded\<lparr>closed := True\<rparr>)"
    by (rule rstep.stop) (simp add: queue_eval)
  moreover have "rstep (one_uploaded\<lparr>closed := True\<rparr>) one_stopped"
    by (rule rstep.exit [of 0]) (simp add: queue_eval)
  ultimately show ?thesis
    using one_uploaded_reached by (meson rtranclp.rtrancl_into_rtrancl)
qed

theorem queue_delivery_witness:
  "length (jobs one_uploaded) \<le> queue_capacity \<and> accepted one_uploaded = [example_job] \<and> taken one_uploaded = [] \<and>
   counts one_uploaded 0 = 1"
  using queue_delivery [OF one_uploaded_reached] by (simp add: queue_eval)


theorem flush_returns_eventually_witness:
  "\<exists>r'. wstep\<^sup>*\<^sup>* one_uploaded r' \<and> mset (sent r') = {#example_job#} \<and> Flush_returns 0 r'"
  using flush_returns_eventually [OF one_uploaded_reached] by (auto simp: queue_eval)

theorem stop_loses_queue_witness:
  "Stop_returns one_stopped \<and> example_job \<in> set (jobs one_stopped) \<and>
   sent (snd (Flush_swap one_stopped)) = [] \<and> \<not> Flush_returns 0 (snd (Flush_swap one_stopped))"
proof -
  have "rstep\<^sup>*\<^sup>* one_stopped (snd (Flush_swap one_stopped))"
    by (rule r_into_rtranclp) (rule rstep.flush)
  moreover have "Stop_returns one_stopped" "example_job \<in> set (jobs one_stopped)" "jb_flush example_job = 0" "sent one_stopped = []"
    by (simp_all add: queue_eval Stop_returns_def)
  ultimately show ?thesis
    using stop_loses_queue [OF one_stopped_reached] by metis
qed

end
