(* ===== verification/RemoteRequest.thy ===== *)
theory RemoteRequest
  imports RemoteQueue GoStrings "HOL-Library.AList"
begin

text \<open>
  The upload of one job (\<^verbatim>\<open>NewRemote\<close>, \<^verbatim>\<open>uploadProfile\<close>, \<^verbatim>\<open>safeUpload\<close> in
  \<^verbatim>\<open>upstream/remote/remote.go\<close>).

  A URL is the record of the parts the code reads and writes; parsing an address, joining paths and rendering a URL
  for a request are the functions of \<open>url_ops\<close>, an argument.  The HTTP client is an argument too: it returns an
  error or a response, or panics.  A header of basic authentication is kept as its user and password, the content
  type of the form without its random boundary, and the form as its parts.
\<close>

section \<open>Definitions\<close>

record url =
  u_Host :: string
  u_Path :: string
  u_Query :: "(string \<times> string list) list"

record url_ops =
  url_Parse :: "string \<Rightarrow> string + url"
  path_Join :: "string \<Rightarrow> string \<Rightarrow> string"
  url_reject :: "url \<Rightarrow> string option"

record 'client Config =
  AuthToken :: string
  BasicAuthUser :: string
  BasicAuthPassword :: string
  TenantID :: string
  HTTPHeaders :: "(string \<times> string) list"
  Threads :: nat
  Address :: string
  Timeout :: int
  HTTPClient :: "'client option"

datatype header_value = Text string | BasicAuth string string | FormContentType

datatype part = FilePart string string "u8 list" | JsonPart string string "(string \<times> SampleType) list"

record request =
  rq_url :: url
  rq_header :: "(string \<times> header_value) list"
  rq_parts :: "part list"

record http_response =
  StatusCode :: nat
  ReadBody :: "string + string"

datatype upload_error = ErrUrlParse string | ErrNewRequest string | ErrDo string | ErrReadBody string | ErrStatus nat string

datatype 'client client = DefaultClient nat int | CustomClient 'client

record 'client Remote =
  rm_cfg :: "'client Config"
  rm_client :: "'client client"
  rm_queue :: remote

datatype remote_error = ErrAddress string | errCloudTokenRequired

definition cloudHostnameSuffix :: string where
  "cloudHostnameSuffix = ''pyroscope.cloud''"

definition isOGPyroscopeCloud :: "url \<Rightarrow> bool" where
  "isOGPyroscopeCloud u = suffix cloudHostnameSuffix (u_Host u)"

definition NewRemote :: "url_ops \<Rightarrow> 'client Config \<Rightarrow> remote_error + 'client Remote" where
  "NewRemote ops cfg =
     (let r = \<lparr>rm_cfg = cfg, rm_client = DefaultClient (Threads cfg) (Timeout cfg), rm_queue = queue_init\<rparr>;
          r = (case HTTPClient cfg of None \<Rightarrow> r | Some c \<Rightarrow> r\<lparr>rm_client := CustomClient c\<rparr>) in
      case url_Parse ops (Address cfg) of
        Inl e \<Rightarrow> Inl (ErrAddress e)
      | Inr u \<Rightarrow> if AuthToken cfg = [] \<and> isOGPyroscopeCloud u then Inl errCloudTokenRequired else Inr r)"

text \<open>
  \<^verbatim>\<open>Header.Set\<close> stores under the canonical form of the key: when all its bytes may occur in a header name,
  the first letter and every letter after a hyphen in upper case, the others in lower case.
\<close>

definition letter :: "nat \<Rightarrow> nat \<Rightarrow> char \<Rightarrow> bool" where
  "letter a z c \<longleftrightarrow> a \<le> byte c \<and> byte c \<le> z"

definition token_char :: "char \<Rightarrow> bool" where
  "token_char c \<longleftrightarrow> letter 97 122 c \<or> letter 65 90 c \<or> letter 48 57 c \<or>
     c \<in> set ''!#$%&*+-.^_|~'' \<or> byte c = 39 \<or> byte c = 96"

fun canonical_loop :: "bool \<Rightarrow> string \<Rightarrow> string" where
  "canonical_loop upper [] = []"
| "canonical_loop upper (c # cs) =
     (if upper \<and> letter 97 122 c then char_of (byte c - 32)
      else if \<not> upper \<and> letter 65 90 c then char_of (byte c + 32)
      else c) # canonical_loop (c = CHR ''-'') cs"

definition canonical :: "string \<Rightarrow> string" where
  "canonical k = (if list_all token_char k then canonical_loop True k else k)"

definition header_Set :: "string \<Rightarrow> header_value \<Rightarrow> request \<Rightarrow> request" where
  "header_Set k v q = q\<lparr>rq_header := AList.update (canonical k) v (rq_header q)\<rparr>"

definition query_Set :: "string \<Rightarrow> string \<Rightarrow> (string \<times> string list) list \<Rightarrow> (string \<times> string list) list" where
  "query_Set k v q = AList.update k [v] q"

definition upload_parts :: "UploadJob \<Rightarrow> part list" where
  "upload_parts j =
     FilePart ''profile'' ''profile.pprof'' (uj_Profile j) #
     (case uj_SampleTypeConfig j of
        None \<Rightarrow> []
      | Some c \<Rightarrow> [JsonPart ''sample_type_config'' ''sample_type_config.json'' c])"

definition upload_query :: "UploadJob \<Rightarrow> (string \<times> string list) list \<Rightarrow> (string \<times> string list) list" where
  "upload_query j q =
     (let q = query_Set ''name'' (uj_Name j) q;
          q = query_Set ''from'' (Itoa (uj_StartTime j)) q;
          q = query_Set ''until'' (Itoa (uj_EndTime j)) q;
          q = query_Set ''spyName'' (uj_SpyName j) q;
          q = query_Set ''sampleRate'' (Itoa (int (uj_SampleRate j))) q;
          q = query_Set ''units'' (uj_Units j) q in
      query_Set ''aggregationType'' (uj_AggregationType j) q)"

text \<open>The switch that authorizes the request, and whether it logs the deprecation warning.\<close>

definition authorize :: "'client Config \<Rightarrow> url \<Rightarrow> request \<Rightarrow> request \<times> bool" where
  "authorize cfg u q =
     (if AuthToken cfg \<noteq> [] \<and> isOGPyroscopeCloud u then
        (header_Set ''Authorization'' (Text (''Bearer '' @ AuthToken cfg)) q, False)
      else if BasicAuthUser cfg \<noteq> [] \<and> BasicAuthPassword cfg \<noteq> [] then
        (header_Set ''Authorization'' (BasicAuth (BasicAuthUser cfg) (BasicAuthPassword cfg)) q, False)
      else if AuthToken cfg \<noteq> [] then
        (header_Set ''Authorization'' (Text (''Bearer '' @ AuthToken cfg)) q, True)
      else (q, False))"

fun custom_headers :: "(string \<times> string) list \<Rightarrow> request \<Rightarrow> request" where
  "custom_headers [] q = q"
| "custom_headers ((k, v) # hs) q = custom_headers hs (header_Set k (Text v) q)"

definition build_request :: "url_ops \<Rightarrow> 'client Config \<Rightarrow> UploadJob \<Rightarrow> upload_error + request \<times> bool" where
  "build_request ops cfg j =
     (case url_Parse ops (Address cfg) of
        Inl e \<Rightarrow> Inl (ErrUrlParse e)
      | Inr u \<Rightarrow>
          let u = u\<lparr>u_Path := path_Join ops (u_Path u) ''ingest'', u_Query := upload_query j (u_Query u)\<rparr> in
          case url_reject ops u of
            Some e \<Rightarrow> Inl (ErrNewRequest e)
          | None \<Rightarrow>
              let q = header_Set ''Content-Type'' FormContentType
                        \<lparr>rq_url = u, rq_header = [], rq_parts = upload_parts j\<rparr>;
                  (q, warned) = authorize cfg u q;
                  q = (if TenantID cfg \<noteq> [] then header_Set ''X-Scope-OrgID'' (Text (TenantID cfg)) q else q) in
              Inr (custom_headers (HTTPHeaders cfg) q, warned))"

text \<open>
  The client returns \<^const>\<open>None\<close> when it panics; the result is \<^term>\<open>Some None\<close> on success.
\<close>

definition uploadProfile ::
    "url_ops \<Rightarrow> 'client Config \<Rightarrow> (request \<Rightarrow> (string + http_response) option) \<Rightarrow> UploadJob \<Rightarrow> upload_error option option" where
  "uploadProfile ops cfg client j =
     (case build_request ops cfg j of
        Inl e \<Rightarrow> Some (Some e)
      | Inr (q, _) \<Rightarrow>
          (case client q of
             None \<Rightarrow> None
           | Some (Inl e) \<Rightarrow> Some (Some (ErrDo e))
           | Some (Inr response) \<Rightarrow>
               (case ReadBody response of
                  Inl e \<Rightarrow> Some (Some (ErrReadBody e))
                | Inr body \<Rightarrow>
                    if StatusCode response \<noteq> 200 then Some (Some (ErrStatus (StatusCode response) body))
                    else Some None)))"

text \<open>\<^verbatim>\<open>safeUpload\<close> always returns; what it logs is its value.\<close>

datatype upload_log = Recovered | UploadFailed upload_error | Uploaded

definition safeUpload ::
    "url_ops \<Rightarrow> 'client Config \<Rightarrow> (request \<Rightarrow> (string + http_response) option) \<Rightarrow> UploadJob \<Rightarrow> upload_log" where
  "safeUpload ops cfg client j =
     (case uploadProfile ops cfg client j of
        None \<Rightarrow> Recovered
      | Some (Some e) \<Rightarrow> UploadFailed e
      | Some None \<Rightarrow> Uploaded)"

section \<open>Headers\<close>

lemma custom_headers_sel [simp]:
  "rq_url (custom_headers hs q) = rq_url q" "rq_parts (custom_headers hs q) = rq_parts q"
  by (induction hs q rule: custom_headers.induct) (simp_all add: header_Set_def)

definition custom_value :: "(string \<times> string) list \<Rightarrow> string \<Rightarrow> string option" where
  "custom_value hs k = map_of (rev (map (\<lambda>(k, v). (canonical k, v)) hs)) k"

lemma custom_headers_get:
  "map_of (rq_header (custom_headers hs q)) k =
     (case custom_value hs k of Some v \<Rightarrow> Some (Text v) | None \<Rightarrow> map_of (rq_header q) k)"
  by (induction hs q rule: custom_headers.induct)
     (auto simp: custom_value_def header_Set_def update_conv' map_add_def split: option.split)

lemma canonical_names:
  "canonical ''Authorization'' = ''Authorization''" "canonical ''Content-Type'' = ''Content-Type''"
  "canonical ''X-Scope-OrgID'' = ''X-Scope-Orgid''"
  by (simp_all add: canonical_def token_char_def letter_def byte_def char_of_def bit_0)

text \<open>What authorizes a request to a host.\<close>

definition credentials :: "'client Config \<Rightarrow> url \<Rightarrow> header_value option" where
  "credentials cfg u =
     (case custom_value (HTTPHeaders cfg) ''Authorization'' of
        Some v \<Rightarrow> Some (Text v)
      | None \<Rightarrow>
          if AuthToken cfg \<noteq> [] \<and> (isOGPyroscopeCloud u \<or> BasicAuthUser cfg = [] \<or> BasicAuthPassword cfg = [])
          then Some (Text (''Bearer '' @ AuthToken cfg))
          else if BasicAuthUser cfg \<noteq> [] \<and> BasicAuthPassword cfg \<noteq> []
          then Some (BasicAuth (BasicAuthUser cfg) (BasicAuthPassword cfg))
          else None)"

lemma authorize_sel:
  "rq_url (fst (authorize cfg u q)) = rq_url q" "rq_parts (fst (authorize cfg u q)) = rq_parts q"
  "snd (authorize cfg u q) \<longleftrightarrow>
     AuthToken cfg \<noteq> [] \<and> \<not> isOGPyroscopeCloud u \<and> (BasicAuthUser cfg = [] \<or> BasicAuthPassword cfg = [])"
  by (auto simp: authorize_def header_Set_def)

lemma header_Set_get:
  "map_of (rq_header (header_Set n v q)) k = (if canonical n = k then Some v else map_of (rq_header q) k)"
  by (simp add: header_Set_def update_conv')

lemma authorize_get:
  "map_of (rq_header (fst (authorize cfg u q))) ''Authorization'' =
     (if AuthToken cfg \<noteq> [] \<and> (isOGPyroscopeCloud u \<or> BasicAuthUser cfg = [] \<or> BasicAuthPassword cfg = [])
      then Some (Text (''Bearer '' @ AuthToken cfg))
      else if BasicAuthUser cfg \<noteq> [] \<and> BasicAuthPassword cfg \<noteq> []
      then Some (BasicAuth (BasicAuthUser cfg) (BasicAuthPassword cfg))
      else map_of (rq_header q) ''Authorization'')"
  by (auto simp: authorize_def header_Set_get canonical_names)

definition query_names :: "string list" where
  "query_names = [''name'', ''from'', ''until'', ''spyName'', ''sampleRate'', ''units'', ''aggregationType'']"

lemma isOG_upd [simp]: "isOGPyroscopeCloud (u\<lparr>u_Path := p, u_Query := q\<rparr>) = isOGPyroscopeCloud u"
  by (simp add: isOGPyroscopeCloud_def)

lemma build_request_cases:
  assumes "build_request ops cfg j = Inr (q, warned)"
  obtains u where "url_Parse ops (Address cfg) = Inr u"
    "rq_url q = u\<lparr>u_Path := path_Join ops (u_Path u) ''ingest'', u_Query := upload_query j (u_Query u)\<rparr>"
    "rq_parts q = upload_parts j" "map_of (rq_header q) ''Authorization'' = credentials cfg u"
    "warned \<longleftrightarrow> AuthToken cfg \<noteq> [] \<and> \<not> isOGPyroscopeCloud u \<and> (BasicAuthUser cfg = [] \<or> BasicAuthPassword cfg = [])"
proof -
  obtain u where u: "url_Parse ops (Address cfg) = Inr u"
    using assms by (cases "url_Parse ops (Address cfg)") (simp_all add: build_request_def)
  let ?u = "u\<lparr>u_Path := path_Join ops (u_Path u) ''ingest'', u_Query := upload_query j (u_Query u)\<rparr>"
  have "url_reject ops ?u = None"
    using assms u by (cases "url_reject ops ?u") (simp_all add: build_request_def Let_def)
  let ?q = "header_Set ''Content-Type'' FormContentType \<lparr>rq_url = ?u, rq_header = [], rq_parts = upload_parts j\<rparr>"
  let ?a = "fst (authorize cfg ?u ?q)"
  let ?t = "if TenantID cfg \<noteq> [] then header_Set ''X-Scope-OrgID'' (Text (TenantID cfg)) ?a else ?a"
  have q: "q = custom_headers (HTTPHeaders cfg) ?t" "warned = snd (authorize cfg ?u ?q)"
    using assms u \<open>url_reject ops ?u = None\<close>
    by (simp_all add: build_request_def Let_def case_prod_beta)
  have t: "rq_url ?t = ?u" "rq_parts ?t = upload_parts j"
    by (simp_all add: authorize_sel header_Set_def)
  have "map_of (rq_header ?t) ''Authorization'' = map_of (rq_header ?a) ''Authorization''"
    by (simp add: header_Set_get canonical_names)
  also have "\<dots> =
     (if AuthToken cfg \<noteq> [] \<and> (isOGPyroscopeCloud u \<or> BasicAuthUser cfg = [] \<or> BasicAuthPassword cfg = [])
      then Some (Text (''Bearer '' @ AuthToken cfg))
      else if BasicAuthUser cfg \<noteq> [] \<and> BasicAuthPassword cfg \<noteq> []
      then Some (BasicAuth (BasicAuthUser cfg) (BasicAuthPassword cfg))
      else None)"
    unfolding authorize_get isOG_upd header_Set_get canonical_names by simp
  finally have "map_of (rq_header q) ''Authorization'' = credentials cfg u"
    unfolding q(1) custom_headers_get credentials_def by (simp only:)
  with u show ?thesis
    using q(2) by (intro that [of u]) (simp_all add: q(1) t authorize_sel)
qed

section \<open>Properties\<close>

text \<open>
  The request of an upload: it goes to the path \<^verbatim>\<open>ingest\<close> under the configured address,
  carries the fields of the job in the query, each exactly once, in place of what the address has under these names,
  with the rest of the address's query, and the profile, with the sample types if there are any, as the form.
\<close>

theorem upload_request:
  assumes "build_request ops cfg j = Inr (q, warned)"
  shows "\<exists>u. url_Parse ops (Address cfg) = Inr u \<and> u_Host (rq_url q) = u_Host u \<and>
    u_Path (rq_url q) = path_Join ops (u_Path u) ''ingest'' \<and>
    map_of (u_Query (rq_url q)) ''name'' = Some [uj_Name j] \<and>
    map_of (u_Query (rq_url q)) ''from'' = Some [Itoa (uj_StartTime j)] \<and>
    map_of (u_Query (rq_url q)) ''until'' = Some [Itoa (uj_EndTime j)] \<and>
    map_of (u_Query (rq_url q)) ''sampleRate'' = Some [Itoa (int (uj_SampleRate j))] \<and>
    (\<forall>k. k \<notin> set query_names \<longrightarrow> map_of (u_Query (rq_url q)) k = map_of (u_Query u) k) \<and>
    rq_parts q = FilePart ''profile'' ''profile.pprof'' (uj_Profile j) #
      (case uj_SampleTypeConfig j of None \<Rightarrow> [] | Some c \<Rightarrow> [JsonPart ''sample_type_config'' ''sample_type_config.json'' c])"
  using assms
  by (elim build_request_cases)
     (simp add: upload_query_def query_Set_def update_conv' query_names_def upload_parts_def)

text \<open>
  C38. What authorizes the request: a configured header of that name before everything; then the
  token when the host is the cloud or no basic credentials are complete; then the basic credentials; else nothing.
\<close>

theorem authorization_precedence:
  assumes "build_request ops cfg j = Inr (q, warned)"
  shows "\<exists>u. url_Parse ops (Address cfg) = Inr u \<and> map_of (rq_header q) ''Authorization'' = credentials cfg u"
  using assms by (elim build_request_cases) blast

text \<open>
  Whenever the warning is logged that the token is deprecated and ignored, the request carries
  the token, unless a configured header replaces it.
\<close>

theorem deprecated_token_sent:
  assumes "build_request ops cfg j = Inr (q, True)" and "custom_value (HTTPHeaders cfg) ''Authorization'' = None"
  shows "map_of (rq_header q) ''Authorization'' = Some (Text (''Bearer '' @ AuthToken cfg))"
  using assms(1) by (elim build_request_cases) (auto simp: credentials_def assms(2))

text \<open>
  An upload is reported as successful exactly when the request could be built, the client returned
  a response whose body could be read, and its status was 200; a panic of the client is caught.
\<close>

theorem upload_succeeds_iff:
  "(safeUpload ops cfg client j = Uploaded \<longleftrightarrow>
     (\<exists>q w r b. build_request ops cfg j = Inr (q, w) \<and> client q = Some (Inr r) \<and> ReadBody r = Inr b \<and> StatusCode r = 200)) \<and>
   (safeUpload ops cfg client j = Recovered \<longleftrightarrow>
     (\<exists>q w. build_request ops cfg j = Inr (q, w) \<and> client q = None))"
proof (cases "build_request ops cfg j")
  case (Inr x)
  then show ?thesis
    by (cases x) (auto simp: safeUpload_def uploadProfile_def split: option.split sum.split)
qed (simp add: safeUpload_def uploadProfile_def)

section \<open>A concrete upload\<close>

definition example_url_ops :: url_ops where
  "example_url_ops = \<lparr>
     url_Parse = (\<lambda>s. Inr \<lparr>u_Host = s, u_Path = ''/p'', u_Query = [(''name'', [''x'', ''y'']), (''t'', [''1''])]\<rparr>),
     path_Join = (\<lambda>a b. a @ ''/'' @ b), url_reject = (\<lambda>_. None)\<rparr>"

definition example_config :: "unit Config" where
  "example_config = \<lparr>AuthToken = ''tok'', BasicAuthUser = [], BasicAuthPassword = [], TenantID = ''t1'',
     HTTPHeaders = [(''x-extra'', ''1'')], Threads = 5, Address = ''localhost'', Timeout = 30 * Second, HTTPClient = None\<rparr>"

definition example_request :: request where
  "example_request = fst (projr (build_request example_url_ops example_config (zero_job\<lparr>uj_Name := ''app''\<rparr>)))"

lemma example_built: "build_request example_url_ops example_config (zero_job\<lparr>uj_Name := ''app''\<rparr>) = Inr (example_request, True)"
  by (simp add: example_request_def build_request_def example_url_ops_def example_config_def Let_def authorize_def
      isOGPyroscopeCloud_def cloudHostnameSuffix_def suffix_def)

theorem upload_request_witness:
  "map_of (u_Query (rq_url example_request)) ''name'' = Some [''app''] \<and>
   map_of (u_Query (rq_url example_request)) ''t'' = Some [''1''] \<and> u_Path (rq_url example_request) = ''/p/ingest''"
  using upload_request [OF example_built] by (simp add: example_url_ops_def query_names_def)

theorem authorization_precedence_witness:
  "map_of (rq_header example_request) ''Authorization'' = Some (Text ''Bearer tok'')"
  using authorization_precedence [OF example_built]
  by (auto simp: example_url_ops_def example_config_def credentials_def custom_value_def canonical_def token_char_def
      letter_def byte_def)

theorem deprecated_token_sent_witness:
  "\<exists>q. build_request example_url_ops example_config (zero_job\<lparr>uj_Name := ''app''\<rparr>) = Inr (q, True) \<and>
     map_of (rq_header q) ''Authorization'' = Some (Text (''Bearer '' @ AuthToken example_config))"
proof -
  have "custom_value (HTTPHeaders example_config) ''Authorization'' = None"
    by (simp add: example_config_def custom_value_def canonical_def token_char_def letter_def byte_def)
  then show ?thesis
    using deprecated_token_sent [OF example_built] example_built by blast
qed

end
