(* ===== verification/Session.thy ===== *)
theory Session
  imports Semconv CpuCollector RemoteRequest
begin

text \<open>
  A profiling session (\<^verbatim>\<open>session.go\<close>), its identifier (\<^verbatim>\<open>session_id.go\<close>) and the public
  entry point (\<^verbatim>\<open>api.go\<close>).

  The loop of a session serves ticks, flushes and the stop.  What happens outside a session during one upload (the
  profiles of the runtime, the delta profilers, the garbage collector's counter) is a record \<open>snapshot\<close>, an
  argument; the delta profilers are functions on their own state, of any type.  The jobs handed to the upstream are a
  list, in order.
\<close>

section \<open>Session identifiers (session\_id.go)\<close>

type_synonym sessionID = u64

definition le_bytes :: "u64 \<Rightarrow> u8 list" where
  "le_bytes s = map (\<lambda>i. ucast (drop_bit (8 * i) s)) [0..<8]"

definition le_uint64 :: "u8 list \<Rightarrow> u64" where
  "le_uint64 bs = fold (\<lambda>i w. or w (push_bit (8 * i) (ucast (bs ! i)))) [0..<8] 0"

definition sessionID_String :: "sessionID \<Rightarrow> string" where
  "sessionID_String s = hex_encode (le_bytes s)"

text \<open>The generator reads eight bytes from its source of random numbers, which is the argument.\<close>

definition newSessionID :: "u8 list \<Rightarrow> sessionID" where
  "newSessionID b = le_uint64 b"

text \<open>The seed is the FNV-1a hash of the host name, or random bytes when the host has none.\<close>

definition fnv64a :: "u8 list \<Rightarrow> u64" where
  "fnv64a bs = fold (\<lambda>b h. (xor h (ucast b)) * 1099511628211) bs 14695981039346656037"

definition sessionIDHostSeed :: "u8 list option \<Rightarrow> i64 \<times> bool" where
  "sessionIDHostSeed hostname = (case hostname of None \<Rightarrow> (0, False) | Some v \<Rightarrow> (fnv64a v, True))"

definition sessionIDRandSeed :: "u8 list \<Rightarrow> i64" where
  "sessionIDRandSeed random = le_uint64 random"

definition newSessionIDGenerator_seed :: "u8 list option \<Rightarrow> u8 list \<Rightarrow> i64" where
  "newSessionIDGenerator_seed hostname random =
     (case sessionIDHostSeed hostname of (s, ok) \<Rightarrow> if \<not> ok then sessionIDRandSeed random else s)"

section \<open>Sessions\<close>

datatype loop_state = NotStarted | Running | Blocked | Ended

record ('h, 'b) Session =
  profileTypes :: "ProfileType list"
  uploadRate :: int
  disableGCRuns :: bool
  memBuf :: "u8 list"
  goroutinesBuf :: "u8 list"
  goroutineLeakBuf :: "u8 list"
  mutexBuf :: "u8 list"
  blockBuf :: "u8 list"
  lastGCGeneration :: "32 word"
  appNames :: AppNames
  startTime :: "time option"
  deltaBlock :: 'b
  deltaMutex :: 'b
  deltaHeap :: 'h
  loop :: loop_state
  cpuLoop :: bool

record SessionConfig =
  sc_AppName :: string
  sc_Tags :: go_map
  sc_ProfilingTypes :: "ProfileType list"
  sc_DisableGCRuns :: bool
  sc_UploadRate :: int
  sc_DisableAutomaticResets :: bool

definition NewSession ::
    "parser option \<Rightarrow> runtime_info \<Rightarrow> u8 list \<Rightarrow> 'h \<Rightarrow> 'b \<Rightarrow> 'b \<Rightarrow> SessionConfig \<Rightarrow> go_error + ('h, 'b) Session" where
  "NewSession pool rt random heap block mutex c =
     (let rate = (if sc_UploadRate c = 0 then 15 * Second else sc_UploadRate c);
          rate = (if sc_DisableAutomaticResets c then maxDuration else rate) in
      case MergeTagsWithAppName pool rt (sc_AppName c) (sessionID_String (newSessionID random)) (sc_Tags c) of
        Inl e \<Rightarrow> Inl e
      | Inr names \<Rightarrow>
          Inr \<lparr>profileTypes = sc_ProfilingTypes c, uploadRate = rate, disableGCRuns = sc_DisableGCRuns c,
               memBuf = [], goroutinesBuf = [], goroutineLeakBuf = [], mutexBuf = [], blockBuf = [],
               lastGCGeneration = 0, appNames = names, startTime = None,
               deltaBlock = block, deltaMutex = mutex, deltaHeap = heap, loop = NotStarted, cpuLoop = False\<rparr>)"

fun has_type :: "(ProfileType \<Rightarrow> bool) \<Rightarrow> ProfileType list \<Rightarrow> bool" where
  "has_type P [] = False"
| "has_type P (t # ts) = (if P t then True else has_type P ts)"

definition isCPUEnabled :: "('h, 'b) Session \<Rightarrow> bool" where
  "isCPUEnabled ps = has_type (\<lambda>t. t = ProfileCPU) (profileTypes ps)"

definition isMemEnabled :: "('h, 'b) Session \<Rightarrow> bool" where
  "isMemEnabled ps = has_type (\<lambda>t. t = ProfileInuseObjects \<or> t = ProfileAllocObjects \<or> t = ProfileInuseSpace \<or>
     t = ProfileAllocSpace) (profileTypes ps)"

definition isBlockEnabled :: "('h, 'b) Session \<Rightarrow> bool" where
  "isBlockEnabled ps = has_type (\<lambda>t. t = ProfileBlockCount \<or> t = ProfileBlockDuration) (profileTypes ps)"

definition isMutexEnabled :: "('h, 'b) Session \<Rightarrow> bool" where
  "isMutexEnabled ps = has_type (\<lambda>t. t = ProfileMutexCount \<or> t = ProfileMutexDuration) (profileTypes ps)"

definition isGoroutinesEnabled :: "('h, 'b) Session \<Rightarrow> bool" where
  "isGoroutinesEnabled ps = has_type (\<lambda>t. t = ProfileGoroutines) (profileTypes ps)"

definition isGoroutineLeakEnabled :: "('h, 'b) Session \<Rightarrow> bool" where
  "isGoroutineLeakEnabled ps = has_type (\<lambda>t. t = ProfileGoroutineLeak) (profileTypes ps)"

text \<open>What a profiler does to its writer: it writes and returns, writes a part and fails, or panics.\<close>

datatype dump = Wrote "u8 list" | Failed "u8 list" | Panicked "u8 list"

text \<open>
  The environment of one upload: the goroutine profiles, \<^const>\<open>None\<close> when the runtime has no such profile,
  with the bytes written and whether writing failed; the calls of the three delta profilers; and the number of
  completed garbage collections, now and after a forced one.
\<close>

record ('h, 'b) snapshot =
  goroutine :: "(u8 list \<times> bool) option"
  goroutineleak :: "(u8 list \<times> bool) option"
  heap_Profile :: "'h \<Rightarrow> dump \<times> 'h"
  block_Profile :: "'b \<Rightarrow> dump \<times> 'b"
  mutex_Profile :: "'b \<Rightarrow> dump \<times> 'b"
  numGC :: "32 word"
  numGC_after_GC :: "32 word"

type_synonym ('h, 'b) session_state = "('h, 'b) Session \<times> UploadJob list"

definition dumped :: "dump \<Rightarrow> u8 list" where
  "dumped d = (case d of Wrote b \<Rightarrow> b | Failed b \<Rightarrow> b | Panicked b \<Rightarrow> b)"

definition delta_job :: "string \<Rightarrow> time \<Rightarrow> time \<Rightarrow> u8 list \<Rightarrow> (string \<times> SampleType) list \<Rightarrow> UploadJob" where
  "delta_job name st en b cfg = zero_job\<lparr>uj_Name := name, uj_StartTime := st, uj_EndTime := en, uj_SpyName := ''gospy'',
     uj_Format := FormatPprof, uj_Profile := b, uj_SampleTypeConfig := Some cfg\<rparr>"

definition dumpHeapProfile :: "('h, 'b) snapshot \<Rightarrow> time \<Rightarrow> time \<Rightarrow> ('h, 'b) session_state \<Rightarrow> ('h, 'b) session_state" where
  "dumpHeapProfile en st et = (\<lambda>(ps, js).
     let cur = numGC en;
         cur = (if cur = lastGCGeneration ps \<and> \<not> disableGCRuns ps then numGC_after_GC en else cur) in
     if cur \<noteq> lastGCGeneration ps then
       (case heap_Profile en (deltaHeap ps) of (d, h) \<Rightarrow>
          let ps = ps\<lparr>memBuf := dumped d, deltaHeap := h\<rparr> in
          case d of
            Wrote b \<Rightarrow>
              (ps\<lparr>lastGCGeneration := cur\<rparr>,
               js @ [(delta_job (Godeltaprof (appNames ps)) st et (memBuf ps) sampleTypeConfigHeap)\<lparr>uj_SampleRate := 100\<rparr>])
          | _ \<Rightarrow> (ps, js))
     else (ps, js))"

definition dumpMutexProfile :: "('h, 'b) snapshot \<Rightarrow> time \<Rightarrow> time \<Rightarrow> ('h, 'b) session_state \<Rightarrow> ('h, 'b) session_state" where
  "dumpMutexProfile en st et = (\<lambda>(ps, js).
     case mutex_Profile en (deltaMutex ps) of (d, m) \<Rightarrow>
       let ps = ps\<lparr>mutexBuf := dumped d, deltaMutex := m\<rparr> in
       case d of
         Wrote b \<Rightarrow> (ps, js @ [delta_job (Godeltaprof (appNames ps)) st et (mutexBuf ps) sampleTypeConfigMutex])
       | _ \<Rightarrow> (ps, js))"

definition dumpBlockProfile :: "('h, 'b) snapshot \<Rightarrow> time \<Rightarrow> time \<Rightarrow> ('h, 'b) session_state \<Rightarrow> ('h, 'b) session_state" where
  "dumpBlockProfile en st et = (\<lambda>(ps, js).
     case block_Profile en (deltaBlock ps) of (d, m) \<Rightarrow>
       let ps = ps\<lparr>blockBuf := dumped d, deltaBlock := m\<rparr> in
       case d of
         Wrote b \<Rightarrow> (ps, js @ [delta_job (Godeltaprof (appNames ps)) st et (blockBuf ps) sampleTypeConfigBlock])
       | _ \<Rightarrow> (ps, js))"

definition goroutine_job :: "string \<Rightarrow> time \<Rightarrow> time \<Rightarrow> u8 list \<Rightarrow> (string \<times> SampleType) list \<Rightarrow> UploadJob" where
  "goroutine_job name st en b cfg = zero_job\<lparr>uj_Name := name, uj_StartTime := st, uj_EndTime := en, uj_SpyName := ''gospy'',
     uj_Units := ''goroutines'', uj_AggregationType := ''average'', uj_Format := FormatPprof, uj_Profile := b,
     uj_SampleTypeConfig := Some cfg\<rparr>"

definition sampleTypeConfigGoroutine :: "(string \<times> SampleType) list" where
  "sampleTypeConfigGoroutine =
     [(''goroutine'', zero_SampleType\<lparr>st_DisplayName := ''goroutines'', st_Units := ''goroutines'', st_Aggregation := ''average''\<rparr>)]"

text \<open>
  The two goroutine profiles; the last component is false when the function returns early.  Their buffers are reset
  after an upload and not before a dump.
\<close>

definition dumpGoroutines :: "('h, 'b) snapshot \<Rightarrow> time \<Rightarrow> time \<Rightarrow> ('h, 'b) session_state \<Rightarrow> ('h, 'b) session_state \<times> bool" where
  "dumpGoroutines en st et = (\<lambda>(ps, js).
     case goroutine en of
       None \<Rightarrow> ((ps, js), True)
     | Some (b, failed) \<Rightarrow>
         let ps = ps\<lparr>goroutinesBuf := goroutinesBuf ps @ b\<rparr> in
         if failed then ((ps, js), False)
         else ((ps\<lparr>goroutinesBuf := []\<rparr>,
                js @ [goroutine_job (SDK (appNames ps)) st et (goroutinesBuf ps) sampleTypeConfigGoroutine]), True))"

definition dumpGoroutineLeak :: "('h, 'b) snapshot \<Rightarrow> time \<Rightarrow> time \<Rightarrow> ('h, 'b) session_state \<Rightarrow> ('h, 'b) session_state \<times> bool" where
  "dumpGoroutineLeak en st et = (\<lambda>(ps, js).
     case goroutineleak en of
       None \<Rightarrow> ((ps, js), True)
     | Some (b, failed) \<Rightarrow>
         let ps = ps\<lparr>goroutineLeakBuf := goroutineLeakBuf ps @ b\<rparr> in
         if failed then ((ps, js), False)
         else ((ps\<lparr>goroutineLeakBuf := []\<rparr>,
                js @ [goroutine_job (SDK (appNames ps)) st et (goroutineLeakBuf ps) sampleTypeConfigGoroutineLeak]), True))"

definition uploadData :: "('h, 'b) snapshot \<Rightarrow> time \<Rightarrow> time \<Rightarrow> ('h, 'b) session_state \<Rightarrow> ('h, 'b) session_state" where
  "uploadData en st et s =
     (case (if isGoroutinesEnabled (fst s) then dumpGoroutines en st et s else (s, True)) of
        (s, False) \<Rightarrow> s
      | (s, True) \<Rightarrow>
          (case (if isGoroutineLeakEnabled (fst s) then dumpGoroutineLeak en st et s else (s, True)) of
             (s, False) \<Rightarrow> s
           | (s, True) \<Rightarrow>
               let s = (if isBlockEnabled (fst s) then dumpBlockProfile en st et s else s);
                   s = (if isMutexEnabled (fst s) then dumpMutexProfile en st et s else s) in
               if isMemEnabled (fst s) then dumpHeapProfile en st et s else s))"

text \<open>\<^verbatim>\<open>reset\<close>; its first argument is the zero time only before the first call.\<close>

definition session_reset :: "('h, 'b) snapshot \<Rightarrow> time \<Rightarrow> time \<Rightarrow> ('h, 'b) session_state \<Rightarrow> ('h, 'b) session_state" where
  "session_reset en st et s =
     (let (ps, js) = (if startTime (fst s) \<noteq> None then uploadData en st et s else s) in
      (ps\<lparr>startTime := Some et\<rparr>, js))"

text \<open>
  \<^verbatim>\<open>Truncate\<close> rounds down to a multiple of the duration since the zero time, the year 1; a time here
  counts from 1970.
\<close>

definition unix_offset :: int where
  "unix_offset = 62135596800 * Second"

definition Truncate :: "int \<Rightarrow> time \<Rightarrow> time" where
  "Truncate d t = (if d \<le> 0 then t else t - (t + unix_offset) mod d)"

definition truncatedTime :: "('h, 'b) Session \<Rightarrow> time \<Rightarrow> time" where
  "truncatedTime ps now = Truncate (uploadRate ps) now"

definition Session_Start :: "('h, 'b) snapshot \<Rightarrow> time \<Rightarrow> ('h, 'b) session_state \<Rightarrow> ('h, 'b) session_state" where
  "Session_Start en now s =
     (let t = truncatedTime (fst s) now;
          (ps, js) = session_reset en t t s in
      (ps\<lparr>loop := Running, cpuLoop := isCPUEnabled ps\<rparr>, js))"

section \<open>The loop of a session\<close>

text \<open>A reset of the running session, from its start time.\<close>

definition reset_from :: "('h, 'b) snapshot \<Rightarrow> time \<Rightarrow> ('h, 'b) session_state \<Rightarrow> ('h, 'b) session_state" where
  "reset_from en et s = session_reset en (case startTime (fst s) of None \<Rightarrow> 0 | Some t \<Rightarrow> t) et s"

definition take_tick :: "('h, 'b) snapshot \<Rightarrow> time \<Rightarrow> ('h, 'b) session_state \<Rightarrow> ('h, 'b) session_state" where
  "take_tick en et s = reset_from en et s"

text \<open>
  The flush case: after the reset it sends an event to the CPU collector and waits for the answer.  The channel of the
  events has no buffer, so with no collector loop to receive the event the session's loop is blocked for good.
  Otherwise it waits for the upstream, and \<^verbatim>\<open>f.wg.Done()\<close> lets the caller go on.
\<close>

definition take_flush :: "('h, 'b) snapshot \<Rightarrow> time \<Rightarrow> ('h, 'b) session_state \<Rightarrow> ('h, 'b) session_state \<times> bool" where
  "take_flush en now s =
     (let (ps, js) = reset_from en (truncatedTime (fst s) now) s in
      if cpuLoop ps then ((ps, js), True) else ((ps\<lparr>loop := Blocked\<rparr>, js), False))"

definition take_stop :: "('h, 'b) session_state \<Rightarrow> ('h, 'b) session_state" where
  "take_stop = (\<lambda>(ps, js). (ps\<lparr>loop := Ended, cpuLoop := False\<rparr>, js))"

inductive snap_step :: "('h, 'b) session_state \<Rightarrow> ('h, 'b) session_state \<Rightarrow> bool" where
  tick: "loop (fst s) = Running \<Longrightarrow> snap_step s (take_tick en et s)"
| flush: "loop (fst s) = Running \<Longrightarrow> snap_step s (fst (take_flush en now s))"
| stop: "loop (fst s) = Running \<Longrightarrow> snap_step s (take_stop s)"

section \<open>Session identifiers\<close>

lemma length_le_bytes: "length (le_bytes s) = 8"
  by (simp add: le_bytes_def)

lemma bit_byte: "n < 8 \<Longrightarrow> bit (ucast (drop_bit (8 * i) s) :: u8) n = bit s (8 * i + n)"
  by (simp add: bit_simps add.commute)

lemma bit_pushed:
  "bit (push_bit (8 * i) (ucast (b :: u8)) :: u64) m \<longleftrightarrow> 8 * i \<le> m \<and> m < 64 \<and> m - 8 * i < 8 \<and> bit b (m - 8 * i)"
  by (auto simp: bit_simps dest: bit_imp_le_length)

lemma bit_fold_or:
  "bit (fold (\<lambda>i w. or w (f i)) xs (w0 :: u64)) m \<longleftrightarrow> bit w0 m \<or> (\<exists>i \<in> set xs. bit (f i) m)"
  by (induction xs arbitrary: w0) (auto simp: bit_simps)

lemma le_bytes_uint64:
  assumes "length b = 8"
  shows "le_bytes (le_uint64 b) = b"
proof (rule nth_equalityI)
  show "length (le_bytes (le_uint64 b)) = length b"
    by (simp add: length_le_bytes assms)
next
  fix k
  assume "k < length (le_bytes (le_uint64 b))"
  then have k: "k < 8"
    by (simp add: length_le_bytes)
  have "bit (ucast (drop_bit (8 * k) (le_uint64 b)) :: u8) n = bit (b ! k) n" if n: "n < 8" for n
  proof -
    have "8 * k + n < 64"
      using k n by linarith
    then have "bit (le_uint64 b) (8 * k + n) \<longleftrightarrow> (\<exists>i < 8. 8 * i \<le> 8 * k + n \<and> 8 * k + n - 8 * i < 8 \<and> bit (b ! i) (8 * k + n - 8 * i))"
      unfolding le_uint64_def bit_fold_or bit_pushed by (simp add: Bex_def)
    also have "\<dots> \<longleftrightarrow> bit (b ! k) n"
    proof -
      have "i = k" if "8 * i \<le> 8 * k + n" "8 * k + n - 8 * i < 8" for i
        using that n by linarith
      moreover have "8 * k + n - 8 * k = n"
        by simp
      ultimately show ?thesis
        using k n by (metis le_add1)
    qed
    finally show ?thesis
      using n by (simp add: bit_byte)
  qed
  then have "(ucast (drop_bit (8 * k) (le_uint64 b)) :: u8) = b ! k"
    by (intro bit_word_eqI) simp
  then show "le_bytes (le_uint64 b) ! k = b ! k"
    using k by (simp add: le_bytes_def)
qed

lemma hex_digit_allowed: "n < 16 \<Longrightarrow> IsLabelNameRuneAllowed (byte (hex_digit n)) \<and> byte (hex_digit n) < 0x80"
  by (auto simp: hex_digit_def IsLabelNameRuneAllowed_def byte_lits)

lemma hex_encode_chars: "c \<in> set (hex_encode bs) \<Longrightarrow> IsLabelNameRuneAllowed (byte c) \<and> byte c < 0x80"
  by (induction bs) (auto simp: hex_encode_simps hex_digit_allowed nibbles)

lemma hex_encode_label: "label_value (hex_encode bs)"
proof (rule label_value_plain)
  have "ascii (hex_encode bs)"
    using hex_encode_chars by (auto simp: ascii_def)
  then show "\<forall>r \<in> set (runes (hex_encode bs)). IsServiceNameRuneAllowed r"
    using hex_encode_chars by (auto simp: runes_of_ascii label_rune)
qed

text \<open>
  A session id is the 16 hexadecimal digits of the eight random bytes, in their order: different
  bytes give different ids, and an id can be the value of a label.
\<close>

theorem session_id_faithful:
  assumes "length b = 8" and "length b' = 8"
  shows "sessionID_String (newSessionID b) = hex_encode b \<and> length (sessionID_String (newSessionID b)) = 16 \<and>
    label_value (sessionID_String (newSessionID b)) \<and>
    (sessionID_String (newSessionID b) = sessionID_String (newSessionID b') \<longleftrightarrow> b = b')"
  using assms hex_encode_inj
  by (auto simp: sessionID_String_def newSessionID_def le_bytes_uint64 length_hex_encode hex_encode_label)

theorem session_id_faithful_witness:
  "sessionID_String (newSessionID [0x12, 0xab, 0, 1, 2, 3, 4, 255]) = ''12ab0001020304ff''"
proof -
  have "sessionID_String (newSessionID [0x12, 0xab, 0, 1, 2, 3, 4, 255]) = hex_encode [0x12, 0xab, 0, 1, 2, 3, 4, 255]"
    using session_id_faithful [of "[0x12, 0xab, 0, 1, 2, 3, 4, 255]" "[0x12, 0xab, 0, 1, 2, 3, 4, 255]"] by simp
  then show ?thesis
    by (simp add: hex_encode_simps hex_digit_def char_of_def bit_0)
qed

section \<open>Uploads\<close>

text \<open>The jobs of one upload in which the goroutine profiles, if any, can be written.\<close>

definition goroutine_jobs :: "('h, 'b) snapshot \<Rightarrow> time \<Rightarrow> time \<Rightarrow> ('h, 'b) Session \<Rightarrow> UploadJob list" where
  "goroutine_jobs en st et ps =
     (case goroutine en of
        Some (b, False) \<Rightarrow>
          if isGoroutinesEnabled ps
          then [goroutine_job (SDK (appNames ps)) st et (goroutinesBuf ps @ b) sampleTypeConfigGoroutine] else []
      | _ \<Rightarrow> []) @
     (case goroutineleak en of
        Some (b, False) \<Rightarrow>
          if isGoroutineLeakEnabled ps
          then [goroutine_job (SDK (appNames ps)) st et (goroutineLeakBuf ps @ b) sampleTypeConfigGoroutineLeak] else []
      | _ \<Rightarrow> [])"

definition wrote_job :: "string \<Rightarrow> time \<Rightarrow> time \<Rightarrow> dump \<Rightarrow> (string \<times> SampleType) list \<Rightarrow> UploadJob list" where
  "wrote_job name st et d cfg = (case d of Wrote b \<Rightarrow> [delta_job name st et b cfg] | _ \<Rightarrow> [])"

text \<open>A heap profile is due when a collection ran since the last one that was uploaded.\<close>

definition heap_due :: "('h, 'b) snapshot \<Rightarrow> ('h, 'b) Session \<Rightarrow> bool" where
  "heap_due en ps \<longleftrightarrow> numGC en \<noteq> lastGCGeneration ps \<or> (\<not> disableGCRuns ps \<and> numGC_after_GC en \<noteq> lastGCGeneration ps)"

definition delta_jobs :: "('h, 'b) snapshot \<Rightarrow> time \<Rightarrow> time \<Rightarrow> ('h, 'b) Session \<Rightarrow> UploadJob list" where
  "delta_jobs en st et ps =
     (let name = Godeltaprof (appNames ps) in
      (if isBlockEnabled ps then wrote_job name st et (fst (block_Profile en (deltaBlock ps))) sampleTypeConfigBlock else []) @
      (if isMutexEnabled ps then wrote_job name st et (fst (mutex_Profile en (deltaMutex ps))) sampleTypeConfigMutex else []) @
      (if isMemEnabled ps \<and> heap_due en ps
       then map (\<lambda>j. j\<lparr>uj_SampleRate := 100\<rparr>) (wrote_job name st et (fst (heap_Profile en (deltaHeap ps))) sampleTypeConfigHeap)
       else []))"

definition same_config :: "('h, 'b) Session \<Rightarrow> ('h, 'b) Session \<Rightarrow> bool" where
  "same_config ps ps' \<longleftrightarrow> profileTypes ps' = profileTypes ps \<and> appNames ps' = appNames ps \<and>
     disableGCRuns ps' = disableGCRuns ps \<and> uploadRate ps' = uploadRate ps \<and> loop ps' = loop ps \<and> cpuLoop ps' = cpuLoop ps \<and>
     startTime ps' = startTime ps"

lemma same_config_refl [simp]: "same_config ps ps"
  by (simp add: same_config_def)

lemma same_config_trans: "same_config a b \<Longrightarrow> same_config b c \<Longrightarrow> same_config a c"
  by (simp add: same_config_def)

lemma enabled_cong:
  "same_config a b \<Longrightarrow> isCPUEnabled b = isCPUEnabled a" "same_config a b \<Longrightarrow> isMemEnabled b = isMemEnabled a"
  "same_config a b \<Longrightarrow> isBlockEnabled b = isBlockEnabled a" "same_config a b \<Longrightarrow> isMutexEnabled b = isMutexEnabled a"
  "same_config a b \<Longrightarrow> isGoroutinesEnabled b = isGoroutinesEnabled a"
  "same_config a b \<Longrightarrow> isGoroutineLeakEnabled b = isGoroutineLeakEnabled a"
  by (simp_all add: same_config_def isCPUEnabled_def isMemEnabled_def isBlockEnabled_def isMutexEnabled_def
      isGoroutinesEnabled_def isGoroutineLeakEnabled_def)

lemma block_dump:
  "snd (dumpBlockProfile en st et (ps, js)) =
     js @ wrote_job (Godeltaprof (appNames ps)) st et (fst (block_Profile en (deltaBlock ps))) sampleTypeConfigBlock"
  "same_config ps (fst (dumpBlockProfile en st et (ps, js)))"
  "deltaMutex (fst (dumpBlockProfile en st et (ps, js))) = deltaMutex ps"
  "deltaHeap (fst (dumpBlockProfile en st et (ps, js))) = deltaHeap ps"
  "lastGCGeneration (fst (dumpBlockProfile en st et (ps, js))) = lastGCGeneration ps"
  by (simp_all add: dumpBlockProfile_def wrote_job_def dumped_def same_config_def Let_def split: prod.split dump.split)

lemma mutex_dump:
  "snd (dumpMutexProfile en st et (ps, js)) =
     js @ wrote_job (Godeltaprof (appNames ps)) st et (fst (mutex_Profile en (deltaMutex ps))) sampleTypeConfigMutex"
  "same_config ps (fst (dumpMutexProfile en st et (ps, js)))"
  "deltaHeap (fst (dumpMutexProfile en st et (ps, js))) = deltaHeap ps"
  "lastGCGeneration (fst (dumpMutexProfile en st et (ps, js))) = lastGCGeneration ps"
  by (simp_all add: dumpMutexProfile_def wrote_job_def dumped_def same_config_def Let_def split: prod.split dump.split)

lemma heap_dump:
  "snd (dumpHeapProfile en st et (ps, js)) =
     js @ (if heap_due en ps then map (\<lambda>j. j\<lparr>uj_SampleRate := 100\<rparr>)
       (wrote_job (Godeltaprof (appNames ps)) st et (fst (heap_Profile en (deltaHeap ps))) sampleTypeConfigHeap) else [])"
  "same_config ps (fst (dumpHeapProfile en st et (ps, js)))"
  by (auto simp: dumpHeapProfile_def wrote_job_def dumped_def same_config_def heap_due_def Let_def
      split: prod.split dump.split if_splits)

text \<open>The part of an upload after the goroutine profiles.\<close>

definition dump_deltas :: "('h, 'b) snapshot \<Rightarrow> time \<Rightarrow> time \<Rightarrow> ('h, 'b) session_state \<Rightarrow> ('h, 'b) session_state" where
  "dump_deltas en st et s =
     (let s = (if isBlockEnabled (fst s) then dumpBlockProfile en st et s else s);
          s = (if isMutexEnabled (fst s) then dumpMutexProfile en st et s else s) in
      if isMemEnabled (fst s) then dumpHeapProfile en st et s else s)"

lemma dump_deltas_jobs:
  "snd (dump_deltas en st et (ps, js)) = js @ delta_jobs en st et ps \<and> same_config ps (fst (dump_deltas en st et (ps, js)))"
proof -
  define s1 where "s1 = (if isBlockEnabled ps then dumpBlockProfile en st et (ps, js) else (ps, js))"
  define s2 where "s2 = (if isMutexEnabled (fst s1) then dumpMutexProfile en st et s1 else s1)"
  let ?name = "Godeltaprof (appNames ps)"
  have 1: "snd s1 = js @ (if isBlockEnabled ps then wrote_job ?name st et (fst (block_Profile en (deltaBlock ps))) sampleTypeConfigBlock else [])"
      "same_config ps (fst s1)" "deltaMutex (fst s1) = deltaMutex ps" "deltaHeap (fst s1) = deltaHeap ps"
      "lastGCGeneration (fst s1) = lastGCGeneration ps"
    by (simp_all add: s1_def block_dump)
  have n1: "appNames (fst s1) = appNames ps"
    using 1(2) by (simp add: same_config_def)
  have 2: "snd s2 = snd s1 @ (if isMutexEnabled ps then wrote_job ?name st et (fst (mutex_Profile en (deltaMutex ps))) sampleTypeConfigMutex else [])"
      "same_config ps (fst s2)" "deltaHeap (fst s2) = deltaHeap ps" "lastGCGeneration (fst s2) = lastGCGeneration ps"
    using mutex_dump [where en = en and st = st and et = et and ps = "fst s1" and js = "snd s1"] 1(2-5) enabled_cong(4) [OF 1(2)] n1 same_config_trans [OF 1(2)]
    by (simp_all add: s2_def)
  have h: "appNames (fst s2) = appNames ps" "heap_due en (fst s2) = heap_due en ps"
    using 2 by (simp_all add: same_config_def heap_due_def)
  have "dump_deltas en st et (ps, js) = (if isMemEnabled (fst s2) then dumpHeapProfile en st et s2 else s2)"
    by (simp add: dump_deltas_def s1_def s2_def Let_def)
  then have "snd (dump_deltas en st et (ps, js)) = snd s2 @ (if isMemEnabled ps \<and> heap_due en ps
      then map (\<lambda>j. j\<lparr>uj_SampleRate := 100\<rparr>) (wrote_job ?name st et (fst (heap_Profile en (deltaHeap ps))) sampleTypeConfigHeap)
      else [])" "same_config ps (fst (dump_deltas en st et (ps, js)))"
    using heap_dump [where en = en and st = st and et = et and ps = "fst s2" and js = "snd s2"] 2(2-4) h
      enabled_cong(2) [OF 2(2)] same_config_trans [OF 2(2)]
    by simp_all
  then show ?thesis
    by (simp add: 1(1) 2(1) delta_jobs_def Let_def)
qed

lemma uploadData_eq:
  "uploadData en st et s =
     (case (if isGoroutinesEnabled (fst s) then dumpGoroutines en st et s else (s, True)) of
        (s, False) \<Rightarrow> s
      | (s, True) \<Rightarrow>
          (case (if isGoroutineLeakEnabled (fst s) then dumpGoroutineLeak en st et s else (s, True)) of
             (s, False) \<Rightarrow> s
           | (s, True) \<Rightarrow> dump_deltas en st et s))"
  unfolding uploadData_def dump_deltas_def ..

lemma goroutines_dump:
  "\<forall>b. goroutine en \<noteq> Some (b, True) \<Longrightarrow> dumpGoroutines en st et (ps, js) =
     ((ps\<lparr>goroutinesBuf := if goroutine en = None then goroutinesBuf ps else []\<rparr>,
       js @ (case goroutine en of None \<Rightarrow> [] | Some (b, _) \<Rightarrow>
         [goroutine_job (SDK (appNames ps)) st et (goroutinesBuf ps @ b) sampleTypeConfigGoroutine])), True)"
  by (auto simp: dumpGoroutines_def split: option.split)

lemma goroutineleak_dump:
  "\<forall>b. goroutineleak en \<noteq> Some (b, True) \<Longrightarrow> dumpGoroutineLeak en st et (ps, js) =
     ((ps\<lparr>goroutineLeakBuf := if goroutineleak en = None then goroutineLeakBuf ps else []\<rparr>,
       js @ (case goroutineleak en of None \<Rightarrow> [] | Some (b, _) \<Rightarrow>
         [goroutine_job (SDK (appNames ps)) st et (goroutineLeakBuf ps @ b) sampleTypeConfigGoroutineLeak])), True)"
  by (auto simp: dumpGoroutineLeak_def split: option.split)

lemma same_config_bufs [simp]:
  "same_config ps (ps\<lparr>goroutinesBuf := x\<rparr>)" "same_config ps (ps\<lparr>goroutineLeakBuf := y\<rparr>)"
  "same_config ps (ps\<lparr>goroutinesBuf := x, goroutineLeakBuf := y\<rparr>)"
  by (simp_all add: same_config_def)

lemma due_bufs [simp]:
  "heap_due en (ps\<lparr>goroutinesBuf := x\<rparr>) = heap_due en ps" "heap_due en (ps\<lparr>goroutineLeakBuf := x\<rparr>) = heap_due en ps"
  by (simp_all add: heap_due_def)

lemma delta_jobs_bufs [simp]:
  "delta_jobs en st et (ps\<lparr>goroutinesBuf := x\<rparr>) = delta_jobs en st et ps"
  "delta_jobs en st et (ps\<lparr>goroutineLeakBuf := y\<rparr>) = delta_jobs en st et ps"
  by (simp_all add: delta_jobs_def isBlockEnabled_def isMutexEnabled_def isMemEnabled_def Let_def)

lemma uploadData_jobs:
  assumes "\<forall>b. goroutine en \<noteq> Some (b, True)" "\<forall>b. goroutineleak en \<noteq> Some (b, True)"
  shows "snd (uploadData en st et (ps, js)) = js @ goroutine_jobs en st et ps @ delta_jobs en st et ps"
proof -
  let ?p1 = "if isGoroutinesEnabled ps then ps\<lparr>goroutinesBuf := if goroutine en = None then goroutinesBuf ps else []\<rparr> else ps"
  let ?p2 = "if isGoroutineLeakEnabled ps then ?p1\<lparr>goroutineLeakBuf := if goroutineleak en = None then goroutineLeakBuf ps else []\<rparr> else ?p1"
  have "uploadData en st et (ps, js) = dump_deltas en st et (?p2, js @ goroutine_jobs en st et ps)"
    using assms
    by (auto simp: uploadData_eq goroutines_dump goroutineleak_dump goroutine_jobs_def isGoroutineLeakEnabled_def
        split: option.split)
  then show ?thesis
    by (simp add: dump_deltas_jobs)
qed

lemma uploadData_config: "same_config ps (fst (uploadData en st et (ps, js)))"
proof -
  have g: "same_config p (fst (fst (dumpGoroutines en st et (p, q))))" "same_config p (fst (fst (dumpGoroutineLeak en st et (p, q))))"
    for p q
    by (auto simp: dumpGoroutines_def dumpGoroutineLeak_def Let_def split: option.split)
  define s1 where "s1 = (if isGoroutinesEnabled ps then dumpGoroutines en st et (ps, js) else ((ps, js), True))"
  define s2 where "s2 = (if isGoroutineLeakEnabled (fst (fst s1)) then dumpGoroutineLeak en st et (fst s1) else (fst s1, True))"
  have 1: "same_config ps (fst (fst s1))"
    using g(1) by (simp add: s1_def)
  have 2: "same_config ps (fst (fst s2))"
    using same_config_trans [OF 1] g(2) [of "fst (fst s1)" "snd (fst s1)"] 1 by (simp add: s2_def)
  have "uploadData en st et (ps, js) = (if snd s1 then if snd s2 then dump_deltas en st et (fst s2) else fst s2 else fst s1)"
    by (simp add: uploadData_eq s1_def s2_def split: prod.split)
  then show ?thesis
    using 1 2 same_config_trans [OF 2] dump_deltas_jobs [of en st et "fst (fst s2)" "snd (fst s2)"] by simp
qed

text \<open>Every job of an upload has its interval.\<close>

lemma uploadData_intervals:
  "\<exists>new. snd (uploadData en st et (ps, js)) = js @ new \<and> (\<forall>j \<in> set new. uj_StartTime j = st \<and> uj_EndTime j = et)"
proof -
  have w: "\<forall>j \<in> set (wrote_job n st et d c). uj_StartTime j = st \<and> uj_EndTime j = et" for n d c
    by (cases d) (simp_all add: wrote_job_def delta_job_def)
  have d: "\<forall>j \<in> set (delta_jobs en st et p). uj_StartTime j = st \<and> uj_EndTime j = et" for p
    using w by (auto simp: delta_jobs_def Let_def)
  have g: "\<exists>new. snd (fst (dumpGoroutines en st et (p, q))) = q @ new \<and> (\<forall>j \<in> set new. uj_StartTime j = st \<and> uj_EndTime j = et)"
      "\<exists>new. snd (fst (dumpGoroutineLeak en st et (p, q))) = q @ new \<and> (\<forall>j \<in> set new. uj_StartTime j = st \<and> uj_EndTime j = et)"
    for p q
    by (auto simp: dumpGoroutines_def dumpGoroutineLeak_def goroutine_job_def Let_def split: option.split)
  define s1 where "s1 = (if isGoroutinesEnabled ps then dumpGoroutines en st et (ps, js) else ((ps, js), True))"
  define s2 where "s2 = (if isGoroutineLeakEnabled (fst (fst s1)) then dumpGoroutineLeak en st et (fst s1) else (fst s1, True))"
  obtain n1 where 1: "snd (fst s1) = js @ n1" "\<forall>j \<in> set n1. uj_StartTime j = st \<and> uj_EndTime j = et"
    using g(1) [of ps js] by (cases "isGoroutinesEnabled ps") (auto simp: s1_def)
  obtain n2 where 2: "snd (fst s2) = snd (fst s1) @ n2" "\<forall>j \<in> set n2. uj_StartTime j = st \<and> uj_EndTime j = et"
    using g(2) [of "fst (fst s1)" "snd (fst s1)"] by (cases "isGoroutineLeakEnabled (fst (fst s1))") (auto simp: s2_def)
  have e: "uploadData en st et (ps, js) = (if snd s1 then if snd s2 then dump_deltas en st et (fst s2) else fst s2 else fst s1)"
    by (simp add: uploadData_eq s1_def s2_def split: prod.split)
  have "snd (dump_deltas en st et (fst s2)) = snd (fst s2) @ delta_jobs en st et (fst (fst s2))"
    using dump_deltas_jobs [of en st et "fst (fst s2)" "snd (fst s2)"] by simp
  with 1 2 d e show ?thesis
    by (cases "snd s1"; cases "snd s2") (auto intro: exI [of _ n1] exI [of _ "n1 @ n2"] exI [of _ "n1 @ n2 @ delta_jobs en st et (fst (fst s2))"])
qed

text \<open>
  C28. What one upload of a session sends, when the goroutine profiles can be written: in this order the
  goroutine profiles, the block, the mutex and the heap profile, each exactly when a type of it is enabled and its
  profiler wrote it, the heap profile only when a garbage collection ran since the last one, all with the interval of the
  upload.
\<close>

theorem upload_jobs:
  assumes "\<forall>b. goroutine en \<noteq> Some (b, True)" and "\<forall>b. goroutineleak en \<noteq> Some (b, True)"
  shows "snd (uploadData en st et (ps, js)) = js @ goroutine_jobs en st et ps @ delta_jobs en st et ps \<and>
    (\<forall>j \<in> set (goroutine_jobs en st et ps @ delta_jobs en st et ps). uj_StartTime j = st \<and> uj_EndTime j = et)"
  using uploadData_jobs [OF assms] uploadData_intervals [of en st et ps js] by auto

lemma session_reset_eq:
  "session_reset en st et (ps, js) =
     (if startTime ps = None then (ps\<lparr>startTime := Some et\<rparr>, js)
      else ((fst (uploadData en st et (ps, js)))\<lparr>startTime := Some et\<rparr>, snd (uploadData en st et (ps, js))))"
  by (simp add: session_reset_def case_prod_beta)

lemma session_reset_start: "startTime (fst (session_reset en st et s)) = Some et"
  by (simp add: session_reset_def case_prod_beta)

lemma session_reset_config:
  "profileTypes (fst (session_reset en st et (ps, js))) = profileTypes ps"
  "loop (fst (session_reset en st et (ps, js))) = loop ps"
  "cpuLoop (fst (session_reset en st et (ps, js))) = cpuLoop ps"
  "uploadRate (fst (session_reset en st et (ps, js))) = uploadRate ps"
  using uploadData_config [of ps en st et js] by (simp_all add: session_reset_eq same_config_def)

lemma session_reset_jobs:
  "\<exists>new. snd (session_reset en st et (ps, js)) = js @ new \<and> (\<forall>j \<in> set new. uj_StartTime j = st \<and> uj_EndTime j = et)"
  using uploadData_intervals [of en st et ps js] by (cases "startTime ps = None") (simp_all add: session_reset_eq)

fun run_ticks :: "(('h, 'b) snapshot \<times> time) list \<Rightarrow> ('h, 'b) session_state \<Rightarrow> ('h, 'b) session_state" where
  "run_ticks [] s = s"
| "run_ticks ((en, et) # ts) s = run_ticks ts (take_tick en et s)"

text \<open>
  C29. The profiles of a session cover its time without gap or overlap: over any ticks, every uploaded job
  covers the time from one tick, or the start of the session, to the next tick.
\<close>

theorem tick_intervals:
  assumes "startTime ps = Some t0"
  shows "\<exists>new. snd (run_ticks ts (ps, js)) = js @ new \<and>
    startTime (fst (run_ticks ts (ps, js))) = Some (last (t0 # map snd ts)) \<and>
    (\<forall>j \<in> set new. \<exists>k < length ts. uj_StartTime j = (t0 # map snd ts) ! k \<and> uj_EndTime j = map snd ts ! k)"
  using assms
proof (induction ts arbitrary: ps js t0)
  case (Cons x ts)
  obtain en et where x: "x = (en, et)"
    by force
  have t: "take_tick en et (ps, js) = session_reset en t0 et (ps, js)"
    using Cons.prems by (simp add: take_tick_def reset_from_def)
  obtain new where n: "snd (take_tick en et (ps, js)) = js @ new" "\<forall>j \<in> set new. uj_StartTime j = t0 \<and> uj_EndTime j = et"
    using session_reset_jobs t by metis
  define p1 where "p1 = fst (take_tick en et (ps, js))"
  have e: "take_tick en et (ps, js) = (p1, js @ new)"
    using n(1) by (simp add: p1_def prod_eq_iff)
  have "startTime p1 = Some et"
    by (simp add: p1_def t session_reset_start)
  from Cons.IH [OF this, of "js @ new"] obtain new' where
    n': "snd (run_ticks ts (p1, js @ new)) = js @ new @ new'"
      "startTime (fst (run_ticks ts (p1, js @ new))) = Some (last (et # map snd ts))"
      "\<forall>j \<in> set new'. \<exists>k < length ts. uj_StartTime j = (et # map snd ts) ! k \<and> uj_EndTime j = map snd ts ! k"
    by auto
  have "\<exists>k < Suc (length ts). uj_StartTime j = (t0 # et # map snd ts) ! k \<and> uj_EndTime j = (et # map snd ts) ! k"
    if j: "j \<in> set new \<or> j \<in> set new'" for j
  proof (cases "j \<in> set new")
    case True
    then show ?thesis
      using n(2) by (intro exI [of _ 0]) simp
  next
    case False
    with j have "j \<in> set new'"
      by simp
    then obtain k where "k < length ts" "uj_StartTime j = (et # map snd ts) ! k" "uj_EndTime j = map snd ts ! k"
      using n'(3) by metis
    then show ?thesis
      by (intro exI [of _ "Suc k"]) simp
  qed
  with n' show ?case
    by (intro exI [of _ "new @ new'"]) (simp add: x e)
qed simp

lemma snap_step_keeps:
  "snap_step s s' \<Longrightarrow> profileTypes (fst s') = profileTypes (fst s) \<and> (cpuLoop (fst s') \<longrightarrow> cpuLoop (fst s))"
proof (induction rule: snap_step.induct)
  case (tick s en et)
  then show ?case
    by (cases s) (simp add: take_tick_def reset_from_def session_reset_config)
next
  case (flush s en now)
  then show ?case
    by (cases s) (simp add: take_flush_def reset_from_def case_prod_beta session_reset_config)
next
  case (stop s)
  then show ?case
    by (cases s) (simp add: take_stop_def)
qed

text \<open>
  A session without the CPU profile type hangs at its first flush: in every state its loop
  can reach, a flush is never answered, and afterwards no tick, flush or stop is served.
\<close>

theorem flush_blocks_without_cpu:
  assumes "\<not> isCPUEnabled (fst s0)" and "snap_step\<^sup>*\<^sup>* (Session_Start en0 t0 s0) s"
  shows "\<not> snd (take_flush en now s) \<and> loop (fst (fst (take_flush en now s))) = Blocked \<and>
    (\<forall>s'. \<not> snap_step (fst (take_flush en now s)) s')"
proof -
  have "\<not> cpuLoop (fst (Session_Start en0 t0 s0))"
    using assms(1)
    by (cases s0) (simp add: Session_Start_def case_prod_beta isCPUEnabled_def session_reset_config Let_def)
  with assms(2) have c: "\<not> cpuLoop (fst s)"
    by (induction rule: rtranclp_induct) (auto dest: snap_step_keeps)
  have b: "\<not> snd (take_flush en now s)" "loop (fst (fst (take_flush en now s))) = Blocked"
    using c by (cases s; simp add: take_flush_def reset_from_def case_prod_beta session_reset_config)+
  then show ?thesis
    by (auto elim!: snap_step.cases)
qed



text \<open>
  When writing the goroutine profile fails, the upload ends there, without the block, mutex and heap
  profiles, and the bytes written stay in the buffer: the next goroutine profile that is sent starts with them.
\<close>

theorem goroutine_failure:
  assumes "isGoroutinesEnabled ps" and "goroutine en = Some (b, True)" and "goroutine en' = Some (b', False)"
    and "goroutinesBuf ps = []" and "isGoroutineLeakEnabled ps \<longrightarrow> goroutineleak en' = None"
  shows "snd (uploadData en st et (ps, js)) = js \<and>
    (\<exists>rest. snd (uploadData en' st' et' (uploadData en st et (ps, js))) =
       js @ goroutine_job (SDK (appNames ps)) st' et' (b @ b') sampleTypeConfigGoroutine # rest)"
proof -
  have e: "uploadData en st et (ps, js) = (ps\<lparr>goroutinesBuf := b\<rparr>, js)"
    using assms(1,2,4) by (simp add: uploadData_eq dumpGoroutines_def)
  have i: "isGoroutinesEnabled (ps\<lparr>goroutinesBuf := x\<rparr>) = isGoroutinesEnabled ps"
      "isGoroutineLeakEnabled (ps\<lparr>goroutinesBuf := x\<rparr>) = isGoroutineLeakEnabled ps" for x
    by (simp_all add: isGoroutinesEnabled_def isGoroutineLeakEnabled_def)
  have "uploadData en' st' et' (ps\<lparr>goroutinesBuf := b\<rparr>, js) =
      dump_deltas en' st' et' (ps\<lparr>goroutinesBuf := []\<rparr>,
        js @ [goroutine_job (SDK (appNames ps)) st' et' (b @ b') sampleTypeConfigGoroutine])"
    using assms(1,3,5) by (simp add: uploadData_eq dumpGoroutines_def dumpGoroutineLeak_def i)
  then show ?thesis
    by (simp add: e dump_deltas_jobs)
qed

section \<open>A concrete session\<close>

definition example_session :: "ProfileType list \<Rightarrow> (unit, unit) Session" where
  "example_session types = \<lparr>profileTypes = types, uploadRate = 15 * Second, disableGCRuns = False,
     memBuf = [], goroutinesBuf = [], goroutineLeakBuf = [], mutexBuf = [], blockBuf = [], lastGCGeneration = 0,
     appNames = \<lparr>SDK = ''sdk{}'', Godeltaprof = ''delta{}''\<rparr>, startTime = Some (22 * Second),
     deltaBlock = (), deltaMutex = (), deltaHeap = (), loop = Running, cpuLoop = False\<rparr>"

definition example_snapshot :: "(u8 list \<times> bool) option \<Rightarrow> (unit, unit) snapshot" where
  "example_snapshot g = \<lparr>goroutine = g, goroutineleak = None, heap_Profile = (\<lambda>h. (Wrote [7], h)),
     block_Profile = (\<lambda>b. (Wrote [8], b)), mutex_Profile = (\<lambda>b. (Panicked [], b)), numGC = 1, numGC_after_GC = 1\<rparr>"

abbreviation example_types :: "ProfileType list" where
  "example_types \<equiv> [ProfileGoroutines, ProfileBlockCount, ProfileMutexCount, ProfileInuseSpace]"

lemmas session_eval = example_session_def example_snapshot_def isGoroutinesEnabled_def isGoroutineLeakEnabled_def
  isBlockEnabled_def isMutexEnabled_def isMemEnabled_def isCPUEnabled_def profile_types goroutine_jobs_def delta_jobs_def
  wrote_job_def heap_due_def Let_def

theorem upload_jobs_witness:
  "map uj_Profile (snd (uploadData (example_snapshot (Some ([1, 2], False))) 22 37 (example_session example_types, []))) =
     [[1, 2], [8], [7]]"
proof -
  let ?en = "example_snapshot (Some ([1, 2], False))"
  have "snd (uploadData ?en 22 37 (example_session example_types, [])) =
      [] @ goroutine_jobs ?en 22 37 (example_session example_types) @ delta_jobs ?en 22 37 (example_session example_types)"
    using upload_jobs [of ?en 22 37 "example_session example_types" "[]"] by (simp add: example_snapshot_def)
  then show ?thesis
    by (simp add: session_eval goroutine_job_def delta_job_def)
qed

theorem tick_intervals_witness:
  "\<exists>new. snd (run_ticks [(example_snapshot None, 37 * Second), (example_snapshot None, 52 * Second)]
       (example_session example_types, [])) = new \<and>
     (\<forall>j \<in> set new. \<exists>k < 2. uj_StartTime j = [22 * Second, 37 * Second, 52 * Second] ! k \<and>
        uj_EndTime j = [37 * Second, 52 * Second] ! k)"
  using tick_intervals [of "example_session example_types" "22 * Second"
      "[(example_snapshot None, 37 * Second), (example_snapshot None, 52 * Second)]" "[]"]
  by (simp add: example_session_def numeral_2_eq_2)

theorem flush_blocks_without_cpu_witness:
  "\<not> snd (take_flush (example_snapshot None) (40 * Second) (Session_Start (example_snapshot None) 0 (example_session example_types, [])))"
  using flush_blocks_without_cpu [of "(example_session example_types, [])" "example_snapshot None" 0
      "Session_Start (example_snapshot None) 0 (example_session example_types, [])" "example_snapshot None" "40 * Second"]
  by (simp add: session_eval)


theorem goroutine_failure_witness:
  "\<exists>rest. snd (uploadData (example_snapshot (Some ([2], False))) 37 52
       (uploadData (example_snapshot (Some ([1], True))) 22 37 (example_session example_types, []))) =
     goroutine_job ''sdk{}'' 37 52 [1, 2] sampleTypeConfigGoroutine # rest"
  using goroutine_failure [of "example_session example_types" "example_snapshot (Some ([1], True))" "[1]"
      "example_snapshot (Some ([2], False))" "[2]" 22 37 "[]" 37 52]
  by (simp add: session_eval)

end
