(* ===== verification/Profiler.thy ===== *)
theory Profiler
  imports Session CpuSwitch
begin

text \<open>
  The public entry point (\<^verbatim>\<open>api.go\<close>): the configuration with its defaults, the start of a profiler, which
  creates the uploader and the session and starts both, its stop and its flush.  The pooled parser, the runtime, the
  random bytes of the session id, the delta profilers and the environment of the first reset are arguments.
\<close>

record 'client ProfilerConfig =
  ApplicationName :: string
  pc_Tags :: go_map
  ServerAddress :: string
  pc_BasicAuthUser :: string
  pc_BasicAuthPassword :: string
  pc_TenantID :: string
  pc_UploadRate :: int
  ProfileTypes :: "ProfileType list"
  pc_DisableGCRuns :: bool
  pc_HTTPHeaders :: "(string \<times> string) list"
  pc_HTTPClient :: "'client option"
  pc_AuthToken :: string
  pc_DisableAutomaticResets :: bool




definition session_config :: "'client ProfilerConfig \<Rightarrow> SessionConfig" where
  "session_config cfg = \<lparr>sc_AppName = ApplicationName cfg, sc_Tags = pc_Tags cfg, sc_ProfilingTypes = ProfileTypes cfg,
     sc_DisableGCRuns = pc_DisableGCRuns cfg, sc_UploadRate = pc_UploadRate cfg,
     sc_DisableAutomaticResets = pc_DisableAutomaticResets cfg\<rparr>"


text \<open>
  \<^verbatim>\<open>Stop\<close>: the session's loop ends, and then the channel of the uploader is closed.  Its result is
  \<^const>\<open>None\<close> when the channel was closed before, which panics.
\<close>

definition Profiler_Stop ::
    "('h, 'b) session_state \<times> 'client Remote \<Rightarrow> (('h, 'b) session_state \<times> 'client Remote) option" where
  "Profiler_Stop = (\<lambda>(s, r).
     case Stop_close (rm_queue r) of None \<Rightarrow> None | Some q \<Rightarrow> Some (take_stop s, r\<lparr>rm_queue := q\<rparr>))"

text \<open>\<^verbatim>\<open>Flush\<close>: the answer of the session's loop; it stays away when the loop is blocked.\<close>

definition Profiler_Flush ::
    "('h, 'b) snapshot \<Rightarrow> time \<Rightarrow> ('h, 'b) session_state \<times> 'client Remote \<Rightarrow> (('h, 'b) session_state \<times> 'client Remote) \<times> bool" where
  "Profiler_Flush en now = (\<lambda>(s, r). case take_flush en now s of (s, ok) \<Rightarrow> ((s, r), ok))"

text \<open>
  Starting and stopping the collector changes the collector of the switch first, which may have to wait, and then
  begins or halts its loop.
\<close>

definition cc_Start_switch :: "Collector switch \<Rightarrow> Collector switch \<times> bool" where
  "cc_Start_switch sw = SetCollector (Some backgroundCollector) sw"

definition cc_Stop_switch :: "Collector switch \<Rightarrow> Collector switch \<times> bool" where
  "cc_Stop_switch sw = SetCollector (Some defaultCollector) sw"

section \<open>Properties\<close>

lemma NewSession_cases:
  assumes "NewSession pool rt random heap block mutex c = Inr s"
  obtains names where "MergeTagsWithAppName pool rt (sc_AppName c) (sessionID_String (newSessionID random)) (sc_Tags c) = Inr names"
    "appNames s = names" "profileTypes s = sc_ProfilingTypes c" "startTime s = None" "loop s = NotStarted"
    "uploadRate s = (if sc_DisableAutomaticResets c then maxDuration else if sc_UploadRate c = 0 then 15 * Second else sc_UploadRate c)"
  using assms
  by (cases "MergeTagsWithAppName pool rt (sc_AppName c) (sessionID_String (newSessionID random)) (sc_Tags c)")
     (auto simp: NewSession_def)




lemma default_to_keeps: "m k = Some v \<Longrightarrow> default_to k' w m k = Some v"
  by (auto simp: default_to_def)

text \<open>
  C30. The names under which a started session uploads carry its identity: with label values in the tags and
  a valid application name, the SDK name parses, with any parser, to a map that keeps the service name and has the
  hexadecimal session id, and every tag of the configuration that is not empty.
\<close>

theorem session_labels:
  assumes "NewSession (Some p) rt random heap block mutex c = Inr s" and "length random = 8"
    and "distinct (map fst (sc_Tags c))" and "\<forall>v \<in> snd ` set (sc_Tags c). label_value v" and "runtime_values rt"
    and "Parse (Some p) (sc_AppName c) = Inr l" and "ValidateServiceName (ServiceName l) = None"
  shows "\<exists>a. Parse (Some q) (SDK (appNames s)) = Inr a \<and> ServiceName a = ServiceName l \<and>
    map_of (labels a) ''__session_id__'' = Some (hex_encode random) \<and>
    (\<forall>k v. (k, v) \<in> set (sc_Tags c) \<longrightarrow> v \<noteq> [] \<longrightarrow> k \<notin> {''__name__'', ''__session_id__''} \<longrightarrow> map_of (labels a) k = Some v)"
proof -
  let ?sid = "hex_encode random"
  have sid: "sessionID_String (newSessionID random) = ?sid"
    by (simp add: sessionID_String_def newSessionID_def le_bytes_uint64 [OF assms(2)])
  obtain names where m: "MergeTagsWithAppName (Some p) rt (sc_AppName c) ?sid (sc_Tags c) = Inr names" "appNames s = names"
    using assms(1) by (elim NewSession_cases) (simp add: sid)
  have ne: "?sid \<noteq> []"
    using length_hex_encode [of random] assms(2) by auto
  let ?m = "merge_spec (map_of (labels l)) (map_of (sc_Tags c)) ?sid rt"
  obtain a where a: "Parse (Some q) (SDK names) = Inr a"
      "map_of (labels a) = name_spec ?m scopeSDK (v_sdk (getScopeVersions rt))"
    using merged_names_both [OF m(1) assms(3,4) hex_encode_label assms(5-7)] by blast
  have "map_of (labels a) k = Some v" if "(k, v) \<in> set (sc_Tags c)" "v \<noteq> []" "k \<notin> {''__name__'', ''__session_id__''}" for k v
  proof -
    have "put labelPyroscopeSessionID ?sid (over (map_of (labels l)) (map_of (sc_Tags c))) k = Some v"
      using that assms(3) by (simp add: put_def over_def labelPyroscopeSessionID_def)
    then show ?thesis
      by (simp add: a(2) name_spec_def merge_spec_def default_to_keeps)
  qed
  moreover have "map_of (labels a) ''__session_id__'' = Some ?sid"
    using ne by (simp add: a(2) name_spec_def merge_spec_def default_to_keeps put_def labelPyroscopeSessionID_def)
  moreover have "ServiceName a = ServiceName l"
    by (simp add: ServiceName_def map_get_def ReservedLabelNameName_def a(2) name_kept)
  ultimately show ?thesis
    using a(1) m(2) by blast
qed

section \<open>A concrete profiler\<close>

definition example_profiler_config :: "unit ProfilerConfig" where
  "example_profiler_config = \<lparr>ApplicationName = ''app'', pc_Tags = [(''a'', ''1'')], ServerAddress = ''localhost'',
     pc_BasicAuthUser = [], pc_BasicAuthPassword = [], pc_TenantID = [], pc_UploadRate = 0, ProfileTypes = [],
     pc_DisableGCRuns = False, pc_HTTPHeaders = [], pc_HTTPClient = None, pc_AuthToken = [],
     pc_DisableAutomaticResets = False\<rparr>"

abbreviation example_random :: "u8 list" where
  "example_random \<equiv> [1, 2, 3, 4, 5, 6, 7, 8]"

lemma example_new_session:
  "\<exists>s. NewSession (Some parserPool_New) example_rt_info example_random () () () (session_config example_profiler_config) = Inr s"
proof -
  obtain names where "MergeTagsWithAppName (Some parserPool_New) example_rt_info ''app'' (sessionID_String (newSessionID example_random))
      [(''a'', ''1'')] = Inr names"
    using example_merge [of "[(''a'', ''1'')]" parserPool_New example_rt_info "sessionID_String (newSessionID example_random)"]
    by (auto simp: ascii_names)
  then show ?thesis
    by (simp add: NewSession_def session_config_def example_profiler_config_def)
qed



theorem session_labels_witness:
  "\<exists>s a. NewSession (Some parserPool_New) example_rt_info example_random () () () (session_config example_profiler_config) = Inr s \<and>
     Parse (Some parserPool_New) (SDK (appNames s)) = Inr a \<and> map_of (labels a) ''a'' = Some ''1'' \<and>
     map_of (labels a) ''__session_id__'' = Some ''0102030405060708''"
proof -
  obtain s where s: "NewSession (Some parserPool_New) example_rt_info example_random () () () (session_config example_profiler_config) = Inr s"
    using example_new_session by blast
  have h: "hex_encode example_random = ''0102030405060708''"
    by (simp add: hex_encode_simps hex_digit_def char_of_def bit_0)
  have "\<exists>a. Parse (Some parserPool_New) (SDK (appNames s)) = Inr a \<and> ServiceName a = ServiceName (New [(''__name__'', ''app'')]) \<and>
    map_of (labels a) ''__session_id__'' = Some (hex_encode example_random) \<and>
    (\<forall>k v. (k, v) \<in> set (sc_Tags (session_config example_profiler_config)) \<longrightarrow> v \<noteq> [] \<longrightarrow>
      k \<notin> {''__name__'', ''__session_id__''} \<longrightarrow> map_of (labels a) k = Some v)"
    by (rule session_labels [OF s])
       (simp_all add: session_config_def example_profiler_config_def example_app example_rt_info_def runtime_values_def
          label_value_ascii is_space_def ascii_names ServiceName_def map_get_def New_def ReservedLabelNameName_def)
  with s h show ?thesis
    by (fastforce simp: session_config_def example_profiler_config_def)
qed

end
