(* ===== verification/ElfBuildID.thy ===== *)
theory ElfBuildID
  imports GoStrings
begin

text \<open>
  The GNU build id of a mapped binary (\<^verbatim>\<open>elf.go\<close>).

  A file is its contents; opening it may fail with an error of the operating system.  The
  256-byte buffer of the function is carried along, and every read fills its front and keeps
  its rest.  Offsets are \<^verbatim>\<open>int64\<close>, so an offset may wrap around and become negative, which a read
  rejects.  Sizes read from 32-bit fields fit an \<^verbatim>\<open>int\<close> of 64 bits.
\<close>

section \<open>Files and integers\<close>

datatype read_error = NegativeOffset | EOF

datatype elf_error = ErrOpen string | ErrRead read_error | ErrBadELF | ErrNoBuildID

type_synonym filesystem = "string \<Rightarrow> string + u8 list"

text \<open>\<^verbatim>\<open>f.ReadAt(buf[:n], off)\<close>: reading nothing succeeds at every offset that is not negative.\<close>

definition ReadAt :: "u8 list \<Rightarrow> nat \<Rightarrow> i64 \<Rightarrow> u8 list \<Rightarrow> read_error + u8 list" where
  "ReadAt f n off buf =
     (if off <s 0 then Inl NegativeOffset
      else if n = 0 \<or> unat off + n \<le> length f then Inr (take n (drop (unat off) f) @ drop n buf)
      else Inl EOF)"

datatype byteOrder = LittleEndian | BigEndian

definition order_uint :: "byteOrder \<Rightarrow> u8 list \<Rightarrow> nat" where
  "order_uint bo bs = foldr (\<lambda>b n. unat b + 256 * n) (case bo of LittleEndian \<Rightarrow> bs | BigEndian \<Rightarrow> rev bs) 0"

text \<open>\<^verbatim>\<open>byteOrder.Uint16(buf[i:])\<close> and its wider variants, in range\<close>

definition Uint16 :: "byteOrder \<Rightarrow> nat \<Rightarrow> u8 list \<Rightarrow> nat" where
  "Uint16 bo i buf = order_uint bo (gslice i (i + 2) buf)"

definition Uint32 :: "byteOrder \<Rightarrow> nat \<Rightarrow> u8 list \<Rightarrow> nat" where
  "Uint32 bo i buf = order_uint bo (gslice i (i + 4) buf)"

definition Uint64 :: "byteOrder \<Rightarrow> nat \<Rightarrow> u8 list \<Rightarrow> i64" where
  "Uint64 bo i buf = word_of_nat (order_uint bo (gslice i (i + 8) buf))"

section \<open>Notes\<close>

text \<open>The loop over the notes of a section ends, finds the id or fails.\<close>

datatype notes_result = NotesDone "u8 list" | NotesFail elf_error | NotesFound string

definition align4 :: "nat \<Rightarrow> i64" where
  "align4 n = (word_of_nat n + 3) AND NOT 3"

definition note_next :: "nat \<Rightarrow> nat \<Rightarrow> i64 \<Rightarrow> i64 \<times> i64" where
  "note_next nameSize descSize off =
     (let descOff = off + (12 + align4 nameSize) in (descOff, descOff + align4 descSize))"

definition is_gnu_note :: "nat \<Rightarrow> nat \<Rightarrow> u8 list \<Rightarrow> bool" where
  "is_gnu_note nameSize noteType buf \<longleftrightarrow>
     \<not> (nameSize \<noteq> 4 \<or> noteType \<noteq> 3 \<or> buf ! 12 \<noteq> 0x47 \<or> buf ! 13 \<noteq> 0x4E \<or> buf ! 14 \<noteq> 0x55 \<or> buf ! 15 \<noteq> 0)"

text \<open>
  Every note moves the offset forward by at least twelve bytes, or past the largest
  \<^verbatim>\<open>int64\<close>, and then the next read fails.  So the loop ends on every file.
\<close>

lemma sint_cases: "sint (w :: i64) = (if unat w < 2 ^ 63 then int (unat w) else int (unat w) - 2 ^ 64)"
proof -
  have lt: "int (unat w) < 2 ^ 64"
    using unsigned_less [of w, where ?'a = int] by simp
  have ge: "- (2 ^ 63) \<le> int (unat w)"
    by (rule order_trans [of _ 0]) simp_all
  have w: "w = word_of_int (int (unat w))" "w = word_of_int (int (unat w) - 2 ^ 64)"
    by simp_all
  show ?thesis
  proof (cases "unat w < 2 ^ 63")
    case True
    then have "int (unat w) < 2 ^ 63"
      by (metis of_nat_less_iff of_nat_numeral of_nat_power)
    then have "sint (word_of_int (int (unat w)) :: i64) = int (unat w)"
      unfolding sint_sbintrunc' by (intro signed_take_bit_int_eq_self) (use ge in simp_all)
    with True show ?thesis
      by simp
  next
    case False
    then have "2 ^ 63 \<le> int (unat w)"
      by (metis not_less of_nat_less_iff of_nat_numeral of_nat_power)
    then have "sint (word_of_int (int (unat w) - 2 ^ 64) :: i64) = int (unat w) - 2 ^ 64"
      unfolding sint_sbintrunc' using lt by (intro signed_take_bit_int_eq_self) simp_all
    with False show ?thesis
      by (simp only: w(2) [symmetric] if_False)
  qed
qed

lemma nonneg_iff: "\<not> w <s 0 \<longleftrightarrow> unat (w :: i64) < 2 ^ 63"
  using unsigned_less [of w, where ?'a = int] by (auto simp: word_sless_alt sint_cases)

lemma sless_nonneg:
  assumes "unat (v :: i64) < 2 ^ 63" "unat w < 2 ^ 63"
  shows "v <s w \<longleftrightarrow> unat v < unat w"
  using assms by (simp add: word_sless_alt sint_cases word_less_nat_alt [symmetric] word_less_def [symmetric])

lemma unat_add_small:
  assumes "unat (v :: i64) + unat w < 2 ^ 64"
  shows "unat (v + w) = unat v + unat w"
  using assms by (simp add: unat_word_ariths)

lemma and_not_3: "w AND NOT 3 = push_bit 2 (drop_bit 2 (w :: i64))"
proof (rule bit_word_eqI)
  fix n
  assume n: "n < LENGTH(64)"
  have "bit (3 :: i64) n \<longleftrightarrow> n < 2"
    using n bit_mask_iff [of 2 n, where ?'a = i64] by (simp add: mask_eq_exp_minus_1)
  then have "bit (w AND NOT 3) n \<longleftrightarrow> bit w n \<and> 2 \<le> n"
    using n by (simp only: bit_and_iff bit_not_iff) auto
  then show "bit (w AND NOT 3) n \<longleftrightarrow> bit (push_bit 2 (drop_bit 2 w)) n"
    using n by (auto simp: bit_push_bit_iff bit_drop_bit_eq add_2_eq_Suc [symmetric] simp del: add_2_eq_Suc)
qed

lemma align4_eq: "n < 2 ^ 32 \<Longrightarrow> unat (align4 n) = 4 * ((n + 3) div 4)"
proof -
  assume n: "n < 2 ^ 32"
  let ?w = "word_of_nat n + 3 :: i64"
  have "?w AND NOT 3 = push_bit 2 (drop_bit 2 ?w)"
    by (rule and_not_3)
  moreover have "unat ?w = n + 3"
    using n by (simp add: unat_word_ariths unat_of_nat)
  then have "unat (drop_bit 2 ?w) = (n + 3) div 4"
    by (simp add: drop_bit_eq_div unat_div)
  then have "unat (push_bit 2 (drop_bit 2 ?w)) = 4 * ((n + 3) div 4)"
    using n by (simp add: push_bit_eq_mult unat_word_ariths)
  ultimately show ?thesis
    by (simp add: align4_def)
qed

lemma order_uint_bound: "order_uint bo bs < 256 ^ length bs"
proof -
  have "foldr (\<lambda>b n. unat b + 256 * n) (cs :: u8 list) 0 < 256 ^ length cs" for cs
  proof (induction cs)
    case (Cons b cs)
    have "unat b < 256"
      using unsigned_less [of b, where ?'a = nat] by simp
    with Cons show ?case
      by simp
  qed simp
  from this [of bs] this [of "rev bs"] show ?thesis
    by (cases bo) (simp_all add: order_uint_def)
qed

lemma Uint_bounds: "Uint16 bo i buf < 2 ^ 16" "Uint32 bo i buf < 2 ^ 32"
proof -
  have "256 ^ length (gslice i (i + k) buf) \<le> (256 :: nat) ^ k" for k
    by (rule power_increasing) (simp_all add: gslice_def)
  then have "order_uint bo (gslice i (i + k) buf) < 256 ^ k" for k
    using order_uint_bound [of bo "gslice i (i + k) buf"] order_less_le_trans by blast
  from this [of 2] this [of 4] show "Uint16 bo i buf < 2 ^ 16" "Uint32 bo i buf < 2 ^ 32"
    by (simp_all add: Uint16_def Uint32_def)
qed

lemma note_next_forward:
  assumes "unat off < 2 ^ 63" "a < 2 ^ 32" "b < 2 ^ 32"
  shows "unat (fst (note_next a b off)) = unat off + 12 + 4 * ((a + 3) div 4)"
    "unat (snd (note_next a b off)) = unat off + 12 + 4 * ((a + 3) div 4) + 4 * ((b + 3) div 4)"
proof -
  have a: "unat (align4 a) = 4 * ((a + 3) div 4)" "unat (align4 a) \<le> 2 ^ 33"
    and b: "unat (align4 b) = 4 * ((b + 3) div 4)" "unat (align4 b) \<le> 2 ^ 33"
    using assms(2,3) by (simp_all add: align4_eq)
  have c: "unat (12 + align4 a) = 12 + unat (align4 a)"
    using a(2) by (subst unat_add_small) simp_all
  then have d: "unat (off + (12 + align4 a)) = unat off + 12 + unat (align4 a)"
    using a(2) assms(1) by (subst unat_add_small) simp_all
  then have "unat (off + (12 + align4 a) + align4 b) = unat off + 12 + unat (align4 a) + unat (align4 b)"
    using a(2) b(2) assms(1) by (subst unat_add_small) simp_all
  with a(1) b(1) d show "unat (fst (note_next a b off)) = unat off + 12 + 4 * ((a + 3) div 4)"
    "unat (snd (note_next a b off)) = unat off + 12 + 4 * ((a + 3) div 4) + 4 * ((b + 3) div 4)"
    by (simp_all add: note_next_def Let_def)
qed

lemma ReadAt_Inr: "ReadAt f n off buf = Inr buf' \<Longrightarrow>
    unat off < 2 ^ 63 \<and> (n \<noteq> 0 \<longrightarrow> unat off + n \<le> length f) \<and> buf' = take n (drop (unat off) f) @ drop n buf"
  by (auto simp: ReadAt_def nonneg_iff split: if_splits)

definition room :: "i64 \<Rightarrow> nat" where
  "room off = 2 ^ 63 - unat off"

function elf_notes :: "byteOrder \<Rightarrow> u8 list \<Rightarrow> i64 \<Rightarrow> i64 \<Rightarrow> u8 list \<Rightarrow> notes_result" where
  "elf_notes bo f off stop buf =
     (if \<not> off <s stop then NotesDone buf
      else case ReadAt f 16 off buf of
          Inl e \<Rightarrow> NotesFail (ErrRead e)
        | Inr buf \<Rightarrow>
            (let nameSize = Uint32 bo 0 buf;
                 descSize = Uint32 bo 4 buf;
                 noteType = Uint32 bo 8 buf;
                 (descOff, off') = note_next nameSize descSize off in
             if \<not> is_gnu_note nameSize noteType buf then elf_notes bo f off' stop buf
             else if length buf < descSize then NotesFail ErrBadELF
             else (case ReadAt f descSize descOff buf of
                     Inl e \<Rightarrow> NotesFail (ErrRead e)
                   | Inr buf \<Rightarrow> NotesFound (hex_encode (take descSize buf)))))"
  by pat_completeness auto

termination
proof (relation "measure (\<lambda>(bo, f, off, stop, buf). room off)", simp)
  fix bo f off stop buf buf' a b t x descOff off'
  assume r: "ReadAt f 16 off buf = Inr buf'" and a: "a = Uint32 bo 0 buf'" "b = Uint32 bo 4 buf'"
    and x: "x = note_next a b off" "(descOff, off') = x"
  have o: "unat off < 2 ^ 63"
    using ReadAt_Inr [OF r] by simp
  have "unat off' = unat off + 12 + 4 * ((a + 3) div 4) + 4 * ((b + 3) div 4)"
    using note_next_forward(2) [OF o, of a b] x Uint_bounds(2) [of bo 0 buf'] Uint_bounds(2) [of bo 4 buf']
    unfolding a by (metis snd_conv)
  then have "unat off < unat off'"
    by linarith
  with o show "((bo, f, off', stop, buf'), bo, f, off, stop, buf) \<in> measure (\<lambda>(bo, f, off, stop, buf). room off)"
    by (simp add: room_def)
qed

declare elf_notes.simps [simp del]

section \<open>Sections and the file header\<close>

datatype elf_class = Class32 | Class64

definition entry_size :: "elf_class \<Rightarrow> nat" where
  "entry_size c = (case c of Class32 \<Rightarrow> 40 | Class64 \<Rightarrow> 64)"

text \<open>The offset and the size in a section header, by the size of the header.\<close>

definition section_range :: "byteOrder \<Rightarrow> i64 \<Rightarrow> u8 list \<Rightarrow> i64 \<times> i64" where
  "section_range bo shentsize buf =
     (if shentsize = 40 then (word_of_nat (Uint32 bo 16 buf), word_of_nat (Uint32 bo 20 buf))
      else (Uint64 bo 24 buf, Uint64 bo 32 buf))"

fun elf_sections :: "byteOrder \<Rightarrow> u8 list \<Rightarrow> i64 \<Rightarrow> i64 \<Rightarrow> nat \<Rightarrow> nat \<Rightarrow> u8 list \<Rightarrow> elf_error + string" where
  "elf_sections bo f shoff shentsize i 0 buf = Inl ErrNoBuildID"
| "elf_sections bo f shoff shentsize i (Suc n) buf =
     (case ReadAt f (unat shentsize) (shoff + word_of_nat i * shentsize) buf of
        Inl e \<Rightarrow> Inl (ErrRead e)
      | Inr buf \<Rightarrow>
          if Uint32 bo 4 buf \<noteq> 7 then elf_sections bo f shoff shentsize (Suc i) n buf
          else (case section_range bo shentsize buf of
                  (off, sz) \<Rightarrow>
                    (case elf_notes bo f off (sz + off) buf of
                       NotesDone buf \<Rightarrow> elf_sections bo f shoff shentsize (Suc i) n buf
                     | NotesFail e \<Rightarrow> Inl e
                     | NotesFound s \<Rightarrow> Inr s)))"

text \<open>The fields of the file header: the offset, the entry size and the number of the section headers.\<close>

definition section_table :: "byteOrder \<Rightarrow> u8 list \<Rightarrow> elf_error + i64 \<times> i64 \<times> nat" where
  "section_table bo buf =
     (if buf ! 4 = 1 then
        (let shentsize = word_of_nat (Uint16 bo 46 buf) in
         if shentsize \<noteq> 40 then Inl ErrBadELF
         else Inr (word_of_nat (Uint32 bo 32 buf), shentsize, Uint16 bo 48 buf))
      else if buf ! 4 = 2 then
        (let shentsize = word_of_nat (Uint16 bo 58 buf) in
         if shentsize \<noteq> 64 then Inl ErrBadELF
         else Inr (Uint64 bo 40 buf, shentsize, Uint16 bo 60 buf))
      else Inl ErrBadELF)"

definition header_order :: "u8 list \<Rightarrow> byteOrder option" where
  "header_order buf = (if buf ! 5 = 1 then Some LittleEndian else if buf ! 5 = 2 then Some BigEndian else None)"

definition elfBuildID :: "filesystem \<Rightarrow> string \<Rightarrow> elf_error + string" where
  "elfBuildID fs file =
     (case fs file of
        Inl e \<Rightarrow> Inl (ErrOpen e)
      | Inr f \<Rightarrow>
          (case ReadAt f 64 0 (replicate 256 0) of
             Inl e \<Rightarrow> Inl (ErrRead e)
           | Inr buf \<Rightarrow>
               if buf ! 0 \<noteq> 0x7F \<or> buf ! 1 \<noteq> 0x45 \<or> buf ! 2 \<noteq> 0x4C \<or> buf ! 3 \<noteq> 0x46 then Inl ErrBadELF
               else (case header_order buf of
                       None \<Rightarrow> Inl ErrBadELF
                     | Some bo \<Rightarrow>
                         (case section_table bo buf of
                            Inl e \<Rightarrow> Inl e
                          | Inr (shoff, shentsize, shnum) \<Rightarrow> elf_sections bo f shoff shentsize 0 shnum buf))))"

section \<open>What a well-formed file contains\<close>

text \<open>A note, its image in a file, and the first GNU build id among the notes of a file.\<close>

record elf_note =
  note_name :: "u8 list"
  note_type :: nat
  note_desc :: "u8 list"

definition order_bytes :: "byteOrder \<Rightarrow> nat \<Rightarrow> nat \<Rightarrow> u8 list" where
  "order_bytes bo k n =
     (let bs = map (\<lambda>i. word_of_nat (n div 256 ^ i)) [0..<k] in
      case bo of LittleEndian \<Rightarrow> bs | BigEndian \<Rightarrow> rev bs)"

definition padded :: "u8 list \<Rightarrow> u8 list" where
  "padded bs = bs @ replicate (4 * ((length bs + 3) div 4) - length bs) 0"

definition enc_note :: "byteOrder \<Rightarrow> elf_note \<Rightarrow> u8 list" where
  "enc_note bo n =
     order_bytes bo 4 (length (note_name n)) @ order_bytes bo 4 (length (note_desc n)) @ order_bytes bo 4 (note_type n) @
     padded (note_name n) @ padded (note_desc n)"

definition note_ok :: "elf_note \<Rightarrow> bool" where
  "note_ok n \<longleftrightarrow> length (note_name n) < 2 ^ 32 \<and> length (note_desc n) < 2 ^ 32 \<and> note_type n < 2 ^ 32"

definition gnu_build_id :: "elf_note \<Rightarrow> bool" where
  "gnu_build_id n \<longleftrightarrow> note_name n = [0x47, 0x4E, 0x55, 0] \<and> note_type n = 3"

definition enc_notes :: "byteOrder \<Rightarrow> elf_note list \<Rightarrow> u8 list" where
  "enc_notes bo ns = concat (map (enc_note bo) ns)"

lemma length_order_bytes [simp]: "length (order_bytes bo k n) = k"
  by (simp add: order_bytes_def Let_def split: byteOrder.split)

lemma foldr_bytes:
  "foldr (\<lambda>b n. unat b + 256 * n) (map (\<lambda>i. word_of_nat (n div 256 ^ i) :: u8) [0..<k]) 0 = n mod 256 ^ k"
proof (induction k arbitrary: n)
  case (Suc k)
  have "map (\<lambda>i. word_of_nat (n div 256 ^ i) :: u8) [0..<Suc k] =
      word_of_nat n # map (\<lambda>i. word_of_nat (n div 256 div 256 ^ i)) [0..<k]"
    by (simp add: upt_conv_Cons map_Suc_upt [symmetric] div_mult2_eq [symmetric] comp_def del: upt_Suc)
  then show ?case
    using Suc [of "n div 256"] by (simp add: unat_of_nat mod_mult2_eq)
qed simp

lemma order_uint_bytes: "order_uint bo (order_bytes bo k n) = n mod 256 ^ k"
  by (cases bo) (simp_all add: order_uint_def order_bytes_def Let_def foldr_bytes)

lemma length_padded: "length (padded bs) = 4 * ((length bs + 3) div 4)"
proof -
  have "length bs \<le> 4 * ((length bs + 3) div 4)"
    by linarith
  then show ?thesis
    by (simp add: padded_def)
qed

lemma length_enc_note:
  "length (enc_note bo n) = 12 + 4 * ((length (note_name n) + 3) div 4) + 4 * ((length (note_desc n) + 3) div 4)"
  by (simp add: enc_note_def length_padded)

lemma ReadAt_ok:
  assumes "unat off + n \<le> length f" and "length f < 2 ^ 63"
  shows "ReadAt f n off buf = Inr (take n (drop (unat off) f) @ drop n buf)"
proof -
  have "\<not> off <s 0"
    using assms by (simp add: nonneg_iff)
  with assms(1) show ?thesis
    by (simp add: ReadAt_def)
qed

text \<open>What a note's first sixteen bytes say, read into the buffer.\<close>

lemma note_header:
  assumes f: "drop (unat off) f = enc_note bo n @ rest" and "note_ok n" and "16 \<le> length (enc_note bo n @ rest)"
    and "length f < 2 ^ 63"
  obtains b where "ReadAt f 16 off buf = Inr b" "length b = 16 + (length buf - 16)"
    "Uint32 bo 0 b = length (note_name n)" "Uint32 bo 4 b = length (note_desc n)" "Uint32 bo 8 b = note_type n"
    "is_gnu_note (length (note_name n)) (note_type n) b \<longleftrightarrow> gnu_build_id n"
proof -
  let ?a = "order_bytes bo 4 (length (note_name n))" and ?b = "order_bytes bo 4 (length (note_desc n))"
    and ?c = "order_bytes bo 4 (note_type n)"
  let ?d = "take 4 (padded (note_name n) @ padded (note_desc n) @ rest)"
  let ?buf = "?a @ ?b @ ?c @ ?d @ drop 16 buf"
  have l: "length (drop (unat off) f) = length f - unat off"
    by simp
  have "4 \<le> length (padded (note_name n) @ padded (note_desc n) @ rest)"
    using assms(3) by (simp add: length_enc_note length_padded)
  then have d: "length ?d = 4"
    by (simp only: length_take min_absorb2)
  have t: "take 16 (drop (unat off) f) = ?a @ ?b @ ?c @ ?d"
    by (simp add: f enc_note_def)
  have "unat off + 16 \<le> length f"
    using assms(3) l unfolding f [symmetric] by linarith
  then have r: "ReadAt f 16 off buf = Inr ?buf"
    using ReadAt_ok [of off 16 f buf] assms(4) t by simp
  have u: "Uint32 bo 0 ?buf = length (note_name n)" "Uint32 bo 4 ?buf = length (note_desc n)" "Uint32 bo 8 ?buf = note_type n"
    using assms(2) by (simp_all add: Uint32_def gslice_def order_uint_bytes note_ok_def)
  have "is_gnu_note (length (note_name n)) (note_type n) ?buf \<longleftrightarrow> gnu_build_id n"
  proof (cases "length (note_name n) = 4")
    case True
    then obtain x y z w where nm: "note_name n = [x, y, z, w]"
      by (auto simp: length_Suc_conv eval_nat_numeral)
    have "?d = note_name n"
      by (simp add: nm padded_def)
    then have "?buf ! 12 = x" "?buf ! 13 = y" "?buf ! 14 = z" "?buf ! 15 = w"
      by (simp_all add: nm nth_append)
    then show ?thesis
      by (auto simp: is_gnu_note_def gnu_build_id_def nm)
  qed (auto simp: is_gnu_note_def gnu_build_id_def)
  moreover have "length ?buf = 16 + (length buf - 16)"
    using d by simp
  ultimately show ?thesis
    using r u that by blast
qed

definition notes_spec :: "elf_note list \<Rightarrow> (elf_error + string) option" where
  "notes_spec ns = map_option
     (\<lambda>n. if length (note_desc n) \<le> 256 then Inr (hex_encode (note_desc n)) else Inl ErrBadELF) (find gnu_build_id ns)"

lemma notes_spec_simps:
  "notes_spec [] = None"
  "notes_spec (n # ns) =
     (if gnu_build_id n then Some (if length (note_desc n) \<le> 256 then Inr (hex_encode (note_desc n)) else Inl ErrBadELF)
      else notes_spec ns)"
  by (simp_all add: notes_spec_def)

lemma elf_notes_enc:
  assumes "drop (unat off) f = enc_notes bo ns @ rest" and "unat off + length (enc_notes bo ns) = unat stop"
    and "list_all note_ok ns" and "4 \<le> length rest" and "unat off \<le> length f" "length f < 2 ^ 63" and "length buf = 256"
  shows "case notes_spec ns of
      None \<Rightarrow> \<exists>b. elf_notes bo f off stop buf = NotesDone b \<and> length b = 256
    | Some (Inl e) \<Rightarrow> elf_notes bo f off stop buf = NotesFail e
    | Some (Inr s) \<Rightarrow> elf_notes bo f off stop buf = NotesFound s"
  using assms
proof (induction ns arbitrary: off buf)
  case Nil
  then have "\<not> off <s stop"
    using sless_nonneg [of off stop] by (simp add: enc_notes_def)
  with Nil show ?case
    by (simp add: notes_spec_def elf_notes.simps)
next
  case (Cons n ns)
  let ?r = "enc_notes bo ns @ rest"
  have dr: "drop (unat off) f = enc_note bo n @ ?r"
    using Cons.prems(1) by (simp add: enc_notes_def)
  have len: "length f = unat off + length (enc_note bo n) + length ?r"
    using arg_cong [OF dr, of length] Cons.prems(5) by simp
  have off: "unat off < 2 ^ 63"
    using Cons.prems(5,6) by linarith
  have "unat off < unat stop" "unat stop < 2 ^ 63"
    using Cons.prems(2,6) len by (simp_all add: enc_notes_def length_enc_note)
  then have less: "off <s stop"
    using off by (simp add: sless_nonneg)
  obtain b where b: "ReadAt f 16 off buf = Inr b" "length b = 16 + (length buf - 16)"
    "Uint32 bo 0 b = length (note_name n)" "Uint32 bo 4 b = length (note_desc n)" "Uint32 bo 8 b = note_type n"
    "is_gnu_note (length (note_name n)) (note_type n) b \<longleftrightarrow> gnu_build_id n"
  proof (rule note_header [OF dr _ _ Cons.prems(6), of buf])
    show "note_ok n" "16 \<le> length (enc_note bo n @ ?r)"
      using Cons.prems(3,4) by (simp_all add: length_enc_note)
  qed
  obtain descOff off' where nx: "note_next (length (note_name n)) (length (note_desc n)) off = (descOff, off')"
    by force
  have u: "unat descOff = unat off + 12 + 4 * ((length (note_name n) + 3) div 4)"
      "unat off' = unat off + length (enc_note bo n)"
    using note_next_forward [OF off, of "length (note_name n)" "length (note_desc n)"] Cons.prems(3)
    by (simp_all add: nx note_ok_def length_enc_note)
  note step = elf_notes.simps [of bo f off stop buf] less b(1) b(3-6) nx
  show ?case
  proof (cases "gnu_build_id n")
    case False
    have "drop (unat off') f = ?r"
      using dr by (simp add: u(2) drop_drop [symmetric] add.commute [of "unat off"] del: drop_drop)
    moreover have "unat off' + length (enc_notes bo ns) = unat stop" "unat off' \<le> length f"
      using Cons.prems(2) len u(2) by (simp_all add: enc_notes_def)
    ultimately have "case notes_spec ns of
        None \<Rightarrow> \<exists>b'. elf_notes bo f off' stop b = NotesDone b' \<and> length b' = 256
      | Some (Inl e) \<Rightarrow> elf_notes bo f off' stop b = NotesFail e
      | Some (Inr s) \<Rightarrow> elf_notes bo f off' stop b = NotesFound s"
      using Cons.prems b(2) by (intro Cons.IH) simp_all
    moreover have "elf_notes bo f off stop buf = elf_notes bo f off' stop b"
      using False by (simp add: step)
    ultimately show ?thesis
      using False by (simp only: notes_spec_simps if_False)
  next
    case True
    then have nm: "note_name n = [0x47, 0x4E, 0x55, 0]"
      by (simp add: gnu_build_id_def)
    have "drop (unat descOff) f = drop 16 (enc_note bo n @ ?r)"
      unfolding dr [symmetric] by (simp add: u(1) nm add.commute)
    then have d: "drop (unat descOff) f = padded (note_desc n) @ ?r"
      by (simp add: enc_note_def nm padded_def)
    have "unat descOff + length (note_desc n) \<le> length f"
      using len u(1) length_enc_note [of bo n] by linarith
    then have "ReadAt f (length (note_desc n)) descOff b = Inr (note_desc n @ drop (length (note_desc n)) b)"
      using ReadAt_ok Cons.prems(6) by (simp add: d padded_def)
    then show ?thesis
      using True b(2) Cons.prems(7) by (simp add: step notes_spec_simps)
  qed
qed

section \<open>Files\<close>

text \<open>
  The sections of a file: one that holds notes, at an offset, or another.  The file goes on for four
  bytes after a section of notes, since the header and the name of a note are read at once.
\<close>

datatype elf_section = NoteSection i64 "elf_note list" | OtherSection

definition is_section :: "byteOrder \<Rightarrow> elf_class \<Rightarrow> u8 list \<Rightarrow> u8 list \<Rightarrow> elf_section \<Rightarrow> bool" where
  "is_section bo c f h s =
     (case s of
        OtherSection \<Rightarrow> Uint32 bo 4 h \<noteq> 7
      | NoteSection off ns \<Rightarrow>
          Uint32 bo 4 h = 7 \<and>
          section_range bo (word_of_nat (entry_size c)) h = (off, word_of_nat (length (enc_notes bo ns))) \<and>
          take (length (enc_notes bo ns)) (drop (unat off) f) = enc_notes bo ns \<and>
          unat off + length (enc_notes bo ns) + 4 \<le> length f \<and> list_all note_ok ns)"

text \<open>The headers of the sections, one after the other at an offset.\<close>

definition has_sections :: "byteOrder \<Rightarrow> elf_class \<Rightarrow> u8 list \<Rightarrow> i64 \<Rightarrow> nat \<Rightarrow> elf_section list \<Rightarrow> bool" where
  "has_sections bo c f shoff i ss \<longleftrightarrow>
     unat shoff + (i + length ss) * entry_size c \<le> length f \<and>
     (\<forall>j < length ss. is_section bo c f
        (gslice (unat shoff + (i + j) * entry_size c) (unat shoff + (i + j + 1) * entry_size c) f) (ss ! j))"

definition is_elf :: "byteOrder \<Rightarrow> elf_class \<Rightarrow> elf_section list \<Rightarrow> u8 list \<Rightarrow> bool" where
  "is_elf bo c ss f \<longleftrightarrow>
     64 \<le> length f \<and> length f < 2 ^ 63 \<and> take 4 f = [0x7F, 0x45, 0x4C, 0x46] \<and>
     f ! 4 = (case c of Class32 \<Rightarrow> 1 | Class64 \<Rightarrow> 2) \<and> f ! 5 = (case bo of LittleEndian \<Rightarrow> 1 | BigEndian \<Rightarrow> 2) \<and>
     (case c of
        Class32 \<Rightarrow> Uint16 bo 46 f = 40 \<and> Uint16 bo 48 f = length ss \<and> has_sections bo c f (word_of_nat (Uint32 bo 32 f)) 0 ss
      | Class64 \<Rightarrow> Uint16 bo 58 f = 64 \<and> Uint16 bo 60 f = length ss \<and> has_sections bo c f (Uint64 bo 40 f) 0 ss)"

definition sec_notes :: "elf_section \<Rightarrow> elf_note list" where
  "sec_notes s = (case s of NoteSection _ ns \<Rightarrow> ns | OtherSection \<Rightarrow> [])"

definition elf_spec :: "elf_section list \<Rightarrow> elf_error + string" where
  "elf_spec ss = (case notes_spec (concat (map sec_notes ss)) of None \<Rightarrow> Inl ErrNoBuildID | Some r \<Rightarrow> r)"

lemma gslice_front: "j \<le> n \<Longrightarrow> n \<le> length xs \<Longrightarrow> gslice i j (take n xs @ ys) = gslice i j xs"
proof -
  assume "j \<le> n" "n \<le> length xs"
  then have "j - i \<le> n - i" "j - i - (length xs - i) = 0" "j - i - (n - i) = 0"
    by linarith+
  then show ?thesis
    using \<open>n \<le> length xs\<close> by (simp add: gslice_def drop_take)
qed

lemma Uint_front:
  "i + 2 \<le> n \<Longrightarrow> n \<le> length xs \<Longrightarrow> Uint16 bo i (take n xs @ ys) = Uint16 bo i xs"
  "i + 4 \<le> n \<Longrightarrow> n \<le> length xs \<Longrightarrow> Uint32 bo i (take n xs @ ys) = Uint32 bo i xs"
  "i + 8 \<le> n \<Longrightarrow> n \<le> length xs \<Longrightarrow> Uint64 bo i (take n xs @ ys) = Uint64 bo i xs"
  by (simp_all add: Uint16_def Uint32_def Uint64_def gslice_front)

lemma Uint_append:
  "i + 4 \<le> length xs \<Longrightarrow> Uint32 bo i (xs @ ys) = Uint32 bo i xs"
  "i + 8 \<le> length xs \<Longrightarrow> Uint64 bo i (xs @ ys) = Uint64 bo i xs"
  using Uint_front(2,3) [of i "length xs" xs bo ys] by simp_all

lemma notes_spec_append:
  "notes_spec (ns @ ms) = (case notes_spec ns of None \<Rightarrow> notes_spec ms | Some r \<Rightarrow> Some r)"
  by (induction ns) (simp_all add: notes_spec_simps)

lemma elf_spec_Cons:
  "elf_spec (s # ss) = (case notes_spec (sec_notes s) of None \<Rightarrow> elf_spec ss | Some r \<Rightarrow> r)"
  by (simp add: elf_spec_def notes_spec_append split: option.split)

lemma entry_size_simps [simp]: "entry_size Class32 = 40" "entry_size Class64 = 64"
  by (simp_all add: entry_size_def)

lemma section_range_append:
  "length h = entry_size c \<Longrightarrow>
     section_range bo (word_of_nat (entry_size c)) (h @ t) = section_range bo (word_of_nat (entry_size c)) h"
  by (cases c) (simp_all add: section_range_def Uint_append)

lemma is_section_append:
  "length h = entry_size c \<Longrightarrow> is_section bo c f (h @ t) s = is_section bo c f h s"
proof -
  assume h: "length h = entry_size c"
  then have "8 \<le> length h"
    by (cases c) simp_all
  then show ?thesis
    by (cases s) (simp_all add: is_section_def Uint_append section_range_append [OF h])
qed

lemma sections_Cons:
  "has_sections bo c f shoff i (s # ss) \<longleftrightarrow>
     is_section bo c f (gslice (unat shoff + i * entry_size c) (unat shoff + (i + 1) * entry_size c) f) s \<and>
     has_sections bo c f shoff (Suc i) ss"
  by (auto simp: has_sections_def nth_Cons less_Suc_eq_0_disj algebra_simps split: nat.split)

lemma section_notes:
  assumes "is_section bo c f h (NoteSection off ns)" and "length f < 2 ^ 63" and "length buf = 256"
    and "section_range bo (word_of_nat (entry_size c)) h = (off', sz)"
  shows "case notes_spec ns of
      None \<Rightarrow> \<exists>b. elf_notes bo f off' (sz + off') buf = NotesDone b \<and> length b = 256
    | Some (Inl e) \<Rightarrow> elf_notes bo f off' (sz + off') buf = NotesFail e
    | Some (Inr s) \<Rightarrow> elf_notes bo f off' (sz + off') buf = NotesFound s"
proof -
  let ?n = "length (enc_notes bo ns)"
  have s: "off' = off" "sz = word_of_nat ?n" "take ?n (drop (unat off) f) = enc_notes bo ns"
      "unat off + ?n + 4 \<le> length f" "list_all note_ok ns"
    using assms(1,4) by (simp_all add: is_section_def)
  have "unat (sz + off') = unat off + ?n"
    using s(4) assms(2) by (simp add: s(1,2) unat_word_ariths unat_of_nat)
  moreover obtain r where "drop (unat off') f = enc_notes bo ns @ r" "4 \<le> length r"
  proof
    show "drop (unat off') f = enc_notes bo ns @ drop (unat off + ?n) f"
      using append_take_drop_id [of ?n "drop (unat off) f"] by (simp add: s(1,3) add.commute)
    show "4 \<le> length (drop (unat off + ?n) f)"
      unfolding length_drop using s(4) by linarith
  qed
  ultimately show ?thesis
    using s assms by (intro elf_notes_enc) simp_all
qed

lemma elf_sections_spec:
  assumes "has_sections bo c f shoff i ss" and "length f < 2 ^ 63" and "i + length ss < 2 ^ 32" and "length buf = 256"
  shows "elf_sections bo f shoff (word_of_nat (entry_size c)) i (length ss) buf = elf_spec ss"
  using assms
proof (induction ss arbitrary: i buf)
  case Nil
  show ?case
    by (simp add: elf_spec_def notes_spec_simps)
next
  case (Cons s ss)
  let ?k = "entry_size c" and ?pos = "shoff + word_of_nat i * word_of_nat (entry_size c)"
  let ?h = "gslice (unat shoff + i * ?k) (unat shoff + (i + 1) * ?k) f"
  let ?b = "?h @ drop ?k buf"
  have k: "?k \<le> 64" "unat (word_of_nat ?k :: i64) = ?k"
    by (cases c; simp)+
  have sec: "is_section bo c f ?h s" and rest: "has_sections bo c f shoff (Suc i) ss"
    using Cons.prems(1) by (simp_all add: sections_Cons)
  have fits: "unat shoff + i * ?k + ?k \<le> length f"
    using Cons.prems(1) by (simp add: has_sections_def algebra_simps)
  have "i * ?k < 2 ^ 63"
    using fits Cons.prems(2) by linarith
  then have u: "unat (word_of_nat (i * ?k) :: i64) = i * ?k"
    by (simp add: unat_of_nat del: of_nat_mult)
  have "unat shoff + unat (word_of_nat (i * ?k) :: i64) < 2 ^ 64"
    unfolding u using fits Cons.prems(2) by simp
  from unat_add_small [OF this] have pos: "unat ?pos = unat shoff + i * ?k"
    unfolding u by simp
  have h: "length ?h = ?k" "take ?k (drop (unat ?pos) f) = ?h"
    using fits by (simp_all add: gslice_def pos)
  have r: "ReadAt f ?k ?pos buf = Inr ?b"
    using ReadAt_ok [of ?pos ?k f buf] fits Cons.prems(2) h(2) by (simp add: pos)
  have lb: "length ?b = 256"
    using k(1) h(1) Cons.prems(4) by simp
  have sb: "is_section bo c f ?b s"
    using sec is_section_append [OF h(1)] by simp
  have IH: "elf_sections bo f shoff (word_of_nat ?k) (Suc i) (length ss) b = elf_spec ss" if "length b = 256" for b
    using Cons.IH [OF rest Cons.prems(2)] Cons.prems(3) that by simp
  show ?case
  proof (cases s)
    case OtherSection
    with sb have "Uint32 bo 4 ?b \<noteq> 7"
      by (simp add: is_section_def)
    then show ?thesis
      using r IH [OF lb] by (simp add: k(2) elf_spec_Cons OtherSection sec_notes_def notes_spec_simps)
  next
    case (NoteSection off ns)
    obtain off' sz where g: "section_range bo (word_of_nat ?k) ?b = (off', sz)"
      by force
    have "Uint32 bo 4 ?b = 7"
      using sb NoteSection by (simp add: is_section_def)
    with section_notes [OF sb [unfolded NoteSection] Cons.prems(2) lb g] r g IH show ?thesis
      by (auto simp: k(2) elf_spec_Cons NoteSection sec_notes_def split: option.splits sum.splits)
  qed
qed

section \<open>Properties\<close>

lemma elfBuildID_spec:
  assumes "fs file = Inr f" and "is_elf bo c ss f"
  shows "elfBuildID fs file = elf_spec ss"
proof -
  let ?buf = "take 64 f @ replicate 192 0"
  have len: "64 \<le> length f" "length f < 2 ^ 63"
    using assms(2) by (simp_all add: is_elf_def)
  have r: "ReadAt f 64 0 (replicate 256 0) = Inr ?buf"
    using ReadAt_ok [of 0 64 f "replicate 256 0"] len by simp
  have front: "?buf ! i = f ! i" if "i < 64" for i
    using that len(1) by (simp add: nth_append)
  have magic: "?buf ! 0 = 0x7F" "?buf ! 1 = 0x45" "?buf ! 2 = 0x4C" "?buf ! 3 = 0x46"
  proof -
    have "take 4 f = [0x7F, 0x45, 0x4C, 0x46]"
      using assms(2) by (simp add: is_elf_def)
    then have "f ! i = [0x7F, 0x45, 0x4C, 0x46] ! i" if "i < 4" for i
      using that by (metis nth_take)
    from this [of 0] this [of 1] this [of 2] this [of 3]
    show "?buf ! 0 = 0x7F" "?buf ! 1 = 0x45" "?buf ! 2 = 0x4C" "?buf ! 3 = 0x46"
      by (simp_all add: front)
  qed
  have ord: "header_order ?buf = Some bo"
    using assms(2) front [of 5] by (cases bo) (simp_all add: is_elf_def header_order_def)
  have four: "?buf ! 4 = (case c of Class32 \<Rightarrow> 1 | Class64 \<Rightarrow> 2)"
    using assms(2) front [of 4] by (simp add: is_elf_def)
  obtain shoff where tab: "section_table bo ?buf = Inr (shoff, word_of_nat (entry_size c), length ss)"
    and sec: "has_sections bo c f shoff 0 ss" and n: "length ss < 2 ^ 32"
  proof (cases c)
    case Class32
    have "length ss < 2 ^ 16"
      using assms(2) Uint_bounds(1) [of bo 48 f] by (simp add: is_elf_def Class32)
    with assms(2) four len show ?thesis
      by (intro that [of "word_of_nat (Uint32 bo 32 f)"])
         (simp_all add: is_elf_def Class32 section_table_def Uint_front)
  next
    case Class64
    have "length ss < 2 ^ 16"
      using assms(2) Uint_bounds(1) [of bo 60 f] by (simp add: is_elf_def Class64)
    with assms(2) four len show ?thesis
      by (intro that [of "Uint64 bo 40 f"])
         (simp_all add: is_elf_def Class64 section_table_def Uint_front)
  qed
  have "elf_sections bo f shoff (word_of_nat (entry_size c)) 0 (length ss) ?buf = elf_spec ss"
    using elf_sections_spec [OF sec len(2)] n len by simp
  then show ?thesis
    using r magic ord tab by (simp add: elfBuildID_def assms(1))
qed


lemma ReadAt_length: "ReadAt f n off buf = Inr b \<Longrightarrow> n \<le> length buf \<Longrightarrow> length b = length buf"
  by (auto simp: ReadAt_def split: if_splits)

definition file_part :: "u8 list \<Rightarrow> string \<Rightarrow> bool" where
  "file_part f s \<longleftrightarrow> (\<exists>i n. n \<le> 256 \<and> (n = 0 \<or> i + n \<le> length f) \<and> s = hex_encode (take n (drop i f)))"

lemma file_partI:
  assumes "ReadAt f n off buf = Inr b" and "n \<le> 256"
  shows "file_part f (hex_encode (take n b))"
proof -
  have "n = 0 \<or> unat off + n \<le> length f" and "take n b = take n (drop (unat off) f)"
    using ReadAt_Inr [OF assms(1)] by (cases "n = 0"; auto)+
  with assms(2) show ?thesis
    unfolding file_part_def by metis
qed

lemma elf_notes_type:
  "length buf = 256 \<Longrightarrow>
     (\<forall>b. elf_notes bo f off stop buf = NotesDone b \<longrightarrow> length b = 256) \<and>
     (\<forall>s. elf_notes bo f off stop buf = NotesFound s \<longrightarrow> file_part f s)"
proof (induction bo f off stop buf rule: elf_notes.induct)
  case (1 bo f off stop buf)
  show ?case
  proof (cases "\<not> off <s stop")
    case True
    with "1.prems" show ?thesis
      by (simp add: elf_notes.simps)
  next
    case less: False
    show ?thesis
    proof (cases "ReadAt f 16 off buf")
      case (Inl e)
      with less show ?thesis
        by (simp add: elf_notes.simps)
    next
      case (Inr b)
      let ?a = "Uint32 bo 0 b" and ?d = "Uint32 bo 4 b" and ?t = "Uint32 bo 8 b"
      have b: "length b = 256"
        using ReadAt_length [OF Inr] "1.prems" by simp
      obtain o1 o2 where nx: "note_next ?a ?d off = (o1, o2)"
        by force
      note step = elf_notes.simps [of bo f off stop buf] less Inr nx b
      show ?thesis
      proof (cases "is_gnu_note ?a ?t b")
        case False
        have "elf_notes bo f off stop buf = elf_notes bo f o2 stop b"
          using False by (simp add: step)
        with "1.IH" [OF less Inr refl refl refl nx [symmetric] refl False b] show ?thesis
          by simp
      next
        case True
        then show ?thesis
          using file_partI [of f ?d o1 b] by (auto simp: step Let_def split: sum.splits if_splits)
      qed
    qed
  qed
qed

lemma elf_sections_type:
  "length buf = 256 \<Longrightarrow> unat shentsize \<le> 256 \<Longrightarrow> elf_sections bo f shoff shentsize i n buf = Inr s \<Longrightarrow> file_part f s"
proof (induction bo f shoff shentsize i n buf rule: elf_sections.induct)
  case (2 bo f shoff shentsize i n buf)
  then obtain b where b: "ReadAt f (unat shentsize) (shoff + word_of_nat i * shentsize) buf = Inr b"
    by (auto split: sum.splits)
  then have l: "length b = 256"
    using ReadAt_length [OF b] "2.prems" by simp
  obtain off sz where g: "section_range bo shentsize b = (off, sz)"
    by force
  show ?case
    using "2.prems" b l g elf_notes_type [OF l, of bo f off "sz + off"] "2.IH"(1) [OF b _ l] "2.IH"(2) [OF b _ g [symmetric]]
    by (auto split: if_splits notes_result.splits)
qed simp

lemma hex_encode_digits: "set (hex_encode bs) \<subseteq> set ''0123456789abcdef''"
proof -
  define H where "H = set ''0123456789abcdef''"
  have "\<forall>m \<in> set [0..<16]. hex_digit m \<in> set ''0123456789abcdef''"
    by code_simp
  then have "hex_digit n \<in> H" if "n < 16" for n
    using that by (simp add: H_def del: list.set)
  then have "set (hex_encode bs) \<subseteq> H"
    by (induction bs) (auto simp: hex_encode_simps nibbles)
  then show ?thesis
    by (simp only: H_def)
qed

lemma elfBuildID_file_part:
  assumes "elfBuildID fs file = Inr s"
  shows "\<exists>f i n. fs file = Inr f \<and> n \<le> 256 \<and> (n = 0 \<or> i + n \<le> length f) \<and> s = hex_encode (take n (drop i f)) \<and>
    length s = 2 * n \<and> set s \<subseteq> set ''0123456789abcdef''"
proof -
  obtain f where f: "fs file = Inr f"
    using assms by (cases "fs file") (simp_all add: elfBuildID_def)
  obtain buf where r: "ReadAt f 64 0 (replicate 256 0) = Inr buf"
    using assms f by (cases "ReadAt f 64 0 (replicate 256 0)") (simp_all add: elfBuildID_def)
  have l: "length buf = 256"
    using ReadAt_length [OF r] by simp
  obtain bo shoff k n where t: "section_table bo buf = Inr (shoff, k, n)" and s: "elf_sections bo f shoff k 0 n buf = Inr s"
    using assms f r by (auto simp: elfBuildID_def split: if_splits option.splits sum.splits prod.splits)
  have "unat k \<le> 256"
    using t by (auto simp: section_table_def Let_def split: if_splits)
  then have "file_part f s"
    using elf_sections_type [OF l _ s] by blast
  then obtain i n where p: "n \<le> 256" "n = 0 \<or> i + n \<le> length f" "s = hex_encode (take n (drop i f))"
    unfolding file_part_def by blast
  moreover have "length s = 2 * n"
    using p by (auto simp: length_hex_encode)
  ultimately show ?thesis
    using f hex_encode_digits by blast
qed

text \<open>
  Whatever a file contains, reading its build id ends, and an id that is returned is the lower-case
  hexadecimal form of a part of the file of at most 256 bytes.
\<close>

theorem elfBuildID_hex:
  assumes "elfBuildID fs file = Inr s"
  shows "\<exists>f i n. fs file = Inr f \<and> n \<le> 256 \<and> (n = 0 \<or> i + n \<le> length f) \<and> s = hex_encode (take n (drop i f)) \<and>
    length s = 2 * n \<and> set s \<subseteq> set ''0123456789abcdef''"
  using assms by (rule elfBuildID_file_part)

text \<open>A 64-bit little-endian file: the header, a note section with two notes, of which the second is the build id, and the section header.\<close>

definition example_note :: elf_note where
  "example_note = \<lparr>note_name = [0x47, 0x4E, 0x55, 0], note_type = 3, note_desc = [0xDE, 0xAD, 0xBE, 0xEF]\<rparr>"

definition example_notes :: "elf_note list" where
  "example_notes = [\<lparr>note_name = [0x47, 0x6F, 0], note_type = 4, note_desc = [1]\<rparr>, example_note]"

definition example_bytes :: "u8 list" where
  "example_bytes =
     [3, 0, 0, 0, 1, 0, 0, 0, 4, 0, 0, 0, 0x47, 0x6F, 0, 0, 1, 0, 0, 0,
      4, 0, 0, 0, 4, 0, 0, 0, 3, 0, 0, 0, 0x47, 0x4E, 0x55, 0, 0xDE, 0xAD, 0xBE, 0xEF]"

definition example_elf :: "u8 list" where
  "example_elf =
     [0x7F, 0x45, 0x4C, 0x46, 2, 1, 1, 0, 0, 0, 0, 0, 0, 0, 0, 0,
      2, 0, 62, 0, 1, 0, 0, 0, 0, 0, 0, 0, 0, 0, 0, 0,
      0, 0, 0, 0, 0, 0, 0, 0, 104, 0, 0, 0, 0, 0, 0, 0,
      0, 0, 0, 0, 64, 0, 0, 0, 0, 0, 64, 0, 1, 0, 0, 0] @
     example_bytes @
     [0, 0, 0, 0, 7, 0, 0, 0, 0, 0, 0, 0, 0, 0, 0, 0,
      0, 0, 0, 0, 0, 0, 0, 0, 64, 0, 0, 0, 0, 0, 0, 0,
      40, 0, 0, 0, 0, 0, 0, 0, 0, 0, 0, 0, 0, 0, 0, 0,
      0, 0, 0, 0, 0, 0, 0, 0, 0, 0, 0, 0, 0, 0, 0, 0]"

lemma order_bytes_small: "n < 256 \<Longrightarrow> order_bytes LittleEndian 4 n = [word_of_nat n, 0, 0, 0]"
proof -
  assume "n < 256"
  moreover have "[0..<4] = [0, 1, 2, 3]"
    by (simp add: upt_rec)
  ultimately show ?thesis
    by (simp add: order_bytes_def)
qed

lemma replicate_3: "replicate 3 x = [x, x, x]"
  by (simp add: numeral_3_eq_3)

lemma example_notes_bytes: "enc_notes LittleEndian example_notes = example_bytes"
  by (simp add: enc_notes_def example_notes_def example_note_def enc_note_def order_bytes_small padded_def example_bytes_def replicate_3)

lemma example_elf_ok: "is_elf LittleEndian Class64 [NoteSection 64 example_notes] example_elf"
proof -
  have h: "length example_elf = 168" "take 4 example_elf = [0x7F, 0x45, 0x4C, 0x46]" "example_elf ! 4 = 2" "example_elf ! 5 = 1"
    "Uint16 LittleEndian 58 example_elf = 64" "Uint16 LittleEndian 60 example_elf = 1" "Uint64 LittleEndian 40 example_elf = 104"
    by (simp_all add: example_elf_def example_bytes_def Uint16_def Uint64_def order_uint_def gslice_def)
  have s: "gslice 104 168 example_elf =
     [0, 0, 0, 0, 7, 0, 0, 0, 0, 0, 0, 0, 0, 0, 0, 0,
      0, 0, 0, 0, 0, 0, 0, 0, 64, 0, 0, 0, 0, 0, 0, 0,
      40, 0, 0, 0, 0, 0, 0, 0, 0, 0, 0, 0, 0, 0, 0, 0,
      0, 0, 0, 0, 0, 0, 0, 0, 0, 0, 0, 0, 0, 0, 0, 0]" (is "_ = ?h")
    by (simp add: example_elf_def example_bytes_def gslice_def)
  have r: "Uint32 LittleEndian 4 ?h = 7" "Uint64 LittleEndian 24 ?h = 64" "Uint64 LittleEndian 32 ?h = 40"
    by (simp_all add: Uint32_def Uint64_def order_uint_def gslice_def)
  have n: "take 40 (drop 64 example_elf) = example_bytes" "length example_bytes = 40"
    by (simp_all add: example_elf_def example_bytes_def)
  have "list_all note_ok example_notes"
    by (simp add: example_notes_def example_note_def note_ok_def)
  with r n have "is_section LittleEndian Class64 example_elf ?h (NoteSection 64 example_notes)"
    by (simp add: is_section_def section_range_def example_notes_bytes h(1))
  then show ?thesis
    by (simp add: is_elf_def has_sections_def h s)
qed

lemma example_hex: "hex_encode [0xDE, 0xAD, 0xBE, 0xEF] = ''deadbeef''"
  by (simp add: hex_encode_simps hex_digit_def char_of_def bit_0)

lemma example_elf_spec: "elf_spec [NoteSection 64 example_notes] = Inr ''deadbeef''"
proof -
  have "notes_spec example_notes = Some (Inr (hex_encode [0xDE, 0xAD, 0xBE, 0xEF]))"
    by (simp add: example_notes_def example_note_def notes_spec_simps gnu_build_id_def)
  then show ?thesis
    unfolding example_hex by (simp add: elf_spec_def sec_notes_def)
qed


lemma example_build_id: "elfBuildID (\<lambda>_. Inr example_elf) file = Inr ''deadbeef''"
  using elfBuildID_spec [of "\<lambda>_. Inr example_elf" "file" example_elf, OF _ example_elf_ok]
  by (simp add: example_elf_spec)

theorem elfBuildID_hex_witness:
  "elfBuildID (\<lambda>_. Inr example_elf) ''/bin/app'' = Inr ''deadbeef'' \<and> set ''deadbeef'' \<subseteq> set ''0123456789abcdef''"
  using elfBuildID_hex [OF example_build_id [of "''/bin/app''"]] example_build_id by blast

end
