(* ===== verification/ProcMaps.thy ===== *)
theory ProcMaps
  imports ProfileBuilder ElfBuildID
begin

text \<open>
  The executable mappings of the process, read from \<^verbatim>\<open>/proc/self/maps\<close> (\<^verbatim>\<open>readMapping\<close>
  and \<^verbatim>\<open>parseProcSelfMaps\<close> in \<^verbatim>\<open>proto.go\<close>).

  A byte slice that the code compares with \<^verbatim>\<open>nil\<close> is an option of its contents.  The contents of
  the maps file are an argument, and the files of the mappings a \<^typ>\<open>filesystem\<close>.
\<close>

section \<open>Cutting and trimming\<close>

text \<open>\<^verbatim>\<open>bytes.Index\<close> and \<^verbatim>\<open>strings.Index\<close>\<close>

fun Index :: "string \<Rightarrow> string \<Rightarrow> nat option" where
  "Index sep [] = (if sep = [] then Some 0 else None)"
| "Index sep (c # s) = (if prefix sep (c # s) then Some 0 else map_option Suc (Index sep s))"

definition contents :: "string option \<Rightarrow> string" where
  "contents s = (case s of None \<Rightarrow> [] | Some b \<Rightarrow> b)"

definition bytesCut :: "string \<Rightarrow> string \<Rightarrow> string \<times> string option \<times> bool" where
  "bytesCut s sep =
     (case Index sep s of
        Some i \<Rightarrow> (take i s, Some (drop (i + length sep) s), True)
      | None \<Rightarrow> (s, None, False))"

definition stringsCut :: "string \<Rightarrow> string \<Rightarrow> string \<times> string \<times> bool" where
  "stringsCut s sep =
     (case Index sep s of
        Some i \<Rightarrow> (take i s, drop (i + length sep) s, True)
      | None \<Rightarrow> (s, [], False))"

text \<open>\<^verbatim>\<open>bytes.TrimLeft(line, " ")\<close> gives \<^verbatim>\<open>nil\<close> when nothing is left.\<close>

definition is_blank :: "char \<Rightarrow> bool" where
  "is_blank c \<longleftrightarrow> c = CHR '' ''"

definition TrimLeft :: "string option \<Rightarrow> string option" where
  "TrimLeft line = (case dropWhile is_blank (contents line) of [] \<Rightarrow> None | s \<Rightarrow> Some s)"

text \<open>\<^verbatim>\<open>strconv.ParseUint(s, 16, 64)\<close>\<close>

definition hex_digit_value :: "char \<Rightarrow> nat option" where
  "hex_digit_value c =
     (if 48 \<le> byte c \<and> byte c \<le> 57 then Some (byte c - 48)
      else if 97 \<le> byte c \<and> byte c \<le> 102 then Some (byte c - 87)
      else if 65 \<le> byte c \<and> byte c \<le> 70 then Some (byte c - 55)
      else None)"

fun ParseHex_loop :: "nat \<Rightarrow> string \<Rightarrow> num_error + nat" where
  "ParseHex_loop n [] = Inr n"
| "ParseHex_loop n (c # cs) =
     (case hex_digit_value c of
        None \<Rightarrow> Inl ErrSyntax
      | Some d \<Rightarrow> if 2 ^ 64 \<le> n * 16 + d then Inl ErrRange else ParseHex_loop (n * 16 + d) cs)"

definition ParseHex :: "string \<Rightarrow> num_error + u64" where
  "ParseHex s =
     (if s = [] then Inl ErrSyntax
      else case ParseHex_loop 0 s of Inl e \<Rightarrow> Inl e | Inr n \<Rightarrow> Inr (word_of_nat n))"

section \<open>The parser\<close>

text \<open>The closure \<^verbatim>\<open>next\<close> removes a field and the spaces after it from the line.\<close>

definition next_field :: "string option \<Rightarrow> string \<times> string option" where
  "next_field line = (case bytesCut (contents line) '' '' of (f, line, _) \<Rightarrow> (f, TrimLeft line))"

definition deletedStr :: string where
  "deletedStr = '' (deleted)''"

definition trim_deleted :: "string \<Rightarrow> string" where
  "trim_deleted file =
     (let deletedLen = length deletedStr in
      if deletedLen \<le> length file \<and> drop (length file - deletedLen) file = deletedStr
      then take (length file - deletedLen) file else file)"

text \<open>
  The body of the loop: what it hands to \<^verbatim>\<open>addMapping\<close>, unless it continues with the next line.
\<close>

definition parse_line :: "filesystem \<Rightarrow> string \<Rightarrow> (u64 \<times> u64 \<times> u64 \<times> string \<times> string) option" where
  "parse_line fs line0 =
     (let (addr, line) = next_field (Some line0);
          (loStr, hiStr, ok) = stringsCut addr ''-'' in
      if \<not> ok then None
      else case ParseHex loStr of Inl _ \<Rightarrow> None | Inr lo \<Rightarrow>
       (case ParseHex hiStr of Inl _ \<Rightarrow> None | Inr hi \<Rightarrow>
        (let (perm, line) = next_field line in
         if length perm < 4 \<or> perm ! 2 \<noteq> CHR ''x'' then None
         else let (offStr, line) = next_field line in
          (case ParseHex offStr of Inl _ \<Rightarrow> None | Inr offset \<Rightarrow>
           (let (_, line) = next_field line;
                (inode, line) = next_field line in
            case line of None \<Rightarrow> None | Some l \<Rightarrow>
             (let file = trim_deleted l in
              if length inode = 1 \<and> inode ! 0 = CHR ''0'' \<and> file = [] then None
              else let buildID = (case elfBuildID fs file of Inl _ \<Rightarrow> [] | Inr s \<Rightarrow> s) in
                   Some (lo, hi, offset, file, buildID)))))))"

definition newline :: string where
  "newline = [CHR 0x0A]"

lemma Index_bound: "Index sep s = Some i \<Longrightarrow> i + length sep \<le> length s"
  by (induction s arbitrary: i) (auto split: if_splits dest: prefix_length_le)

lemma cut_shorter:
  "data \<noteq> [] \<Longrightarrow> bytesCut data newline = (line, rest, b) \<Longrightarrow> length (contents rest) < length data"
  using Index_bound [of newline data]
  by (cases "Index newline data") (auto simp: bytesCut_def contents_def newline_def)

function parseProcSelfMaps ::
    "filesystem \<Rightarrow> string \<Rightarrow> (u64 \<Rightarrow> u64 \<Rightarrow> u64 \<Rightarrow> string \<Rightarrow> string \<Rightarrow> 's \<Rightarrow> 's) \<Rightarrow> 's \<Rightarrow> 's" where
  "parseProcSelfMaps fs data addMapping s =
     (if data = [] then s
      else case bytesCut data newline of
        (line, data, _) \<Rightarrow>
          parseProcSelfMaps fs (contents data) addMapping
            (case parse_line fs line of
               None \<Rightarrow> s
             | Some (lo, hi, offset, file, buildID) \<Rightarrow> addMapping lo hi offset file buildID s))"
  by pat_completeness auto
termination
  by (relation "measure (\<lambda>(fs, data, addMapping, s). length data)") (auto dest!: cut_shorter [OF _ sym])

declare parseProcSelfMaps.simps [simp del]

definition fake_mapping :: memMap where
  "fake_mapping = \<lparr>mm_start = 0, mm_end = 0, mm_offset = 0, mm_file = [], mm_buildID = [], mm_funcs = 0, mm_fake = True\<rparr>"

text \<open>A maps file that cannot be read gives no data.\<close>

definition readMapping :: "filesystem \<Rightarrow> string \<Rightarrow> memMap list" where
  "readMapping fs data =
     (let mem = parseProcSelfMaps fs data
        (\<lambda>lo hi offset file buildID mem. mem @ [\<lparr>mm_start = lo, mm_end = hi, mm_offset = offset,
           mm_file = file, mm_buildID = buildID, mm_funcs = 0, mm_fake = False\<rparr>]) [] in
      if mem = [] then [fake_mapping] else mem)"

section \<open>Lines\<close>

lemma Index_char: "c \<notin> set s \<Longrightarrow> Index [c] (s @ c # t) = Some (length s)" "c \<notin> set s \<Longrightarrow> Index [c] s = None"
  by (induction s) (auto simp: prefix_def)

lemma bytesCut_char: "c \<notin> set s \<Longrightarrow> bytesCut (s @ c # t) [c] = (s, Some t, True)"
    "c \<notin> set s \<Longrightarrow> bytesCut s [c] = (s, None, False)"
  by (simp_all add: bytesCut_def Index_char)

lemma stringsCut_char: "c \<notin> set s \<Longrightarrow> stringsCut (s @ c # t) [c] = (s, t, True)"
  by (simp add: stringsCut_def Index_char)

lemma contents_simps [simp]: "contents None = []" "contents (Some s) = s"
  by (simp_all add: contents_def)

definition add_line :: "filesystem \<Rightarrow> (u64 \<Rightarrow> u64 \<Rightarrow> u64 \<Rightarrow> string \<Rightarrow> string \<Rightarrow> 's \<Rightarrow> 's) \<Rightarrow> string \<Rightarrow> 's \<Rightarrow> 's" where
  "add_line fs add line s =
     (case parse_line fs line of
        None \<Rightarrow> s
      | Some (lo, hi, offset, file, buildID) \<Rightarrow> add lo hi offset file buildID s)"

lemma parse_Nil [simp]: "parseProcSelfMaps fs [] add s = s"
  by (simp add: parseProcSelfMaps.simps)

lemma parse_one:
  assumes "CHR 0x0A \<notin> set line"
  shows "parseProcSelfMaps fs (line @ CHR 0x0A # rest) add s = parseProcSelfMaps fs rest add (add_line fs add line s)"
  by (subst parseProcSelfMaps.simps) (simp add: bytesCut_char [OF assms] newline_def add_line_def)

text \<open>The parser is a fold over the lines: what one line holds, malformed or not, has no effect on the others.\<close>

lemma parse_lines:
  assumes "\<forall>l \<in> set ls. CHR 0x0A \<notin> set l"
  shows "parseProcSelfMaps fs (concat (map (\<lambda>l. l @ newline) ls)) add s = fold (add_line fs add) ls s"
  using assms by (induction ls arbitrary: s) (simp_all add: newline_def parse_one)

lemma readMapping_lines:
  assumes "\<forall>l \<in> set ls. CHR 0x0A \<notin> set l"
  shows "readMapping fs (concat (map (\<lambda>l. l @ newline) ls)) =
    (let ms = List.map_filter (\<lambda>l. map_option (\<lambda>(lo, hi, offset, file, buildID).
        \<lparr>mm_start = lo, mm_end = hi, mm_offset = offset, mm_file = file, mm_buildID = buildID, mm_funcs = 0, mm_fake = False\<rparr>)
        (parse_line fs l)) ls in
     if ms = [] then [fake_mapping] else ms)"
proof -
  have "fold (add_line fs (\<lambda>lo hi offset file buildID mem. mem @ [\<lparr>mm_start = lo, mm_end = hi, mm_offset = offset,
           mm_file = file, mm_buildID = buildID, mm_funcs = 0, mm_fake = False\<rparr>])) ls mem = mem @
      List.map_filter (\<lambda>l. map_option (\<lambda>(lo, hi, offset, file, buildID).
        \<lparr>mm_start = lo, mm_end = hi, mm_offset = offset, mm_file = file, mm_buildID = buildID, mm_funcs = 0, mm_fake = False\<rparr>)
        (parse_line fs l)) ls" for mem
    by (induction ls arbitrary: mem) (auto simp: add_line_def List.map_filter_def split: option.split)
  then show ?thesis
    by (simp add: readMapping_def parse_lines [OF assms])
qed

section \<open>Printing a maps file\<close>

text \<open>
  A line as the kernel prints it: addresses and offset in hexadecimal, padded with zeros, then
  permissions, device and inode, and, from column 73 on, the path, if there is one.
\<close>

record maps_entry =
  me_lo :: u64
  me_hi :: u64
  me_perm :: string
  me_offset :: u64
  me_dev :: string
  me_inode :: string
  me_path :: string

fun hex_num :: "nat \<Rightarrow> string" where
  "hex_num n = (if n < 16 then [hex_digit n] else hex_num (n div 16) @ [hex_digit (n mod 16)])"

declare hex_num.simps [simp del]

definition hex_word :: "u64 \<Rightarrow> string" where
  "hex_word w = (let s = hex_num (unat w) in replicate (8 - length s) CHR ''0'' @ s)"

definition print_head :: "maps_entry \<Rightarrow> string" where
  "print_head e = hex_word (me_lo e) @ ''-'' @ hex_word (me_hi e) @ '' '' @ me_perm e @ '' '' @ hex_word (me_offset e) @
     '' '' @ me_dev e @ '' '' @ me_inode e @ '' ''"

definition print_entry :: "maps_entry \<Rightarrow> string" where
  "print_entry e =
     (if me_path e = [] then print_head e
      else print_head e @ replicate (73 - length (print_head e)) CHR '' '' @ me_path e)"

definition print_maps :: "maps_entry list \<Rightarrow> string" where
  "print_maps es = concat (map (\<lambda>e. print_entry e @ newline) es)"

text \<open>A field is not empty and has no space and no line break; a path has no line break, which the kernel escapes.\<close>

definition entry_ok :: "maps_entry \<Rightarrow> bool" where
  "entry_ok e \<longleftrightarrow>
     length (me_perm e) = 4 \<and> me_dev e \<noteq> [] \<and> me_inode e \<noteq> [] \<and>
     (\<forall>c \<in> set (me_perm e @ me_dev e @ me_inode e). c \<noteq> CHR '' '' \<and> c \<noteq> CHR 0x0A) \<and>
     CHR 0x0A \<notin> set (me_path e) \<and> (me_path e \<noteq> [] \<longrightarrow> hd (me_path e) \<noteq> CHR '' '')"

definition reported :: "maps_entry \<Rightarrow> bool" where
  "reported e \<longleftrightarrow> me_perm e ! 2 = CHR ''x'' \<and> me_path e \<noteq> []"

definition mapping_of :: "filesystem \<Rightarrow> maps_entry \<Rightarrow> memMap" where
  "mapping_of fs e =
     \<lparr>mm_start = me_lo e, mm_end = me_hi e, mm_offset = me_offset e, mm_file = trim_deleted (me_path e),
      mm_buildID = (case elfBuildID fs (trim_deleted (me_path e)) of Inl _ \<Rightarrow> [] | Inr s \<Rightarrow> s),
      mm_funcs = 0, mm_fake = False\<rparr>"

lemma hex_digit_value_digit: "d < 16 \<Longrightarrow> hex_digit_value (hex_digit d) = Some d"
  by (auto simp: hex_digit_value_def hex_digit_def)

lemma ParseHex_loop_append:
  "ParseHex_loop n (xs @ ys) = (case ParseHex_loop n xs of Inl e \<Rightarrow> Inl e | Inr m \<Rightarrow> ParseHex_loop m ys)"
  by (induction n xs rule: ParseHex_loop.induct) (simp_all split: option.split)

lemma ParseHex_loop_num: "n < 2 ^ 64 \<Longrightarrow> ParseHex_loop 0 (hex_num n) = Inr n"
proof (induction n rule: hex_num.induct)
  case (1 n)
  show ?case
  proof (cases "n < 16")
    case True
    then show ?thesis
      by (subst hex_num.simps) (simp add: hex_digit_value_digit)
  next
    case False
    then have "ParseHex_loop 0 (hex_num (n div 16)) = Inr (n div 16)"
      using 1 by simp
    moreover have "n mod 16 < 16"
      by simp
    ultimately show ?thesis
      using False 1(2) by (subst hex_num.simps) (simp add: ParseHex_loop_append hex_digit_value_digit)
  qed
qed

lemma ParseHex_zeros: "ParseHex_loop 0 (replicate k CHR ''0'' @ s) = ParseHex_loop 0 s"
proof (induction k)
  case (Suc k)
  have "hex_digit_value CHR ''0'' = Some 0"
    by (simp add: hex_digit_value_def byte_def)
  with Suc show ?case
    by simp
qed simp

lemma hex_num_nonempty: "hex_num n \<noteq> []"
  by (subst hex_num.simps) simp

lemma ParseHex_word: "ParseHex (hex_word w) = Inr w"
  using ParseHex_loop_num [of "unat w"] unat_u64_less [of w]
  by (simp add: ParseHex_def hex_word_def Let_def ParseHex_zeros hex_num_nonempty)

lemma hex_num_chars: "set (hex_num n) \<subseteq> hex_digit ` {0..<16}"
proof (induction n rule: hex_num.induct)
  case (1 n)
  have "n mod 16 < 16"
    by simp
  with 1 show ?case
    by (subst hex_num.simps) auto
qed

lemma hex_word_chars: "c \<in> set (hex_word w) \<Longrightarrow> c \<noteq> CHR '' '' \<and> c \<noteq> CHR ''-'' \<and> c \<noteq> CHR 0x0A"
proof -
  assume "c \<in> set (hex_word w)"
  then consider "c = CHR ''0''" | d where "d < 16" "c = hex_digit d"
    using hex_num_chars [of "unat w"] by (auto simp: hex_word_def Let_def)
  then have "48 \<le> byte c"
    by cases (auto simp: byte_def hex_digit_def)
  then show ?thesis
    by (auto simp: byte_def)
qed

definition plain :: "string \<Rightarrow> bool" where
  "plain f \<longleftrightarrow> f \<noteq> [] \<and> CHR '' '' \<notin> set f"

lemma TrimLeft_plain: "plain f \<Longrightarrow> TrimLeft (Some (f @ r)) = Some (f @ r)"
  by (cases f) (auto simp: TrimLeft_def plain_def is_blank_def)

lemma next_field_plain:
  "plain f \<Longrightarrow> next_field (Some (f @ CHR '' '' # t)) = (f, TrimLeft (Some t))"
  by (simp add: next_field_def bytesCut_char plain_def)

lemma TrimLeft_spaces:
  assumes "path \<noteq> [] \<longrightarrow> hd path \<noteq> CHR '' ''"
  shows "TrimLeft (Some (replicate k CHR '' '' @ path)) = (if path = [] then None else Some path)"
proof -
  have "dropWhile is_blank (replicate k CHR '' '' @ path) = path"
    using assms by (induction k) (cases path; simp add: is_blank_def)+
  then show ?thesis
    by (simp add: TrimLeft_def split: list.split)
qed

lemma trim_deleted_nonempty:
  assumes "path \<noteq> []" and "hd path \<noteq> CHR '' ''"
  shows "trim_deleted path \<noteq> []"
proof
  assume e: "trim_deleted path = []"
  with assms(1) have d: "drop (length path - length deletedStr) path = deletedStr" "length path \<le> length deletedStr"
    by (auto simp: trim_deleted_def Let_def split: if_splits)
  then have "path = deletedStr"
    by simp
  with assms(2) show False
    by (simp add: deletedStr_def)
qed

lemma print_entry_split:
  obtains k where "print_entry e = (hex_word (me_lo e) @ CHR ''-'' # hex_word (me_hi e)) @ CHR '' '' # me_perm e @ CHR '' '' #
     hex_word (me_offset e) @ CHR '' '' # me_dev e @ CHR '' '' # me_inode e @ CHR '' '' # replicate k CHR '' '' @ me_path e"
proof (cases "me_path e = []")
  case True
  then show ?thesis
    by (intro that [of 0]) (simp add: print_entry_def print_head_def)
next
  case False
  then show ?thesis
    by (intro that [of "73 - length (print_head e)"]) (simp add: print_entry_def print_head_def)
qed

lemma plain_hex: "plain (hex_word w)"
  using hex_word_chars [of "CHR '' ''" w] by (auto simp: plain_def hex_word_def Let_def hex_num_nonempty)

lemma parse_line_print:
  assumes "entry_ok e"
  shows "parse_line fs (print_entry e) =
    (if reported e
     then Some (me_lo e, me_hi e, me_offset e, trim_deleted (me_path e),
       case elfBuildID fs (trim_deleted (me_path e)) of Inl _ \<Rightarrow> [] | Inr s \<Rightarrow> s)
     else None)"
proof -
  obtain k where p: "print_entry e = (hex_word (me_lo e) @ CHR ''-'' # hex_word (me_hi e)) @ CHR '' '' # me_perm e @ CHR '' '' #
     hex_word (me_offset e) @ CHR '' '' # me_dev e @ CHR '' '' # me_inode e @ CHR '' '' # replicate k CHR '' '' @ me_path e"
    by (rule print_entry_split)
  have f: "plain (me_perm e)" "plain (me_dev e)" "plain (me_inode e)"
  proof -
    have sp: "CHR '' '' \<notin> set (me_perm e @ me_dev e @ me_inode e)"
      using assms unfolding entry_ok_def by blast
    have "length (me_perm e) = 4" "me_dev e \<noteq> []" "me_inode e \<noteq> []"
      using assms by (simp_all add: entry_ok_def)
    moreover from this(1) have "me_perm e \<noteq> []"
      by auto
    ultimately show "plain (me_perm e)" "plain (me_dev e)" "plain (me_inode e)"
      using sp by (simp_all add: plain_def)
  qed
  have a: "plain (hex_word (me_lo e) @ CHR ''-'' # hex_word (me_hi e))"
    using plain_hex by (simp add: plain_def)
  have c: "stringsCut (hex_word (me_lo e) @ CHR ''-'' # hex_word (me_hi e)) ''-'' = (hex_word (me_lo e), hex_word (me_hi e), True)"
    using hex_word_chars [of "CHR ''-''"] by (intro stringsCut_char) blast
  let ?l4 = "me_inode e @ CHR '' '' # replicate k CHR '' '' @ me_path e"
  let ?l3 = "me_dev e @ CHR '' '' # ?l4"
  let ?l2 = "hex_word (me_offset e) @ CHR '' '' # ?l3"
  let ?l1 = "me_perm e @ CHR '' '' # ?l2"
  have n: "next_field (Some (print_entry e)) = (hex_word (me_lo e) @ CHR ''-'' # hex_word (me_hi e), Some ?l1)"
    unfolding p next_field_plain [OF a] TrimLeft_plain [OF f(1)] ..
  have n1: "next_field (Some ?l1) = (me_perm e, Some ?l2)"
    unfolding next_field_plain [OF f(1)] TrimLeft_plain [OF plain_hex] ..
  have n2: "next_field (Some ?l2) = (hex_word (me_offset e), Some ?l3)"
    unfolding next_field_plain [OF plain_hex] TrimLeft_plain [OF f(2)] ..
  have n3: "next_field (Some ?l3) = (me_dev e, Some ?l4)"
    unfolding next_field_plain [OF f(2)] TrimLeft_plain [OF f(3)] ..
  have path: "me_path e \<noteq> [] \<longrightarrow> hd (me_path e) \<noteq> CHR '' ''" "length (me_perm e) = 4"
    using assms by (simp_all add: entry_ok_def)
  have n4: "next_field (Some ?l4) = (me_inode e, if me_path e = [] then None else Some (me_path e))"
    unfolding next_field_plain [OF f(3)] TrimLeft_spaces [OF path(1)] ..
  have ne: "me_path e \<noteq> [] \<Longrightarrow> trim_deleted (me_path e) \<noteq> []"
    using path trim_deleted_nonempty by blast
  show ?thesis
    unfolding parse_line_def n Let_def prod.case c ParseHex_word sum.case n1 n2 n3 n4
    using path(2) ne by (simp add: reported_def)
qed

lemma print_entry_no_newline:
  assumes "entry_ok e"
  shows "CHR 0x0A \<notin> set (print_entry e)"
  using assms hex_word_chars [of "CHR 0x0A"]
  by (auto simp: print_entry_def print_head_def entry_ok_def)

section \<open>Properties\<close>

text \<open>
  C21. Reading the maps file that the kernel prints gives the executable mappings that have a path,
  in their order, with their addresses and offset, the path without the mark of a deleted file, and the build id of
  that file if it has one; without any such mapping, the fake one.
\<close>

theorem readMapping_print:
  assumes "\<forall>e \<in> set es. entry_ok e"
  shows "readMapping fs (print_maps es) =
    (if \<exists>e \<in> set es. reported e then map (mapping_of fs) (filter reported es) else [fake_mapping])"
proof -
  have "List.map_filter (\<lambda>l. map_option (\<lambda>(lo, hi, offset, file, buildID).
      \<lparr>mm_start = lo, mm_end = hi, mm_offset = offset, mm_file = file, mm_buildID = buildID, mm_funcs = 0, mm_fake = False\<rparr>)
      (parse_line fs l)) (map print_entry es) = map (mapping_of fs) (filter reported es)"
    using assms by (induction es) (auto simp: List.map_filter_def parse_line_print mapping_of_def)
  moreover have "readMapping fs (print_maps es) = readMapping fs (concat (map (\<lambda>l. l @ newline) (map print_entry es)))"
    by (simp add: print_maps_def comp_def)
  ultimately show ?thesis
    using readMapping_lines [of "map print_entry es" fs] assms print_entry_no_newline
    by (auto simp: filter_empty_conv)
qed

definition mapping_type :: "memMap \<Rightarrow> bool" where
  "mapping_type m \<longleftrightarrow>
     \<not> mm_fake m \<and> mm_file m \<noteq> [] \<and> mm_funcs m = 0 \<and> even (length (mm_buildID m)) \<and> length (mm_buildID m) \<le> 512 \<and>
     set (mm_buildID m) \<subseteq> set ''0123456789abcdef''"

lemma TrimLeft_Some: "TrimLeft l = Some s \<Longrightarrow> s \<noteq> [] \<and> hd s \<noteq> CHR '' ''"
proof -
  assume t: "TrimLeft l = Some s"
  have "(case xs of [] \<Rightarrow> None | x # ys \<Rightarrow> Some (x # ys)) = Some s \<Longrightarrow> xs = s \<and> s \<noteq> []" for xs
    by (cases xs) auto
  then have d: "dropWhile is_blank (contents l) = s" "s \<noteq> []"
    using t unfolding TrimLeft_def by blast+
  then have "\<not> is_blank (hd s)"
    using hd_dropWhile [of is_blank "contents l"] by simp
  with d(2) show ?thesis
    by (simp add: is_blank_def)
qed

lemma next_field_line: "next_field l = (f, Some s) \<Longrightarrow> s \<noteq> [] \<and> hd s \<noteq> CHR '' ''"
  by (auto simp: next_field_def TrimLeft_Some split: prod.splits)

text \<open>The line that is left after the inode is not empty, so the path is not, and the test for an empty one never holds.\<close>

lemma parse_line_result:
  assumes "parse_line fs l = Some (lo, hi, offset, file, buildID)"
  shows "file \<noteq> []" and "buildID = (case elfBuildID fs file of Inl _ \<Rightarrow> [] | Inr s \<Rightarrow> s)"
proof -
  obtain a l1 where 1: "next_field (Some l) = (a, l1)" by force
  obtain x y ok where 2: "stringsCut a ''-'' = (x, y, ok)" by (cases "stringsCut a ''-''") auto
  obtain p l2 where 3: "next_field l1 = (p, l2)" by force
  obtain q l3 where 4: "next_field l2 = (q, l3)" by force
  obtain d l4 where 5: "next_field l3 = (d, l4)" by force
  obtain i l5 where 6: "next_field l4 = (i, l5)" by force
  have "\<exists>s. l5 = Some s \<and> file = trim_deleted s \<and> buildID = (case elfBuildID fs file of Inl _ \<Rightarrow> [] | Inr s \<Rightarrow> s)"
    using assms unfolding parse_line_def 1 2 3 4 5 6 Let_def prod.case
    by (cases "ParseHex x"; cases "ParseHex y"; cases "ParseHex q"; cases l5) (simp_all split: if_splits, blast?)
  then obtain s where "next_field l4 = (i, Some s)" "file = trim_deleted s"
    and b: "buildID = (case elfBuildID fs file of Inl _ \<Rightarrow> [] | Inr s \<Rightarrow> s)"
    using 6 by blast
  then show "file \<noteq> []"
    using next_field_line [of l4 i s] trim_deleted_nonempty [of s] by simp
  show "buildID = (case elfBuildID fs file of Inl _ \<Rightarrow> [] | Inr s \<Rightarrow> s)"
    by (rule b)
qed

lemma parse_result_type:
  assumes "parse_line fs l = Some (lo, hi, offset, file, buildID)"
  shows "mapping_type \<lparr>mm_start = lo, mm_end = hi, mm_offset = offset, mm_file = file, mm_buildID = buildID, mm_funcs = 0, mm_fake = False\<rparr>"
proof (cases "elfBuildID fs file")
  case (Inl e)
  then show ?thesis
    using parse_line_result [OF assms] by (simp add: mapping_type_def)
next
  case (Inr s)
  obtain f i n where n: "n \<le> 256" "s = hex_encode (take n (drop i f))" "length s = 2 * n"
    using elfBuildID_file_part [OF Inr] by blast
  then have "even (length s)" "length s \<le> 512"
    by simp_all
  with n(2) show ?thesis
    using parse_line_result [OF assms] hex_encode_digits Inr by (simp add: mapping_type_def del: list.set)
qed

lemma parse_types:
  "list_all mapping_type mem \<Longrightarrow>
     list_all mapping_type (parseProcSelfMaps fs data
        (\<lambda>lo hi offset file buildID mem. mem @ [\<lparr>mm_start = lo, mm_end = hi, mm_offset = offset,
           mm_file = file, mm_buildID = buildID, mm_funcs = 0, mm_fake = False\<rparr>]) mem)"
proof (induction "length data" arbitrary: data mem rule: less_induct)
  case less
  show ?case
  proof (cases "data = []")
    case False
    obtain line rest b where c: "bytesCut data newline = (line, rest, b)"
      by (cases "bytesCut data newline") auto
    let ?add = "\<lambda>lo hi offset file buildID mem. mem @ [\<lparr>mm_start = lo, mm_end = hi, mm_offset = offset,
           mm_file = file, mm_buildID = buildID, mm_funcs = 0, mm_fake = False\<rparr>]"
    have "parseProcSelfMaps fs data ?add mem = parseProcSelfMaps fs (contents rest) ?add (add_line fs ?add line mem)"
      using False by (subst parseProcSelfMaps.simps) (simp add: c add_line_def)
    moreover have "list_all mapping_type (add_line fs ?add line mem)"
      using less.prems parse_result_type [of fs line] by (auto simp: add_line_def split: option.split)
    ultimately show ?thesis
      using less.hyps [OF cut_shorter [OF False c]] by simp
  qed (simp add: less.prems)
qed

text \<open>
  C39. Whatever the maps file contains, the mappings are not empty, and either they are the fake one
  alone, or none is fake and every one has a path and a build id that is empty or hexadecimal, with two digits for
  each of at most 256 bytes.
\<close>

theorem readMapping_type:
  "readMapping fs data \<noteq> [] \<and> (readMapping fs data = [fake_mapping] \<or> list_all mapping_type (readMapping fs data))"
  using parse_types [of "[]" fs data] by (simp add: readMapping_def Let_def)

text \<open>
  The parser works line by line: the mappings of two pieces of a maps file are those of the first
  followed by those of the second, so a malformed line has no effect on the lines around it.
\<close>

theorem parseProcSelfMaps_append:
  assumes "d1 = [] \<or> last d1 = CHR 0x0A"
  shows "parseProcSelfMaps fs (d1 @ d2) add s = parseProcSelfMaps fs d2 add (parseProcSelfMaps fs d1 add s)"
  using assms
proof (induction "length d1" arbitrary: d1 s rule: less_induct)
  case less
  show ?case
  proof (cases "d1 = []")
    case False
    then have "CHR 0x0A \<in> set d1"
      using less.prems last_in_set by metis
    then obtain line rest where d: "d1 = line @ CHR 0x0A # rest" "CHR 0x0A \<notin> set line"
      by (metis split_list_first)
    have "rest = [] \<or> last rest = CHR 0x0A"
      using less.prems by (auto simp: d(1) split: if_splits)
    then have "parseProcSelfMaps fs (rest @ d2) add t = parseProcSelfMaps fs d2 add (parseProcSelfMaps fs rest add t)" for t
      using less.hyps [of rest t] by (simp add: d(1))
    then show ?thesis
      by (simp add: d(1) parse_one [OF d(2)])
  qed simp
qed

definition example_entries :: "maps_entry list" where
  "example_entries =
     [\<lparr>me_lo = 0x400000, me_hi = 0x40b000, me_perm = ''r--p'', me_offset = 0, me_dev = ''fc:01'', me_inode = ''787766'',
       me_path = ''/bin/cat''\<rparr>,
      \<lparr>me_lo = 0x40b000, me_hi = 0x412000, me_perm = ''r-xp'', me_offset = 0xb000, me_dev = ''fc:01'', me_inode = ''787766'',
       me_path = ''/bin/cat (deleted)''\<rparr>,
      \<lparr>me_lo = 0x412000, me_hi = 0x413000, me_perm = ''r-xp'', me_offset = 0, me_dev = ''00:00'', me_inode = ''0'',
       me_path = []\<rparr>]"

lemma example_entries_ok: "\<forall>e \<in> set example_entries. entry_ok e"
  by (simp add: example_entries_def entry_ok_def)

lemma example_reported: "filter reported example_entries = [example_entries ! 1]"
  by (simp add: example_entries_def reported_def)

lemma example_trimmed: "trim_deleted ''/bin/cat (deleted)'' = ''/bin/cat''"
  by (simp add: trim_deleted_def deletedStr_def)

theorem readMapping_print_witness:
  "readMapping (\<lambda>_. Inr example_elf) (print_maps example_entries) =
     [\<lparr>mm_start = 0x40b000, mm_end = 0x412000, mm_offset = 0xb000, mm_file = ''/bin/cat'', mm_buildID = ''deadbeef'',
       mm_funcs = 0, mm_fake = False\<rparr>]"
proof -
  have "\<exists>e \<in> set example_entries. reported e"
    using example_reported by (metis filter_empty_conv list.distinct(1))
  then show ?thesis
    unfolding readMapping_print [OF example_entries_ok] example_reported
    by (simp add: mapping_of_def example_entries_def example_trimmed example_build_id)
qed

theorem parseProcSelfMaps_append_witness:
  "parseProcSelfMaps (\<lambda>_. Inl ''ENOENT'') (newline @ newline) (\<lambda>lo hi offset file buildID n. Suc n) 0 = 0"
proof -
  have "parseProcSelfMaps (\<lambda>_. Inl ''ENOENT'') newline (\<lambda>lo hi offset file buildID n. Suc n) n = n" for n
    using parse_one [of "[]" "\<lambda>_. Inl ''ENOENT''" "[]"]
    by (simp add: newline_def add_line_def parse_line_def next_field_def bytesCut_def stringsCut_def TrimLeft_def contents_def)
  then show ?thesis
    using parseProcSelfMaps_append [of newline "\<lambda>_. Inl ''ENOENT''" newline "\<lambda>lo hi offset file buildID n. Suc n" 0]
    by (simp add: newline_def)
qed

end
