(* ===== verification/DeltaHandlers.thy ===== *)
theory DeltaHandlers
  imports GoDeltaProf CpuSwitch
begin

text \<open>
  The HTTP handlers of the delta profilers (\<^verbatim>\<open>godeltaprof/http/pprof\<close>).

  The package keeps one profiler for each of its three routes.  What the runtime reports when a handler asks, with
  or without a collection before, is part of the request here; the gzip writer is a function on the bytes.
\<close>

section \<open>The handlers\<close>








section \<open>Routes\<close>








section \<open>The profilers do not interfere\<close>
















section \<open>Properties\<close>






end
