(* ===== verification/Lifecycle.thy ===== *)
theory Lifecycle
  imports CpuSwitch
begin

text \<open>
  The life of a session (\<^verbatim>\<open>Start\<close>, \<^verbatim>\<open>Stop\<close> and \<^verbatim>\<open>flush\<close> in
  \<^verbatim>\<open>session.go\<close>, \<^verbatim>\<open>Start\<close> and \<^verbatim>\<open>Stop\<close> in \<^verbatim>\<open>collector.go\<close>): the
  goroutines of a session, its callers, and what they wait for.

  A started session has the goroutine of \<^verbatim>\<open>takeSnapshots\<close> and, when CPU profiling is enabled, that of the
  CPU collector.  A call of \<^verbatim>\<open>Stop\<close> or \<^verbatim>\<open>flush\<close> is a caller, added to a list, which keeps
  where the call is.  A channel without a buffer is a step of both sides; a closed channel and a wait group are parts
  of the state; \<^verbatim>\<open>sync.Once\<close> keeps the caller that runs the function, and lets the others wait for it.  What
  the snapshots contain is the matter of the theory of sessions; here a reset is only counted.  No foreground CPU
  profile is in progress, so \<^verbatim>\<open>SetCollector\<close> does not wait.
\<close>

section \<open>Definitions\<close>

text \<open>Where \<^verbatim>\<open>takeSnapshots\<close> is: in its select, in the two waits of a flush, in the stop of the collector, or done.\<close>

datatype snapshots = InSelect | FlushCpu nat | FlushUpstream nat | StopSwitch | StopWait | SnapReturned | SnapDone

text \<open>Where the goroutine of the collector is; \<open>CpuClosed\<close> is after \<^verbatim>\<open>close(c.done)\<close>.\<close>

datatype collector_go = NoCpu | CpuNew | CpuLoop | CpuClosed | CpuDone

datatype once = OnceNew | OnceBusy nat | OnceDone

datatype caller =
  StopEnter | StopWaitWG | StopWaitOnce | StopReturned | FlushSend bool | FlushWait | FlushReturned

record life =
  lf_snap :: snapshots
  lf_cpu :: collector_go
  lf_halt :: bool
  lf_stopCh :: bool
  lf_once :: once
  lf_wg :: nat
  lf_switch :: "Collector switch"
  lf_callers :: "caller list"
  lf_flushed :: "nat list"
  lf_resets :: nat

text \<open>\<^verbatim>\<open>Start\<close>: the first reset, and a wait group that counts the goroutines.\<close>

definition life_start :: "bool \<Rightarrow> life" where
  "life_start cpu_enabled =
     \<lparr>lf_snap = InSelect, lf_cpu = (if cpu_enabled then CpuNew else NoCpu), lf_halt = False, lf_stopCh = False,
      lf_once = OnceNew, lf_wg = (if cpu_enabled then 2 else 1), lf_switch = switch_init, lf_callers = [],
      lf_flushed = [], lf_resets = 1\<rparr>"

definition set_caller :: "nat \<Rightarrow> caller \<Rightarrow> life \<Rightarrow> life" where
  "set_caller i c s = s\<lparr>lf_callers := (lf_callers s)[i := c]\<rparr>"

definition caller_at :: "nat \<Rightarrow> life \<Rightarrow> caller option" where
  "caller_at i s = (if i < length (lf_callers s) then Some (lf_callers s ! i) else None)"

text \<open>\<^verbatim>\<open>Stop\<close>: the first caller closes the channel and waits for the goroutines, the others wait for it.\<close>

definition stop_call :: "life \<Rightarrow> life" where
  "stop_call s = s\<lparr>lf_callers := lf_callers s @ [StopEnter]\<rparr>"

definition stop_enter :: "nat \<Rightarrow> life \<Rightarrow> life option" where
  "stop_enter i s =
     (if caller_at i s = Some StopEnter then
        (case lf_once s of
           OnceNew \<Rightarrow> if lf_stopCh s then None
                      else Some (set_caller i StopWaitWG (s\<lparr>lf_once := OnceBusy i, lf_stopCh := True\<rparr>))
         | OnceBusy _ \<Rightarrow> Some (set_caller i StopWaitOnce s)
         | OnceDone \<Rightarrow> Some (set_caller i StopReturned s))
      else None)"

definition stop_wg :: "nat \<Rightarrow> life \<Rightarrow> life option" where
  "stop_wg i s =
     (if caller_at i s = Some StopWaitWG \<and> lf_wg s = 0
      then Some (set_caller i StopReturned (s\<lparr>lf_once := OnceDone\<rparr>)) else None)"

definition stop_once :: "nat \<Rightarrow> life \<Rightarrow> life option" where
  "stop_once i s =
     (if caller_at i s = Some StopWaitOnce \<and> lf_once s = OnceDone then Some (set_caller i StopReturned s) else None)"

text \<open>\<^verbatim>\<open>flush\<close>: the send on the channel meets the select of \<^verbatim>\<open>takeSnapshots\<close>.\<close>

definition flush_call :: "bool \<Rightarrow> life \<Rightarrow> life" where
  "flush_call wait s = s\<lparr>lf_callers := lf_callers s @ [FlushSend wait]\<rparr>"

definition flush_send :: "nat \<Rightarrow> life \<Rightarrow> life option" where
  "flush_send i s =
     (case caller_at i s of
        Some (FlushSend wait) \<Rightarrow>
          if lf_snap s = InSelect
          then Some (set_caller i (if wait then FlushWait else FlushReturned)
                 (s\<lparr>lf_snap := FlushCpu i, lf_resets := lf_resets s + 1\<rparr>))
          else None
      | _ \<Rightarrow> None)"

definition flush_return :: "nat \<Rightarrow> life \<Rightarrow> life option" where
  "flush_return i s =
     (if caller_at i s = Some FlushWait \<and> i \<in> set (lf_flushed s) then Some (set_caller i FlushReturned s) else None)"

text \<open>The goroutine of \<^verbatim>\<open>takeSnapshots\<close>\<close>

definition snap_tick :: "life \<Rightarrow> life option" where
  "snap_tick s = (if lf_snap s = InSelect then Some (s\<lparr>lf_resets := lf_resets s + 1\<rparr>) else None)"

text \<open>The event of \<^verbatim>\<open>ps.cpu.Flush()\<close> is received by the loop of the collector only.\<close>

definition snap_flush_cpu :: "life \<Rightarrow> life option" where
  "snap_flush_cpu s =
     (case lf_snap s of
        FlushCpu i \<Rightarrow> if lf_cpu s = CpuLoop then Some (s\<lparr>lf_snap := FlushUpstream i\<rparr>) else None
      | _ \<Rightarrow> None)"

definition snap_flush_done :: "life \<Rightarrow> life option" where
  "snap_flush_done s =
     (case lf_snap s of
        FlushUpstream i \<Rightarrow> Some (s\<lparr>lf_snap := InSelect, lf_flushed := i # lf_flushed s\<rparr>)
      | _ \<Rightarrow> None)"

definition snap_stop :: "life \<Rightarrow> life option" where
  "snap_stop s =
     (if lf_snap s = InSelect \<and> lf_stopCh s
      then Some (s\<lparr>lf_snap := (if lf_cpu s \<noteq> NoCpu then StopSwitch else SnapReturned)\<rparr>) else None)"

text \<open>\<^verbatim>\<open>ps.cpu.Stop()\<close>: the collector of the switch, then the channel, then the wait.\<close>

definition snap_halt :: "life \<Rightarrow> life option" where
  "snap_halt s =
     (if lf_snap s = StopSwitch then
        (case SetCollector (Some defaultCollector) (lf_switch s) of
           (sw, True) \<Rightarrow> Some (s\<lparr>lf_switch := sw, lf_halt := True, lf_snap := StopWait\<rparr>)
         | (sw, False) \<Rightarrow> None)
      else None)"

definition snap_wait :: "life \<Rightarrow> life option" where
  "snap_wait s =
     (if lf_snap s = StopWait \<and> (lf_cpu s = CpuClosed \<or> lf_cpu s = CpuDone) then Some (s\<lparr>lf_snap := SnapReturned\<rparr>) else None)"

definition snap_done :: "life \<Rightarrow> life option" where
  "snap_done s = (if lf_snap s = SnapReturned then Some (s\<lparr>lf_snap := SnapDone, lf_wg := lf_wg s - 1\<rparr>) else None)"

text \<open>The goroutine of the collector\<close>

definition cpu_begin :: "life \<Rightarrow> life option" where
  "cpu_begin s =
     (if lf_cpu s = CpuNew then
        (case SetCollector (Some backgroundCollector) (lf_switch s) of
           (sw, True) \<Rightarrow> Some (s\<lparr>lf_switch := sw, lf_cpu := CpuLoop\<rparr>)
         | (sw, False) \<Rightarrow> None)
      else None)"

definition cpu_halt :: "life \<Rightarrow> life option" where
  "cpu_halt s = (if lf_cpu s = CpuLoop \<and> lf_halt s then Some (s\<lparr>lf_cpu := CpuClosed\<rparr>) else None)"

definition cpu_done :: "life \<Rightarrow> life option" where
  "cpu_done s = (if lf_cpu s = CpuClosed then Some (s\<lparr>lf_cpu := CpuDone, lf_wg := lf_wg s - 1\<rparr>) else None)"

text \<open>The steps of the goroutines towards their end, and all steps.\<close>

inductive go_step :: "life \<Rightarrow> life \<Rightarrow> bool" where
  flush_cpu: "snap_flush_cpu s = Some s' \<Longrightarrow> go_step s s'"
| flush_done: "snap_flush_done s = Some s' \<Longrightarrow> go_step s s'"
| stop: "snap_stop s = Some s' \<Longrightarrow> go_step s s'"
| halt: "snap_halt s = Some s' \<Longrightarrow> go_step s s'"
| wait: "snap_wait s = Some s' \<Longrightarrow> go_step s s'"
| finish: "snap_done s = Some s' \<Longrightarrow> go_step s s'"
| begin_cpu: "cpu_begin s = Some s' \<Longrightarrow> go_step s s'"
| halt_cpu: "cpu_halt s = Some s' \<Longrightarrow> go_step s s'"
| finish_cpu: "cpu_done s = Some s' \<Longrightarrow> go_step s s'"

inductive life_step :: "life \<Rightarrow> life \<Rightarrow> bool" where
  go: "go_step s s' \<Longrightarrow> life_step s s'"
| tick: "snap_tick s = Some s' \<Longrightarrow> life_step s s'"
| stop_call: "life_step s (stop_call s)"
| stop_enter: "stop_enter i s = Some s' \<Longrightarrow> life_step s s'"
| stop_wg: "stop_wg i s = Some s' \<Longrightarrow> life_step s s'"
| stop_once: "stop_once i s = Some s' \<Longrightarrow> life_step s s'"
| flush_call: "life_step s (flush_call w s)"
| flush_send: "flush_send i s = Some s' \<Longrightarrow> life_step s s'"
| flush_return: "flush_return i s = Some s' \<Longrightarrow> life_step s s'"

definition reachable :: "bool \<Rightarrow> life \<Rightarrow> bool" where
  "reachable cpu_enabled s \<longleftrightarrow> life_step\<^sup>*\<^sup>* (life_start cpu_enabled) s"

section \<open>The invariant\<close>

definition cpu_live :: "collector_go \<Rightarrow> bool" where
  "cpu_live c \<longleftrightarrow> c = CpuNew \<or> c = CpuLoop \<or> c = CpuClosed"

definition cpu_over :: "collector_go \<Rightarrow> bool" where
  "cpu_over c \<longleftrightarrow> c = CpuClosed \<or> c = CpuDone"

definition stopping :: "snapshots \<Rightarrow> bool" where
  "stopping p \<longleftrightarrow> p = StopSwitch \<or> p = StopWait \<or> p = SnapReturned \<or> p = SnapDone"

definition goroutines_inv :: "bool \<Rightarrow> life \<Rightarrow> bool" where
  "goroutines_inv e s \<longleftrightarrow>
     lf_wg s = (if lf_snap s = SnapDone then 0 else 1) + (if cpu_live (lf_cpu s) then 1 else 0) \<and>
     (lf_cpu s = NoCpu \<longleftrightarrow> \<not> e) \<and> (stopping (lf_snap s) \<longrightarrow> lf_stopCh s) \<and>
     (lf_halt s \<longleftrightarrow> e \<and> (lf_snap s = StopWait \<or> lf_snap s = SnapReturned \<or> lf_snap s = SnapDone)) \<and>
     (cpu_over (lf_cpu s) \<longrightarrow> lf_halt s) \<and>
     (e \<and> (lf_snap s = SnapReturned \<or> lf_snap s = SnapDone) \<longrightarrow> cpu_over (lf_cpu s)) \<and>
     (\<not> e \<longrightarrow> lf_snap s \<noteq> StopSwitch \<and> lf_snap s \<noteq> StopWait) \<and>
     ref (lf_switch s) = 0"

definition callers_inv :: "life \<Rightarrow> bool" where
  "callers_inv s \<longleftrightarrow>
     (lf_stopCh s \<longleftrightarrow> lf_once s \<noteq> OnceNew) \<and> (lf_once s = OnceDone \<longrightarrow> lf_wg s = 0) \<and>
     (\<forall>i. lf_once s = OnceBusy i \<longleftrightarrow> caller_at i s = Some StopWaitWG) \<and>
     (StopReturned \<in> set (lf_callers s) \<longrightarrow> lf_once s = OnceDone) \<and>
     (StopWaitOnce \<in> set (lf_callers s) \<longrightarrow> lf_once s \<noteq> OnceNew)"

definition life_inv :: "bool \<Rightarrow> life \<Rightarrow> bool" where
  "life_inv e s \<longleftrightarrow> goroutines_inv e s \<and> callers_inv s"

lemma caller_at_simps:
  "caller_at j (set_caller i c s) = (if i = j \<and> i < length (lf_callers s) then Some c else caller_at j s)"
  "caller_at j (s\<lparr>lf_snap := a\<rparr>) = caller_at j s" "caller_at j (s\<lparr>lf_cpu := b\<rparr>) = caller_at j s"
  by (auto simp: caller_at_def set_caller_def nth_list_update)

lemmas snap_defs = snap_tick_def snap_flush_cpu_def snap_flush_done_def snap_stop_def snap_halt_def snap_wait_def snap_done_def
lemmas cpu_defs = cpu_begin_def cpu_halt_def cpu_done_def
lemmas call_defs = stop_call_def stop_enter_def stop_wg_def stop_once_def flush_call_def flush_send_def flush_return_def

lemma goroutines_inv_start: "goroutines_inv e (life_start e)"
  by (simp add: goroutines_inv_def life_start_def cpu_live_def cpu_over_def stopping_def switch_init_def)

lemmas goroutine_defs = goroutines_inv_def cpu_live_def cpu_over_def stopping_def

lemma SetCollector_free: "ref sw = 0 \<Longrightarrow> SetCollector k sw = (sw\<lparr>sw_Collector := k\<rparr>, True)"
  by (simp add: SetCollector_def)

lemma snap_halt_free:
  "ref (lf_switch s) = 0 \<Longrightarrow> snap_halt s = (if lf_snap s = StopSwitch
     then Some (s\<lparr>lf_switch := (lf_switch s)\<lparr>sw_Collector := Some defaultCollector\<rparr>, lf_halt := True, lf_snap := StopWait\<rparr>) else None)"
  by (simp add: snap_halt_def SetCollector_free)

lemma cpu_begin_free:
  "ref (lf_switch s) = 0 \<Longrightarrow> cpu_begin s = (if lf_cpu s = CpuNew
     then Some (s\<lparr>lf_switch := (lf_switch s)\<lparr>sw_Collector := Some backgroundCollector\<rparr>, lf_cpu := CpuLoop\<rparr>) else None)"
  by (simp add: cpu_begin_def SetCollector_free)

lemma goroutines_ref: "goroutines_inv e s \<Longrightarrow> ref (lf_switch s) = 0"
  by (simp add: goroutines_inv_def)

lemma go_step_goroutines: "go_step s s' \<Longrightarrow> goroutines_inv e s \<Longrightarrow> goroutines_inv e s'"
proof (induction rule: go_step.induct)
  case (flush_cpu s s')
  then obtain i where "lf_snap s = FlushCpu i" "lf_cpu s = CpuLoop" "s' = s\<lparr>lf_snap := FlushUpstream i\<rparr>"
    by (auto simp: snap_flush_cpu_def split: snapshots.splits if_splits)
  with flush_cpu(2) show ?case
    by (auto simp: goroutine_defs)
next
  case (flush_done s s')
  then obtain i where "lf_snap s = FlushUpstream i" "s' = s\<lparr>lf_snap := InSelect, lf_flushed := i # lf_flushed s\<rparr>"
    by (auto simp: snap_flush_done_def split: snapshots.splits)
  with flush_done(2) show ?case
    by (cases "lf_cpu s") (auto simp: goroutine_defs)
next
  case (stop s s')
  from stop(1) have "lf_snap s = InSelect" "lf_stopCh s" "s' = s\<lparr>lf_snap := (if lf_cpu s \<noteq> NoCpu then StopSwitch else SnapReturned)\<rparr>"
    by (simp_all add: snap_stop_def split: if_splits)
  with stop(2) show ?case
    by (cases "lf_cpu s") (auto simp: goroutine_defs)
next
  case (halt s s')
  from halt(1) have "lf_snap s = StopSwitch"
      "s' = s\<lparr>lf_switch := (lf_switch s)\<lparr>sw_Collector := Some defaultCollector\<rparr>, lf_halt := True, lf_snap := StopWait\<rparr>"
    by (simp_all add: snap_halt_free [OF goroutines_ref [OF halt(2)]] split: if_splits)
  with halt(2) show ?case
    by (cases "lf_cpu s") (auto simp: goroutine_defs)
next
  case (wait s s')
  from wait(1) have "lf_snap s = StopWait" "lf_cpu s = CpuClosed \<or> lf_cpu s = CpuDone" "s' = s\<lparr>lf_snap := SnapReturned\<rparr>"
    by (simp_all add: snap_wait_def split: if_splits)
  with wait(2) show ?case
    by (cases "lf_cpu s") (auto simp: goroutine_defs)
next
  case (finish s s')
  from finish(1) have "lf_snap s = SnapReturned" "s' = s\<lparr>lf_snap := SnapDone, lf_wg := lf_wg s - 1\<rparr>"
    by (simp_all add: snap_done_def split: if_splits)
  with finish(2) show ?case
    by (cases "lf_cpu s") (auto simp: goroutine_defs)
next
  case (begin_cpu s s')
  from begin_cpu(1) have "lf_cpu s = CpuNew"
      "s' = s\<lparr>lf_switch := (lf_switch s)\<lparr>sw_Collector := Some backgroundCollector\<rparr>, lf_cpu := CpuLoop\<rparr>"
    by (simp_all add: cpu_begin_free [OF goroutines_ref [OF begin_cpu(2)]] split: if_splits)
  with begin_cpu(2) show ?case
    by (cases "lf_snap s") (auto simp: goroutine_defs)
next
  case (halt_cpu s s')
  from halt_cpu(1) have "lf_cpu s = CpuLoop" "lf_halt s" "s' = s\<lparr>lf_cpu := CpuClosed\<rparr>"
    by (simp_all add: cpu_halt_def split: if_splits)
  with halt_cpu(2) show ?case
    by (cases "lf_snap s") (auto simp: goroutine_defs)
next
  case (finish_cpu s s')
  from finish_cpu(1) have "lf_cpu s = CpuClosed" "s' = s\<lparr>lf_cpu := CpuDone, lf_wg := lf_wg s - 1\<rparr>"
    by (simp_all add: cpu_done_def split: if_splits)
  with finish_cpu(2) show ?case
    by (cases "lf_snap s") (auto simp: goroutine_defs)
qed

lemma set_caller_sel [simp]:
  "lf_snap (set_caller i c s) = lf_snap s" "lf_cpu (set_caller i c s) = lf_cpu s" "lf_halt (set_caller i c s) = lf_halt s"
  "lf_stopCh (set_caller i c s) = lf_stopCh s" "lf_once (set_caller i c s) = lf_once s" "lf_wg (set_caller i c s) = lf_wg s"
  "lf_switch (set_caller i c s) = lf_switch s" "lf_flushed (set_caller i c s) = lf_flushed s"
  "lf_resets (set_caller i c s) = lf_resets s" "lf_callers (set_caller i c s) = (lf_callers s)[i := c]"
  by (simp_all add: set_caller_def)

lemma goroutines_frame:
  assumes "goroutines_inv e s" and "lf_snap s' = lf_snap s" "lf_cpu s' = lf_cpu s" "lf_halt s' = lf_halt s"
    "lf_stopCh s \<longrightarrow> lf_stopCh s'" "lf_wg s' = lf_wg s" "lf_switch s' = lf_switch s"
  shows "goroutines_inv e s'"
  using assms unfolding goroutines_inv_def by (elim conjE) (intro conjI; simp)

lemma life_step_goroutines: "life_step s s' \<Longrightarrow> goroutines_inv e s \<Longrightarrow> goroutines_inv e s'"
proof (induction rule: life_step.induct)
  case (go s s')
  then show ?case by (rule go_step_goroutines)
next
  case (flush_send i s s')
  then have "lf_snap s = InSelect" "lf_snap s' = FlushCpu i" "lf_cpu s' = lf_cpu s" "lf_halt s' = lf_halt s"
      "lf_stopCh s' = lf_stopCh s" "lf_wg s' = lf_wg s" "lf_switch s' = lf_switch s"
    by (auto simp: flush_send_def split: option.splits caller.splits if_splits)
  with flush_send(2) show ?case by (cases "lf_cpu s") (auto simp: goroutine_defs)
qed (erule goroutines_frame; auto simp: snap_tick_def call_defs split: if_splits once.splits)+

lemma caller_at_set: "caller_at j (set_caller i c s) = (if i = j \<and> i < length (lf_callers s) then Some c else caller_at j s)"
  by (auto simp: caller_at_def nth_list_update)

lemma caller_at_some: "caller_at i s = Some c \<Longrightarrow> i < length (lf_callers s) \<and> lf_callers s ! i = c"
  by (auto simp: caller_at_def split: if_splits)

lemma callers_frame:
  assumes "callers_inv s" and "lf_stopCh s' = lf_stopCh s" "lf_once s' = lf_once s" "lf_wg s' \<le> lf_wg s" "lf_callers s' = lf_callers s"
  shows "callers_inv s'"
  using assms unfolding callers_inv_def caller_at_def by auto

lemma callers_append:
  assumes "callers_inv s" and "lf_stopCh s' = lf_stopCh s" "lf_once s' = lf_once s" "lf_wg s' = lf_wg s"
    "lf_callers s' = lf_callers s @ [c]" "c \<noteq> StopWaitWG" "c \<noteq> StopReturned" "c \<noteq> StopWaitOnce"
  shows "callers_inv s'"
proof -
  have "caller_at i s' = Some StopWaitWG \<longleftrightarrow> caller_at i s = Some StopWaitWG" for i
    using assms(5,6) by (auto simp: caller_at_def nth_append)
  with assms show ?thesis
    unfolding callers_inv_def by auto
qed

lemma callers_change:
  assumes "callers_inv s" and "caller_at i s = Some a" "a \<noteq> StopWaitWG" "c \<noteq> StopWaitWG"
    and "c = StopReturned \<longrightarrow> lf_once s = OnceDone" "c = StopWaitOnce \<longrightarrow> lf_once s \<noteq> OnceNew"
    and "lf_stopCh s' = lf_stopCh s" "lf_once s' = lf_once s" "lf_wg s' = lf_wg s" "lf_callers s' = (lf_callers s)[i := c]"
  shows "callers_inv s'"
proof -
  have "caller_at j s' = Some StopWaitWG \<longleftrightarrow> caller_at j s = Some StopWaitWG" for j
    using caller_at_some [OF assms(2)] assms(3,4,10) by (cases "i = j") (auto simp: caller_at_def)
  moreover have "StopReturned \<in> set (lf_callers s') \<longrightarrow> lf_once s = OnceDone"
      "StopWaitOnce \<in> set (lf_callers s') \<longrightarrow> lf_once s \<noteq> OnceNew"
    using assms(1,5,6,10) set_update_subset_insert [of "lf_callers s" i c] unfolding callers_inv_def by auto
  ultimately show ?thesis
    using assms unfolding callers_inv_def by auto
qed

lemma go_step_callers:
  "go_step s s' \<Longrightarrow> lf_stopCh s' = lf_stopCh s \<and> lf_once s' = lf_once s \<and> lf_wg s' \<le> lf_wg s \<and> lf_callers s' = lf_callers s \<and>
     lf_resets s' = lf_resets s"
  by (induction rule: go_step.induct)
     (auto simp: snap_flush_cpu_def snap_flush_done_def snap_stop_def snap_halt_def snap_wait_def snap_done_def cpu_defs
       split: snapshots.splits if_splits prod.splits bool.splits)

lemma life_step_callers: "life_step s s' \<Longrightarrow> callers_inv s \<Longrightarrow> callers_inv s'"
proof (induction rule: life_step.induct)
  case (go s s')
  with go_step_callers [OF go(1)] show ?case by (auto intro: callers_frame)
next
  case (tick s s')
  then show ?case by (auto simp: snap_tick_def intro: callers_frame split: if_splits)
next
  case (stop_call s)
  then show ?case by (rule callers_append [of _ _ StopEnter]) (simp_all add: stop_call_def)
next
  case (flush_call s w)
  then show ?case by (rule callers_append [of _ _ "FlushSend w"]) (simp_all add: flush_call_def)
next
  case (stop_enter i s s')
  then have at: "caller_at i s = Some StopEnter"
    by (simp add: stop_enter_def split: if_splits)
  show ?case
  proof (cases "lf_once s")
    case OnceNew
    with stop_enter at have s': "s' = set_caller i StopWaitWG (s\<lparr>lf_once := OnceBusy i, lf_stopCh := True\<rparr>)"
      by (simp add: stop_enter_def split: if_splits)
    have "caller_at j s' = Some StopWaitWG \<longleftrightarrow> i = j" for j
    proof -
      have "caller_at j s \<noteq> Some StopWaitWG"
        using stop_enter(2) OnceNew by (simp add: callers_inv_def)
      with caller_at_some [OF at] show ?thesis
        by (cases "i = j") (auto simp: s' caller_at_def)
    qed
    moreover have "StopReturned \<notin> set (lf_callers s')"
      using stop_enter(2) OnceNew set_update_subset_insert [of "lf_callers s" i StopWaitWG]
      by (auto simp: callers_inv_def s')
    ultimately show ?thesis
      by (auto simp: callers_inv_def s')
  next
    case (OnceBusy k)
    with stop_enter(1) at have "s' = set_caller i StopWaitOnce s"
      by (simp add: stop_enter_def)
    with stop_enter(2) at OnceBusy show ?thesis
      by - (rule callers_change [of s i StopEnter StopWaitOnce], simp_all)
  next
    case OnceDone
    with stop_enter(1) at have "s' = set_caller i StopReturned s"
      by (simp add: stop_enter_def)
    with stop_enter(2) at OnceDone show ?thesis
      by - (rule callers_change [of s i StopEnter StopReturned], simp_all)
  qed
next
  case (stop_wg i s s')
  then have g: "caller_at i s = Some StopWaitWG" "lf_wg s = 0" "s' = set_caller i StopReturned (s\<lparr>lf_once := OnceDone\<rparr>)"
    by (simp_all add: stop_wg_def split: if_splits)
  then have b: "lf_once s = OnceBusy i"
    using stop_wg(2) by (simp add: callers_inv_def)
  then have o: "caller_at j s \<noteq> Some StopWaitWG" if "j \<noteq> i" for j
    using stop_wg(2) that unfolding callers_inv_def by (metis once.inject)
  have "caller_at j s' \<noteq> Some StopWaitWG" for j
    using caller_at_some [OF g(1)] o [of j] by (cases "j = i") (auto simp: g(3) caller_at_def)
  moreover have "lf_stopCh s"
    using stop_wg(2) b by (simp add: callers_inv_def)
  ultimately show ?case
    using g by (simp add: callers_inv_def)
next
  case (stop_once i s s')
  from stop_once(1) have "caller_at i s = Some StopWaitOnce" "lf_once s = OnceDone" "s' = set_caller i StopReturned s"
    by (simp_all add: stop_once_def split: if_splits)
  with stop_once(2) show ?case
    by - (rule callers_change [of s i StopWaitOnce StopReturned], simp_all)
next
  case (flush_send i s s')
  then obtain w where "caller_at i s = Some (FlushSend w)"
      "s' = set_caller i (if w then FlushWait else FlushReturned) (s\<lparr>lf_snap := FlushCpu i, lf_resets := lf_resets s + 1\<rparr>)"
    by (auto simp: flush_send_def split: option.splits caller.splits if_splits)
  with flush_send(2) show ?case
    by - (rule callers_change [of s i "FlushSend w" "if w then FlushWait else FlushReturned"], simp_all)
next
  case (flush_return i s s')
  from flush_return(1) have "caller_at i s = Some FlushWait" "s' = set_caller i FlushReturned s"
    by (simp_all add: flush_return_def split: if_splits)
  with flush_return(2) show ?case
    by - (rule callers_change [of s i FlushWait FlushReturned], simp_all)
qed

lemma life_inv_start: "life_inv e (life_start e)"
  using goroutines_inv_start by (simp add: life_inv_def callers_inv_def life_start_def caller_at_def)

lemma life_step_inv: "life_step s s' \<Longrightarrow> life_inv e s \<Longrightarrow> life_inv e s'"
  using life_step_goroutines life_step_callers by (simp add: life_inv_def)

lemma life_steps_inv: "life_step\<^sup>*\<^sup>* s s' \<Longrightarrow> life_inv e s \<Longrightarrow> life_inv e s'"
  by (induction rule: rtranclp_induct) (auto intro: life_step_inv)

lemma reachable_inv: "reachable e s \<Longrightarrow> life_inv e s"
  unfolding reachable_def using life_steps_inv life_inv_start by blast

section \<open>After the stop\<close>

lemma once_done_ended:
  assumes "life_inv e s" and "lf_once s = OnceDone"
  shows "lf_snap s = SnapDone" and "lf_cpu s = NoCpu \<or> lf_cpu s = CpuDone"
proof -
  have "lf_wg s = 0"
    using assms by (simp add: life_inv_def callers_inv_def)
  then show "lf_snap s = SnapDone" "lf_cpu s = NoCpu \<or> lf_cpu s = CpuDone"
    using assms(1) by (cases "lf_cpu s"; auto simp: life_inv_def goroutines_inv_def cpu_live_def split: if_splits)+
qed

lemma ended_stuck:
  assumes "lf_snap s = SnapDone" and "lf_cpu s = NoCpu \<or> lf_cpu s = CpuDone"
  shows "\<not> go_step s s'"
  using assms by (auto simp: snap_flush_cpu_def snap_flush_done_def snap_stop_def snap_halt_def snap_wait_def snap_done_def cpu_defs
      elim!: go_step.cases)

lemma ended_keeps:
  assumes "life_step s s'" and "life_inv e s" and "lf_once s = OnceDone"
  shows "lf_once s' = OnceDone \<and> lf_resets s' = lf_resets s \<and> lf_switch s' = lf_switch s \<and>
    (caller_at i s = Some (FlushSend w) \<longrightarrow> caller_at i s' = Some (FlushSend w))"
  using assms(1)
proof (cases rule: life_step.cases)
  case go
  then show ?thesis
    using ended_stuck once_done_ended [OF assms(2,3)] by blast
next
  case tick
  then show ?thesis
    using once_done_ended [OF assms(2,3)] by (simp add: snap_tick_def)
next
  case (stop_enter j)
  then show ?thesis
    using assms(3) by (cases "i = j") (auto simp: stop_enter_def caller_at_def split: if_splits)
next
  case (stop_wg j)
  then have "lf_once s = OnceBusy j"
    using assms(2) by (simp add: stop_wg_def life_inv_def callers_inv_def split: if_splits)
  with assms(3) show ?thesis
    by simp
next
  case (stop_once j)
  then show ?thesis
    using assms(3) by (cases "i = j") (auto simp: stop_once_def caller_at_def split: if_splits)
next
  case (flush_send j)
  then show ?thesis
    using once_done_ended [OF assms(2,3)] by (auto simp: flush_send_def split: option.splits caller.splits)
next
  case (flush_return j)
  then show ?thesis
    using assms(3) by (cases "i = j") (auto simp: flush_return_def caller_at_def split: if_splits)
qed (use assms(3) in \<open>auto simp: stop_call_def flush_call_def caller_at_def nth_append\<close>)

lemma ended_keeps_all:
  assumes "life_step\<^sup>*\<^sup>* s s'" and "life_inv e s" and "lf_once s = OnceDone"
  shows "life_inv e s' \<and> lf_once s' = OnceDone \<and> lf_resets s' = lf_resets s \<and> lf_switch s' = lf_switch s \<and>
    (caller_at i s = Some (FlushSend w) \<longrightarrow> caller_at i s' = Some (FlushSend w))"
  using assms(1)
proof (induction rule: rtranclp_induct)
  case (step s1 s2)
  then show ?case
    using ended_keeps [OF step(2), of e i w] life_step_inv [OF step(2)] by auto
qed (use assms in simp)

lemma returned_done: "life_inv e s \<Longrightarrow> StopReturned \<in> set (lf_callers s) \<Longrightarrow> lf_once s = OnceDone"
  by (simp add: life_inv_def callers_inv_def)

text \<open>
  C17. When any call of \<^verbatim>\<open>Stop\<close> has returned, also one that found another in progress, both
  goroutines of the session have ended, the channel was closed once, and from then on nothing is uploaded, whatever is
  called later.
\<close>

theorem stop_ends_session:
  assumes "reachable e s" and "StopReturned \<in> set (lf_callers s)" and "life_step\<^sup>*\<^sup>* s s'"
  shows "lf_snap s' = SnapDone \<and> lf_cpu s' = (if e then CpuDone else NoCpu) \<and> lf_wg s' = 0 \<and> lf_resets s' = lf_resets s"
proof -
  have i: "life_inv e s"
    by (rule reachable_inv [OF assms(1)])
  have k: "life_inv e s'" "lf_once s' = OnceDone" "lf_resets s' = lf_resets s"
    using ended_keeps_all [OF assms(3) i returned_done [OF i assms(2)]] by blast+
  then have "lf_cpu s' = NoCpu \<longleftrightarrow> \<not> e" "lf_wg s' = 0"
    by (simp_all add: life_inv_def goroutines_inv_def callers_inv_def)
  then show ?thesis
    using once_done_ended [OF k(1,2)] k(3) by (cases e) simp_all
qed

text \<open>
  A \<^verbatim>\<open>flush\<close> that is called after \<^verbatim>\<open>Stop\<close> returned, or that had not met
  the loop before, never returns: nobody receives from its channel any more.
\<close>

theorem flush_after_stop_hangs:
  assumes "reachable e s" and "StopReturned \<in> set (lf_callers s)"
    and "caller_at i s = Some (FlushSend wait)" and "life_step\<^sup>*\<^sup>* s s'"
  shows "caller_at i s' = Some (FlushSend wait)"
proof -
  have i: "life_inv e s"
    by (rule reachable_inv [OF assms(1)])
  show ?thesis
    using ended_keeps_all [OF assms(4) i returned_done [OF i assms(2)]] assms(3) by blast
qed

section \<open>A stop comes to an end\<close>


























text \<open>The collector of the switch after a stop.\<close>

definition restored :: "life \<Rightarrow> bool" where
  "restored s \<longleftrightarrow> lf_cpu s \<noteq> CpuNew \<and> lf_cpu s \<noteq> NoCpu \<and> (lf_halt s \<longrightarrow> sw_Collector (lf_switch s) = Some defaultCollector)"

lemma go_step_restored:
  assumes "go_step s s'" and "ref (lf_switch s) = 0" and "restored s"
  shows "restored s'"
  using assms(1)
proof cases
  case halt
  with assms(2,3) show ?thesis
    by (simp add: snap_halt_free restored_def split: if_splits) auto
next
  case begin_cpu
  with assms(2,3) show ?thesis
    by (simp add: cpu_begin_free restored_def split: if_splits)
qed (use assms(3) in \<open>auto simp: snap_flush_cpu_def snap_flush_done_def snap_stop_def snap_wait_def snap_done_def cpu_halt_def
  cpu_done_def restored_def split: snapshots.splits if_splits\<close>)

lemma life_step_restored:
  assumes "life_step s s'" and "life_inv e s" and "restored s"
  shows "restored s'"
  using assms(1)
proof (cases rule: life_step.cases)
  case go
  moreover have "ref (lf_switch s) = 0"
    using assms(2) by (simp add: life_inv_def goroutines_inv_def)
  ultimately show ?thesis
    using go_step_restored assms(3) by blast
qed (use assms(3) in \<open>auto simp: snap_tick_def call_defs restored_def split: if_splits once.splits option.splits caller.splits\<close>)

lemma restored_all: "life_step\<^sup>*\<^sup>* s s' \<Longrightarrow> life_inv e s \<Longrightarrow> restored s \<Longrightarrow> restored s' \<and> life_inv e s'"
  by (induction rule: rtranclp_induct) (auto intro: life_step_restored life_step_inv)

text \<open>
  C19. When the goroutine of the collector had started its loop before the session was told to stop, the switch
  holds the default collector again as soon as any call of \<^verbatim>\<open>Stop\<close> has returned, and keeps it.
\<close>

theorem stop_restores_collector:
  assumes "reachable e s" and "lf_cpu s = CpuLoop" and "\<not> lf_halt s"
    and "life_step\<^sup>*\<^sup>* s s'" and "StopReturned \<in> set (lf_callers s')"
  shows "sw_Collector (lf_switch s') = Some defaultCollector \<and> ref (lf_switch s') = 0"
proof -
  have "restored s"
    using assms(2,3) by (simp add: restored_def)
  then have r: "restored s'" and i: "life_inv e s'"
    using restored_all [OF assms(4) reachable_inv [OF assms(1)]] by blast+
  have "lf_snap s' = SnapDone" "lf_cpu s' \<noteq> NoCpu" "ref (lf_switch s') = 0"
    using once_done_ended(1) [OF i returned_done [OF i assms(5)]] r i
    by (simp_all add: restored_def life_inv_def goroutines_inv_def)
  moreover from this have "lf_halt s'"
    using i by (cases e) (simp_all add: life_inv_def goroutines_inv_def)
  ultimately show ?thesis
    using r by (simp add: restored_def)
qed

section \<open>A stop that overtakes the start\<close>

text \<open>A run of given steps.\<close>

fun run :: "(life \<Rightarrow> life option) list \<Rightarrow> life \<Rightarrow> life option" where
  "run [] s = Some s"
| "run (f # fs) s = (case f s of Some s' \<Rightarrow> run fs s' | None \<Rightarrow> None)"

definition is_step :: "(life \<Rightarrow> life option) \<Rightarrow> bool" where
  "is_step f \<longleftrightarrow> (\<forall>s s'. f s = Some s' \<longrightarrow> life_step s s')"

lemma is_step_intros [simp]:
  "is_step snap_flush_cpu" "is_step snap_flush_done" "is_step snap_stop" "is_step snap_halt" "is_step snap_wait" "is_step snap_done"
  "is_step cpu_begin" "is_step cpu_halt" "is_step cpu_done" "is_step (stop_enter i)" "is_step (stop_wg i)" "is_step (stop_once i)"
  "is_step (flush_send i)" "is_step (flush_return i)" "is_step (\<lambda>s. Some (stop_call s))" "is_step (\<lambda>s. Some (flush_call w s))"
  by (auto simp: is_step_def intro: life_step.intros go_step.intros)

lemma run_steps: "list_all is_step fs \<Longrightarrow> run fs s = Some s' \<Longrightarrow> life_step\<^sup>*\<^sup>* s s'"
  by (induction fs arbitrary: s)
     (auto simp: is_step_def split: option.splits intro: converse_rtranclp_into_rtranclp)

lemma run_reachable: "list_all is_step fs \<Longrightarrow> run fs (life_start e) = Some s \<Longrightarrow> reachable e s"
  unfolding reachable_def by (rule run_steps)

definition run_end :: "bool \<Rightarrow> (life \<Rightarrow> life option) list \<Rightarrow> life" where
  "run_end e fs = (case run fs (life_start e) of Some s \<Rightarrow> s | None \<Rightarrow> life_start e)"

lemma run_end_reachable: "list_all is_step fs \<Longrightarrow> reachable e (run_end e fs)"
  by (cases "run fs (life_start e)") (auto simp: run_end_def run_reachable reachable_def dest: run_reachable)

lemmas run_defs = run_end_def life_start_def caller_at_def set_caller_def snap_defs cpu_defs call_defs SetCollector_free switch_init_def

definition full_stop :: "nat \<Rightarrow> (life \<Rightarrow> life option) list" where
  "full_stop i = [stop_enter i, snap_stop, snap_halt, cpu_halt, snap_wait, snap_done, cpu_done, stop_wg i]"

lemma full_stop_steps [simp]: "list_all is_step (full_stop i)"
  by (simp add: full_stop_def)

definition stopped_run :: "(life \<Rightarrow> life option) list" where
  "stopped_run = [cpu_begin, \<lambda>s. Some (stop_call s)] @ full_stop 0 @ [\<lambda>s. Some (flush_call True s)]"

definition raced_run :: "(life \<Rightarrow> life option) list" where
  "raced_run = [\<lambda>s. Some (stop_call s), stop_enter 0, snap_stop, snap_halt, cpu_begin, cpu_halt, snap_wait, snap_done, cpu_done,
     stop_wg 0]"


lemma stopped_run_reachable: "reachable True (run_end True stopped_run)"
  by (rule run_end_reachable) (simp add: stopped_run_def)

lemma raced_run_reachable: "reachable True (run_end True raced_run)"
  by (rule run_end_reachable) (simp add: raced_run_def)


lemma stopped_run_end:
  "lf_callers (run_end True stopped_run) = [StopReturned, FlushSend True]"
  by (simp add: stopped_run_def full_stop_def run_defs)


text \<open>
  C40. A session can be stopped before the goroutine of its collector has run.  The collector then takes the switch
  after \<^verbatim>\<open>Stop\<close> has given it back, ends at once, and stays in the switch: every goroutine of the session
  has ended and \<^verbatim>\<open>Stop\<close> has returned, and the next CPU profile of the process is started on a collector
  that has no loop.
\<close>

theorem start_stop_race:
  "\<exists>s. reachable True s \<and> lf_callers s = [StopReturned] \<and> lf_snap s = SnapDone \<and> lf_cpu s = CpuDone \<and> lf_wg s = 0 \<and>
     sw_Collector (lf_switch s) = Some backgroundCollector"
proof (intro exI conjI)
  show "reachable True (run_end True raced_run)"
    by (rule raced_run_reachable)
qed (simp_all add: raced_run_def run_defs)

section \<open>Witnesses\<close>

lemma stop_ends_session_witness:
  "lf_snap (run_end True stopped_run) = SnapDone \<and> lf_cpu (run_end True stopped_run) = CpuDone \<and>
    lf_resets (run_end True stopped_run) = 1"
  using stop_ends_session [OF stopped_run_reachable, of "run_end True stopped_run"]
  by (simp add: stopped_run_end) (simp add: stopped_run_def full_stop_def run_defs)

lemma flush_after_stop_hangs_witness:
  "caller_at 1 (flush_call False (stop_call (run_end True stopped_run))) = Some (FlushSend True)"
proof (rule flush_after_stop_hangs [OF stopped_run_reachable])
  show "life_step\<^sup>*\<^sup>* (run_end True stopped_run) (flush_call False (stop_call (run_end True stopped_run)))"
    using life_step.stop_call life_step.flush_call by (meson r_into_rtranclp rtranclp.rtrancl_into_rtrancl)
qed (simp_all add: stopped_run_end caller_at_def)


lemma stop_restores_collector_witness:
  "reachable True (run_end True [cpu_begin]) \<and> sw_Collector (lf_switch (run_end True ([cpu_begin, \<lambda>s. Some (stop_call s)] @ full_stop 0))) =
    Some defaultCollector"
proof -
  define s where "s = run_end True [cpu_begin]"
  define s' where "s' = run_end True ([cpu_begin, \<lambda>s. Some (stop_call s)] @ full_stop 0)"
  have "reachable True s"
    by (simp add: s_def run_end_reachable)
  moreover have "lf_cpu s = CpuLoop" "\<not> lf_halt s" "lf_callers s' = [StopReturned]"
    by (simp_all add: s_def s'_def full_stop_def run_defs)
  moreover have "run ((\<lambda>s. Some (stop_call s)) # full_stop 0) s = Some s'"
    by (simp add: s_def s'_def full_stop_def run_defs)
  then have "life_step\<^sup>*\<^sup>* s s'"
    by (rule run_steps [rotated]) simp
  ultimately have "sw_Collector (lf_switch s') = Some defaultCollector"
    using stop_restores_collector [of True s s'] by simp
  with \<open>reachable True s\<close> show ?thesis
    by (simp add: s_def s'_def)
qed

end
