(* ===== verification/SessionLife.thy ===== *)
theory SessionLife
  imports Session Lifecycle
begin

text \<open>
  The two models of \<^verbatim>\<open>takeSnapshots\<close>: the loop of the theory of sessions, which says what every round
  uploads, and the goroutines of the theory of the life of a session, which say who waits for whom.  Every run of the goroutines
  is a run of the loop, with one reset of the loop for each reset counted, so what holds of all states of the loop holds of a
  session with its callers.
\<close>

section \<open>The simulation\<close>











section \<open>Every run of the loop happens\<close>










end
