(* ===== verification/Baggage.thy ===== *)
theory Baggage
  imports GoStrings "HOL-Library.Sublist"
begin

text \<open>
  Profiling labels from request baggage (\<^verbatim>\<open>x/k6/baggage.go\<close>), and the labels of
  \<^verbatim>\<open>api.go\<close>.

  A \<^verbatim>\<open>pprof.LabelSet\<close> is a map.  The runtime keeps one label map per goroutine; the goroutine that
  serves a request has the labels \<open>gl_labels\<close>, which a handler may change.  Parsing a baggage header and
  looking up a header or metadata are functions of packages outside the repository, and a parsed baggage is the list of
  its members, in the order in which \<^verbatim>\<open>Members\<close> lists them.  A handler that panics has the outcome
  \<^const>\<open>None\<close>.
\<close>

section \<open>Labels of runtime/pprof\<close>

type_synonym label_set = "string \<rightharpoonup> string"

text \<open>\<^verbatim>\<open>pprof.Labels\<close>: pairs of arguments, a later one overwrites an earlier one; it panics on an odd number.\<close>

fun pprof_Labels :: "string list \<Rightarrow> label_set option" where
  "pprof_Labels [] = Some Map.empty"
| "pprof_Labels [_] = None"
| "pprof_Labels (k # v # args) =
     (case pprof_Labels args of None \<Rightarrow> None | Some m \<Rightarrow> Some (Map.empty(k \<mapsto> v) ++ m))"

type_synonym member = "string \<times> string"

record context_go =
  cx_labels :: label_set
  cx_baggage :: "member list"
  cx_metadata :: "(string \<Rightarrow> string list) option"

record 'w goroutine =
  gl_labels :: label_set
  gl_world :: 'w

definition WithLabels :: "context_go \<Rightarrow> label_set \<Rightarrow> context_go" where
  "WithLabels ctx ls = ctx\<lparr>cx_labels := cx_labels ctx ++ ls\<rparr>"

definition SetGoroutineLabels :: "context_go \<Rightarrow> 'w goroutine \<Rightarrow> 'w goroutine" where
  "SetGoroutineLabels ctx g = g\<lparr>gl_labels := cx_labels ctx\<rparr>"

text \<open>
  What a handler does with a context: its result, or \<^const>\<open>None\<close> when it panics, and the goroutine after it.
\<close>

type_synonym ('r, 'w) action = "context_go \<Rightarrow> 'w goroutine \<Rightarrow> 'r option \<times> 'w goroutine"

text \<open>\<^verbatim>\<open>pprof.Do\<close>: the deferred call restores the labels of the outer context also after a panic.\<close>

definition pprof_Do :: "context_go \<Rightarrow> label_set \<Rightarrow> ('r, 'w) action \<Rightarrow> 'w goroutine \<Rightarrow> 'r option \<times> 'w goroutine" where
  "pprof_Do ctx ls f g =
     (let inner = WithLabels ctx ls;
          (r, g) = f inner (SetGoroutineLabels inner g) in
      (r, SetGoroutineLabels ctx g))"

text \<open>\<^verbatim>\<open>TagWrapper\<close> of \<^verbatim>\<open>api.go\<close>\<close>

definition TagWrapper :: "context_go \<Rightarrow> label_set \<Rightarrow> ('r, 'w) action \<Rightarrow> 'w goroutine \<Rightarrow> 'r option \<times> 'w goroutine" where
  "TagWrapper ctx labels cb = pprof_Do ctx labels (\<lambda>c. cb c)"

section \<open>Baggage\<close>

definition ReplaceAll :: "char \<Rightarrow> char \<Rightarrow> string \<Rightarrow> string" where
  "ReplaceAll old new s = map (\<lambda>c. if c = old then new else c) s"

fun labelPairs_loop :: "string list \<Rightarrow> member list \<Rightarrow> string list" where
  "labelPairs_loop labelPairs [] = labelPairs"
| "labelPairs_loop labelPairs ((key, v) # ms) =
     (if \<not> prefix ''k6.'' key then labelPairs_loop labelPairs ms
      else if v = [] then labelPairs_loop labelPairs ms
      else labelPairs_loop (labelPairs @ [ReplaceAll CHR ''.'' CHR ''_'' key, v]) ms)"

text \<open>The outer option is a panic, the inner one the pointer that is \<^verbatim>\<open>nil\<close> when no member is a label.\<close>

definition baggageToLabels :: "member list \<Rightarrow> label_set option option" where
  "baggageToLabels b =
     (let labelPairs = labelPairs_loop [] b in
      if length labelPairs = 0 then Some None
      else case pprof_Labels labelPairs of None \<Rightarrow> None | Some ls \<Rightarrow> Some (Some ls))"

definition getBaggageLabelsFromContext :: "context_go \<Rightarrow> label_set option option" where
  "getBaggageLabelsFromContext ctx =
     (let b = cx_baggage ctx in if length b = 0 then Some None else baggageToLabels b)"

definition ContextWithBaggage :: "context_go \<Rightarrow> member list \<Rightarrow> context_go" where
  "ContextWithBaggage ctx b = ctx\<lparr>cx_baggage := b\<rparr>"

text \<open>The argument \<open>parse\<close> is \<^verbatim>\<open>baggage.Parse\<close>, \<open>header\<close> the lookup in the request header.\<close>

definition setBaggageContextFromHeader ::
    "(string \<Rightarrow> string + member list) \<Rightarrow> (string \<Rightarrow> string) \<Rightarrow> context_go \<Rightarrow> context_go \<times> bool" where
  "setBaggageContextFromHeader parse header ctx =
     (let baggageHeader = header ''Baggage'' in
      if baggageHeader = [] then (ctx, False)
      else case parse baggageHeader of
             Inl _ \<Rightarrow> (ctx, False)
           | Inr b \<Rightarrow> (ContextWithBaggage ctx b, True))"

definition setBaggageContextFromMetadata :: "(string \<Rightarrow> string + member list) \<Rightarrow> context_go \<Rightarrow> context_go \<times> bool" where
  "setBaggageContextFromMetadata parse ctx =
     (case cx_metadata ctx of
        None \<Rightarrow> (ctx, False)
      | Some md \<Rightarrow>
          (case md ''Baggage'' of
             [] \<Rightarrow> (ctx, False)
           | h # _ \<Rightarrow> (case parse h of
                         Inl _ \<Rightarrow> (ctx, False)
                       | Inr b \<Rightarrow> (ContextWithBaggage ctx b, True))))"

section \<open>The three entry points\<close>

definition LabelsFromBaggageUnaryInterceptor ::
    "(string \<Rightarrow> string + member list) \<Rightarrow> context_go \<Rightarrow> ('r, 'w) action \<Rightarrow> 'w goroutine \<Rightarrow> 'r option \<times> 'w goroutine" where
  "LabelsFromBaggageUnaryInterceptor parse ctx handler g =
     (let (ctx, found) = setBaggageContextFromMetadata parse ctx in
      if \<not> found then handler ctx g
      else case getBaggageLabelsFromContext ctx of
             None \<Rightarrow> (None, g)
           | Some None \<Rightarrow> handler ctx g
           | Some (Some labels) \<Rightarrow>
               (let outer = ctx;
                    ctx = WithLabels ctx labels;
                    g = SetGoroutineLabels ctx g;
                    (r, g) = handler ctx g in
                (r, SetGoroutineLabels outer g)))"

text \<open>
  A server stream is its context; the handler gets the stream itself, or a wrapped one with the new context.
\<close>

datatype stream = Plain context_go | Wrapped stream context_go

fun stream_Context :: "stream \<Rightarrow> context_go" where
  "stream_Context (Plain ctx) = ctx"
| "stream_Context (Wrapped _ ctx) = ctx"

definition LabelsFromBaggageStreamInterceptor ::
    "(string \<Rightarrow> string + member list) \<Rightarrow> stream \<Rightarrow> (stream \<Rightarrow> 'w goroutine \<Rightarrow> 'r option \<times> 'w goroutine) \<Rightarrow>
     'w goroutine \<Rightarrow> 'r option \<times> 'w goroutine" where
  "LabelsFromBaggageStreamInterceptor parse ss handler g =
     (let (ctx, found) = setBaggageContextFromMetadata parse (stream_Context ss) in
      if \<not> found then handler ss g
      else case getBaggageLabelsFromContext ctx of
             None \<Rightarrow> (None, g)
           | Some None \<Rightarrow> handler ss g
           | Some (Some labels) \<Rightarrow>
               (let outer = ctx;
                    ctx = WithLabels ctx labels;
                    g = SetGoroutineLabels ctx g;
                    (r, g) = handler (Wrapped ss ctx) g in
                (r, SetGoroutineLabels outer g)))"

definition ServeHTTP ::
    "(string \<Rightarrow> string + member list) \<Rightarrow> (string \<Rightarrow> string) \<Rightarrow> ('r, 'w) action \<Rightarrow> context_go \<Rightarrow> 'w goroutine \<Rightarrow> 'r option \<times> 'w goroutine" where
  "ServeHTTP parse header innerHandler ctx g =
     (let (ctx, found) = setBaggageContextFromHeader parse header ctx in
      if \<not> found then innerHandler ctx g
      else case getBaggageLabelsFromContext ctx of
             None \<Rightarrow> (None, g)
           | Some None \<Rightarrow> innerHandler ctx g
           | Some (Some labels) \<Rightarrow>
               (let outer = ctx;
                    ctx = WithLabels ctx labels;
                    g = SetGoroutineLabels ctx g;
                    (r, g) = innerHandler ctx g in
                (r, SetGoroutineLabels outer g)))"

section \<open>Which labels a request gets\<close>

definition k6_key :: "string \<Rightarrow> string" where
  "k6_key key = ReplaceAll CHR ''.'' CHR ''_'' key"

definition k6_member :: "member \<Rightarrow> bool" where
  "k6_member m \<longleftrightarrow> prefix ''k6.'' (fst m) \<and> snd m \<noteq> []"

text \<open>The label map a baggage asks for: of two members with the same label the later one counts.\<close>

definition k6_labels :: "member list \<Rightarrow> label_set" where
  "k6_labels b = map_of (rev (map (\<lambda>(k, v). (k6_key k, v)) (filter k6_member b)))"

lemma labelPairs_loop_eq:
  "labelPairs_loop ps b = ps @ concat (map (\<lambda>(k, v). [k6_key k, v]) (filter k6_member b))"
  by (induction ps b rule: labelPairs_loop.induct) (simp_all add: k6_member_def k6_key_def)

lemma pprof_Labels_pairs:
  "pprof_Labels (concat (map (\<lambda>(k, v). [f k, v]) ms)) = Some (map_of (rev (map (\<lambda>(k, v). (f k, v)) ms)))"
  by (induction ms) (auto simp: map_add_def fun_eq_iff split: option.split)

text \<open>The arguments always come in pairs, so \<^verbatim>\<open>pprof.Labels\<close> does not panic.\<close>

lemma baggageToLabels_eq:
  "baggageToLabels b = Some (if filter k6_member b = [] then None else Some (k6_labels b))"
  by (auto simp: baggageToLabels_def labelPairs_loop_eq pprof_Labels_pairs k6_labels_def filter_empty_conv split: prod.splits)

lemma getBaggageLabels_eq:
  "getBaggageLabelsFromContext ctx =
     Some (if filter k6_member (cx_baggage ctx) = [] then None else Some (k6_labels (cx_baggage ctx)))"
  by (auto simp: getBaggageLabelsFromContext_def baggageToLabels_eq Let_def)

section \<open>Properties\<close>

text \<open>The baggage of a request, if its header is present and can be parsed.\<close>

definition header_baggage :: "(string \<Rightarrow> string + member list) \<Rightarrow> string \<Rightarrow> member list option" where
  "header_baggage parse h = (if h = [] then None else case parse h of Inl _ \<Rightarrow> None | Inr b \<Rightarrow> Some b)"

definition metadata_baggage :: "(string \<Rightarrow> string + member list) \<Rightarrow> context_go \<Rightarrow> member list option" where
  "metadata_baggage parse ctx =
     (case cx_metadata ctx of
        None \<Rightarrow> None
      | Some md \<Rightarrow> (case md ''Baggage'' of [] \<Rightarrow> None | h # _ \<Rightarrow> (case parse h of Inl _ \<Rightarrow> None | Inr b \<Rightarrow> Some b)))"

lemma cx_baggage_With [simp]: "cx_baggage (ContextWithBaggage ctx b) = b"
  by (simp add: ContextWithBaggage_def)

lemma header_context:
  "setBaggageContextFromHeader parse header ctx =
     (case header_baggage parse (header ''Baggage'') of None \<Rightarrow> (ctx, False) | Some b \<Rightarrow> (ContextWithBaggage ctx b, True))"
  by (simp add: setBaggageContextFromHeader_def header_baggage_def Let_def split: sum.split)

lemma metadata_context:
  "setBaggageContextFromMetadata parse ctx =
     (case metadata_baggage parse ctx of None \<Rightarrow> (ctx, False) | Some b \<Rightarrow> (ContextWithBaggage ctx b, True))"
  by (simp add: setBaggageContextFromMetadata_def metadata_baggage_def split: option.split list.split sum.split)

text \<open>
  C22. The three entry points are what their comment says, an inlined \<^verbatim>\<open>TagWrapper\<close> with the labels of the
  baggage: the handler runs once, in a context and on a goroutine with the labels of the request and those of its
  members whose key begins with \<^verbatim>\<open>k6.\<close>; without such a member, or without baggage, it runs as it is.
\<close>

theorem baggage_is_TagWrapper:
  "ServeHTTP parse header handler ctx g =
     (case header_baggage parse (header ''Baggage'') of
        None \<Rightarrow> handler ctx g
      | Some b \<Rightarrow> if filter k6_member b = [] then handler (ContextWithBaggage ctx b) g
                 else TagWrapper (ContextWithBaggage ctx b) (k6_labels b) handler g) \<and>
   LabelsFromBaggageUnaryInterceptor parse ctx handler g =
     (case metadata_baggage parse ctx of
        None \<Rightarrow> handler ctx g
      | Some b \<Rightarrow> if filter k6_member b = [] then handler (ContextWithBaggage ctx b) g
                 else TagWrapper (ContextWithBaggage ctx b) (k6_labels b) handler g) \<and>
   LabelsFromBaggageStreamInterceptor parse ss stream_handler g =
     (case metadata_baggage parse (stream_Context ss) of
        None \<Rightarrow> stream_handler ss g
      | Some b \<Rightarrow> if filter k6_member b = [] then stream_handler ss g
                 else TagWrapper (ContextWithBaggage (stream_Context ss) b) (k6_labels b)
                        (\<lambda>c. stream_handler (Wrapped ss c)) g)"
  by (intro conjI; simp add: ServeHTTP_def LabelsFromBaggageUnaryInterceptor_def LabelsFromBaggageStreamInterceptor_def
      header_context metadata_context getBaggageLabels_eq TagWrapper_def pprof_Do_def Let_def split: option.split)

text \<open>
  While a tagged handler runs, its goroutine has the labels of the context together with the new ones;
  when it returns or panics, the goroutine has the labels of the context again, and everything else that the
  handler did is kept.
\<close>

theorem TagWrapper_restores:
  "TagWrapper ctx ls f g =
     (fst (f (WithLabels ctx ls) (g\<lparr>gl_labels := cx_labels ctx ++ ls\<rparr>)),
      (snd (f (WithLabels ctx ls) (g\<lparr>gl_labels := cx_labels ctx ++ ls\<rparr>)))\<lparr>gl_labels := cx_labels ctx\<rparr>)"
  by (simp add: TagWrapper_def pprof_Do_def SetGoroutineLabels_def WithLabels_def Let_def split: prod.split)

text \<open>
  When the labels of the \<^verbatim>\<open>k6.\<close> members are different, a label has the value of its member,
  whatever order \<^verbatim>\<open>Members\<close> lists them in; no other member gives a label.
\<close>

theorem k6_labels_of_members:
  assumes "distinct (map (k6_key \<circ> fst) (filter k6_member b))" and "baggageToLabels b = Some (Some ls)"
  shows "ls l = Some v \<longleftrightarrow> (\<exists>k. (k, v) \<in> set b \<and> prefix ''k6.'' k \<and> v \<noteq> [] \<and> l = k6_key k)"
proof -
  let ?ms = "map (\<lambda>(k, v). (k6_key k, v)) (filter k6_member b)"
  have "map fst ?ms = map (k6_key \<circ> fst) (filter k6_member b)"
    by (simp add: comp_def case_prod_beta)
  with assms(1) have "distinct (map fst (rev ?ms))"
    by (simp only: rev_map [symmetric] distinct_rev)
  moreover have "ls = map_of (rev ?ms)"
    using assms(2) by (simp add: baggageToLabels_eq k6_labels_def split: if_splits)
  ultimately have "ls l = Some v \<longleftrightarrow> (l, v) \<in> set ?ms"
    using map_of_eq_Some_iff [of "rev ?ms"] by simp
  also have "\<dots> \<longleftrightarrow> (\<exists>k. (k, v) \<in> set b \<and> prefix ''k6.'' k \<and> v \<noteq> [] \<and> l = k6_key k)"
    by (force simp: k6_member_def)
  finally show ?thesis .
qed

text \<open>Two keys that differ in a dot and an underscore give one label, and the order of the members decides.\<close>

lemma k6_labels_collide:
  "baggageToLabels [(''k6.a.b'', ''1''), (''k6.a_b'', ''2'')] \<noteq> baggageToLabels [(''k6.a_b'', ''2''), (''k6.a.b'', ''1'')]"
proof -
  have f: "filter k6_member [(''k6.a.b'', ''1''), (''k6.a_b'', ''2'')] = [(''k6.a.b'', ''1''), (''k6.a_b'', ''2'')]"
    "filter k6_member [(''k6.a_b'', ''2''), (''k6.a.b'', ''1'')] = [(''k6.a_b'', ''2''), (''k6.a.b'', ''1'')]"
    by (simp_all add: k6_member_def)
  have "k6_key ''k6.a.b'' = ''k6_a_b''" "k6_key ''k6.a_b'' = ''k6_a_b''"
    by (simp_all add: k6_key_def ReplaceAll_def)
  then have "k6_labels [(''k6.a.b'', ''1''), (''k6.a_b'', ''2'')] ''k6_a_b'' = Some ''2''"
    "k6_labels [(''k6.a_b'', ''2''), (''k6.a.b'', ''1'')] ''k6_a_b'' = Some ''1''"
    by (simp_all add: k6_labels_def k6_member_def)
  then have "k6_labels [(''k6.a.b'', ''1''), (''k6.a_b'', ''2'')] \<noteq> k6_labels [(''k6.a_b'', ''2''), (''k6.a.b'', ''1'')]"
    by auto
  then show ?thesis
    by (simp add: baggageToLabels_eq k6_member_def)
qed

theorem k6_labels_of_members_witness:
  "\<exists>ls. baggageToLabels [(''k6.scenario.name'', ''peak''), (''userid'', ''7''), (''k6.empty'', [])] = Some (Some ls) \<and>
     ls ''k6_scenario_name'' = Some ''peak'' \<and> ls ''userid'' = None"
proof -
  let ?b = "[(''k6.scenario.name'', ''peak''), (''userid'', ''7''), (''k6.empty'', [])]"
  have f: "filter k6_member ?b = [(''k6.scenario.name'', ''peak'')]"
    by (simp add: k6_member_def)
  then obtain ls where ls: "baggageToLabels ?b = Some (Some ls)"
    by (simp add: baggageToLabels_eq)
  have d: "distinct (map (k6_key \<circ> fst) (filter k6_member ?b))"
    unfolding f by simp
  have key: "k6_key ''k6.scenario.name'' = ''k6_scenario_name''"
    by (simp add: k6_key_def ReplaceAll_def)
  have "(''k6.scenario.name'', ''peak'') \<in> set ?b \<and> prefix ''k6.'' ''k6.scenario.name'' \<and> ''peak'' \<noteq> []"
    by simp
  then have "ls ''k6_scenario_name'' = Some ''peak''"
    unfolding k6_labels_of_members [OF d ls] using key [symmetric] by blast
  moreover have "ls ''userid'' \<noteq> Some v" for v
  proof
    assume "ls ''userid'' = Some v"
    then obtain k where k: "k6_member (k, v)" "(k, v) \<in> set ?b" "''userid'' = k6_key k"
      unfolding k6_labels_of_members [OF d ls] k6_member_def fst_conv snd_conv by blast
    then have "(k, v) \<in> set (filter k6_member ?b)"
      by (simp only: filter_set set_filter mem_Collect_eq)
    then have "k = ''k6.scenario.name''"
      unfolding f by simp
    with k(3) key show False
      by simp
  qed
  ultimately show ?thesis
    using ls by blast
qed

end
