(* ===== verification/RecordLayouts.thy ===== *)
theory RecordLayouts
  imports GoDeltaProf
begin

text \<open>
  The two builds of \<^verbatim>\<open>godeltaprof\<close>: with \<^verbatim>\<open>runtime_profile_go123.go\<close> a memory
  record carries the bytes of its objects, with \<^verbatim>\<open>runtime_profile_go127.go\<close> the size of one object.  The
  heap profiler sees a record only through its accessors, so records of both layouts that describe the same allocations
  give the same profile.  The fetch loops of the later file are those of the earlier one.
\<close>

section \<open>The fetch loops of Go 1.27\<close>

definition fetchBlockLike127 :: "(nat \<Rightarrow> 's \<Rightarrow> (nat \<times> bool \<times> 'r list) \<times> 's) \<Rightarrow> 's \<Rightarrow> ('r list \<times> 's) option" where
  "fetchBlockLike127 f s = (let ((n, _), s') = f 0 s in fetch_loop f n s')"

definition MemProfile127 :: "(bool \<Rightarrow> nat \<Rightarrow> 's \<Rightarrow> (nat \<times> bool \<times> 'r list) \<times> 's) \<Rightarrow> bool \<Rightarrow> 's \<Rightarrow>
    ('r list \<times> 's) option" where
  "MemProfile127 f inuseZero s = (let ((n, _), s') = f inuseZero 0 s in fetch_loop (f inuseZero) n s')"

lemma fetch127_same: "fetchBlockLike127 = fetchBlockLike" "MemProfile127 = MemProfile"
  by (intro ext, simp add: fetchBlockLike127_def fetchBlockLike_def MemProfile127_def MemProfile_def)+

section \<open>Records with the same view\<close>

text \<open>Two records look alike when they have the same key and, under a key, the same counts.\<close>

definition same_view :: "'r memRecord_ops \<Rightarrow> 's memRecord_ops \<Rightarrow> 'r \<Rightarrow> 's \<Rightarrow> bool" where
  "same_view mo mo' r r' \<longleftrightarrow> heap_key mo r = heap_key mo' r' \<and>
     (heap_key mo r \<noteq> None \<longrightarrow> mo_AllocObjects mo r = mo_AllocObjects mo' r' \<and> mo_InUseObjects mo r = mo_InUseObjects mo' r')"

lemma for_each_cong:
  assumes "list_all2 (\<lambda>r s. key r = key' s \<and> (\<forall>k v b. key r = Some k \<longrightarrow> body r v b = body' s v b)) p q"
  shows "for_each lookup get put key body p m b = for_each lookup get put key' body' q m b"
  using assms
  by (induction p q arbitrary: m b rule: list_all2_induct) (auto split: option.split)

lemma same_view_add:
  "same_view mo mo' r r' \<Longrightarrow> heap_key mo r = Some k \<Longrightarrow> heap_add mo r = heap_add mo' r'"
  by (auto simp: same_view_def heap_add_def)

lemma same_view_delta:
  assumes "same_view mo mo' r r'" and "heap_key mo r = Some k"
  shows "heap_delta fo mo ffp ops rate r v b = heap_delta fo mo' ffp ops rate r' v b"
proof -
  have "heap_key mo' r' = Some k"
    using assms by (simp add: same_view_def)
  then show ?thesis
    by (simp only: heap_delta_visit [OF assms(2)] heap_delta_visit)
qed

lemma for_each_add_same:
  assumes "list_all2 (same_view mo mo') p q"
  shows "for_each lookup get put (heap_key mo) (\<lambda>r v b. Some (heap_add mo r v, b)) p m b =
    for_each lookup get put (heap_key mo') (\<lambda>r v b. Some (heap_add mo' r v, b)) q m b"
  by (rule for_each_cong, rule list_all2_mono [OF assms]) (auto simp: same_view_add, simp add: same_view_def)

lemma for_each_delta_same:
  assumes "list_all2 (same_view mo mo') p q"
  shows "for_each lookup get put (heap_key mo) (heap_delta fo mo ffp ops rate) p m b =
    for_each lookup get put (heap_key mo') (heap_delta fo mo' ffp ops rate) q m b"
  by (rule for_each_cong, rule list_all2_mono [OF assms]) (auto intro: same_view_delta, simp add: same_view_def)

lemma WriteHeapProto_same:
  assumes "list_all2 (same_view mo mo') p q"
  shows "WriteHeapProto fo mo ffp ops p rate m b = WriteHeapProto fo mo' ffp ops q rate m b"
  unfolding WriteHeapProto_def for_each_add_same [OF assms] for_each_delta_same [OF assms] ..

section \<open>The two layouts\<close>

text \<open>
  The two layouts of a memory record that describe the same allocations: the bytes are those of objects of
  one size.
\<close>

definition same_allocations :: "MemProfileRecord \<Rightarrow> MemProfileRecord127 \<Rightarrow> bool" where
  "same_allocations r r7 \<longleftrightarrow>
     mr_AllocObjects r = mr7_AllocObjects r7 \<and> mr_FreeObjects r = mr7_FreeObjects r7 \<and> mr_Stack r = mr7_Stack r7 \<and>
     sint (mr_AllocBytes r) = sint (mr7_AllocObjects r7) * sint (mr7_ObjectSize r7) \<and>
     sint (mr_FreeBytes r) = sint (mr7_FreeObjects r7) * sint (mr7_ObjectSize r7) \<and>
     (mr7_AllocObjects r7 = 0 \<and> mr7_FreeObjects r7 = 0 \<or> 0 < sint (mr7_AllocObjects r7))"

lemma sint_eq_0: "sint (w :: i64) = 0 \<Longrightarrow> w = 0"
  by (rule signed_word_eqI) simp

lemma sdiv_product: "0 < x \<Longrightarrow> (x * y) sdiv x = (y :: int)"
  by (simp add: signed_divide_int_def abs_mult sgn_mult sgn_mult_abs)

lemma same_allocations_view: "same_allocations r r7 \<Longrightarrow> same_view go123_ops go127_ops r r7"
proof -
  assume a: "same_allocations r r7"
  show ?thesis
  proof (cases "mr7_AllocObjects r7 = 0 \<and> mr7_FreeObjects r7 = 0")
    case True
    with a have "mr_AllocBytes r = 0" "mr_FreeBytes r = 0"
      by (auto simp: same_allocations_def intro: sint_eq_0)
    with True a show ?thesis
      by (simp add: same_view_def same_allocations_def heap_key_def go123_ops_def go127_ops_def memRecordIsFresh_def memRecordIsFresh127_def)
  next
    case False
    with a have p: "0 < sint (mr7_AllocObjects r7)"
      by (auto simp: same_allocations_def)
    then have "i64_div (mr_AllocBytes r) (mr_AllocObjects r) = mr7_ObjectSize r7"
      using a by (simp add: same_allocations_def i64_div_def sdiv_product)
    with False p a show ?thesis
      by (auto simp: same_view_def same_allocations_def heap_key_def go123_ops_def go127_ops_def memRecordIsFresh_def
          memRecordIsFresh127_def memRecordBlockSize_def memRecordBlockSize127_def InUseObjects_def InUseObjects127_def)
  qed
qed

text \<open>
  C15. The two builds agree: on records that describe the same allocations in the two layouts, a call
  of \<^verbatim>\<open>HeapProfiler.Profile\<close> writes the same bytes and leaves the same state, or panics in both.
\<close>

theorem record_layouts_agree:
  assumes "list_all2 same_allocations p q"
  shows "HeapProfiler_Profile fo go123_ops env p rate d = HeapProfiler_Profile fo go127_ops env q rate d"
proof -
  have "list_all2 (same_view go123_ops go127_ops) p q"
    using assms same_allocations_view by (rule list_all2_mono)
  then show ?thesis
    unfolding HeapProfiler_Profile_def by (simp only: WriteHeapProto_same)
qed

definition example_mem123 :: "i64 \<Rightarrow> i64 \<Rightarrow> MemProfileRecord" where
  "example_mem123 a f = \<lparr>mr_AllocBytes = 16 * a, mr_FreeBytes = 16 * f, mr_AllocObjects = a, mr_FreeObjects = f, mr_Stack = [7, 9]\<rparr>"

theorem record_layouts_agree_witness:
  "HeapProfiler_Profile example_fo go123_ops example_env [example_mem123 5 2, example_mem123 0 0] 1 NewHeapProfiler =
   HeapProfiler_Profile example_fo go127_ops example_env [example_mem 5 2, example_mem 0 0] 1 NewHeapProfiler"
  by (rule record_layouts_agree) (simp add: same_allocations_def example_mem123_def example_mem_def)

end
