(* ===== verification/StackCollapse.thy ===== *)
theory StackCollapse
  imports ExampleRuntime LabelSets
begin

text \<open>
  The support code of the compatibility tests (\<^verbatim>\<open>godeltaprof/compat/stackcollapse.go\<close>): a parsed
  profile is collapsed to one line per stack, with the samples of equal stacks added up.

  A parsed sample is the list of its locations, each with the names of the functions of its lines, and its values.
  The collapse adds through the slices of the samples, so a slice of values is the index of its array in a store.
  \<^verbatim>\<open>sort.Slice\<close>, the parser of profiles and the matching of a regular expression that compiles are
  arguments.  Two lists of values are equal when their elements are; the code compares with
  \<^verbatim>\<open>reflect.DeepEqual\<close>, for which an empty and a nil slice differ.
\<close>

section \<open>Definitions\<close>

record gsample =
  gs_Location :: "string list list"
  gs_Value :: nat

type_synonym store = "i64 list list"

record stack =
  st_funcs :: "string list"
  st_line :: string
  st_value :: nat

text \<open>The loop that reverses the names in place.\<close>

definition swap_ends :: "nat \<Rightarrow> 'a list \<Rightarrow> 'a list" where
  "swap_ends i funcs = (let j = length funcs - i - 1 in funcs[i := funcs ! j, j := funcs ! i])"

definition reverse_loop :: "'a list \<Rightarrow> 'a list" where
  "reverse_loop funcs = fold swap_ends [0..<length funcs div 2] funcs"

text \<open>\<^verbatim>\<open>strings.Join\<close>\<close>

fun Join :: "string \<Rightarrow> string list \<Rightarrow> string" where
  "Join sep [] = []"
| "Join sep [s] = s"
| "Join sep (s # ss) = s @ sep @ Join sep ss"

definition pprofSampleStackToStrings :: "gsample \<Rightarrow> string list \<times> string" where
  "pprofSampleStackToStrings s = (let funcs = reverse_loop (concat (gs_Location s)) in (funcs, Join '';'' funcs))"

definition pprofSampleStackToString :: "gsample \<Rightarrow> string" where
  "pprofSampleStackToString s = (case pprofSampleStackToStrings s of (_, v) \<Rightarrow> v)"

text \<open>
  \<^verbatim>\<open>for i := range s.value\<close>: the slice \<open>d\<close> of the store gets the values of the slice
  \<open>s\<close> added, and a shorter \<open>d\<close> makes it panic.
\<close>

fun add_loop :: "nat \<Rightarrow> nat \<Rightarrow> nat \<Rightarrow> nat \<Rightarrow> store \<Rightarrow> store option" where
  "add_loop d s i 0 vs = Some vs"
| "add_loop d s i (Suc n) vs =
     (if i < length (vs ! d) then add_loop d s (Suc i) n (vs[d := (vs ! d)[i := vs ! d ! i + vs ! s ! i]]) else None)"

fun merge_loop :: "stack list \<Rightarrow> stack list \<Rightarrow> store \<Rightarrow> (stack list \<times> store) option" where
  "merge_loop unique [] vs = Some (unique, vs)"
| "merge_loop unique (s # ss) vs =
     (if length unique = 0 then merge_loop (unique @ [s]) ss vs
      else if st_line (last unique) = st_line s then
        (case add_loop (st_value (last unique)) (st_value s) 0 (length (vs ! st_value s)) vs of
           None \<Rightarrow> None
         | Some vs \<Rightarrow> merge_loop unique ss vs)
      else merge_loop (unique @ [s]) ss vs)"

definition stack_of :: "gsample \<Rightarrow> stack" where
  "stack_of s = (case pprofSampleStackToStrings s of (funcs, strSample) \<Rightarrow>
     \<lparr>st_funcs = funcs, st_line = strSample, st_value = gs_Value s\<rparr>)"

definition stackCollapseProfile :: "(stack list \<Rightarrow> stack list) \<Rightarrow> gsample list \<Rightarrow> store \<Rightarrow> (stack list \<times> store) option" where
  "stackCollapseProfile sort_Slice p vs = (let ret = map stack_of p in merge_loop [] (sort_Slice ret) vs)"

text \<open>What \<^verbatim>\<open>sort.Slice\<close> promises: a permutation in which no line comes before a smaller one.\<close>

definition sorts_lines :: "(stack list \<Rightarrow> stack list) \<Rightarrow> bool" where
  "sorts_lines sort_Slice \<longleftrightarrow>
     (\<forall>ret. mset (sort_Slice ret) = mset ret \<and> sorted_wrt (\<lambda>a b. \<not> st_line b < st_line a) (sort_Slice ret))"

fun findStack :: "(string \<Rightarrow> bool) \<Rightarrow> stack list \<Rightarrow> stack option" where
  "findStack matches [] = None"
| "findStack matches (r # res) = (if matches (st_line r) then Some r else findStack matches res)"

definition grepSamples :: "(string \<Rightarrow> bool) \<Rightarrow> gsample list \<Rightarrow> gsample list" where
  "grepSamples matches p = filter (\<lambda>s. matches (pprofSampleStackToString s)) p"

section \<open>The checks\<close>

text \<open>A check passes, marks the test as failed, or panics; \<open>parse\<close> is \<^verbatim>\<open>gprofile.Parse\<close>.\<close>

datatype outcome = Pass | Fail | Panic

definition expectEmptyProfile ::
    "(stack list \<Rightarrow> stack list) \<Rightarrow> (u8 list \<Rightarrow> (gsample list \<times> store) option) \<Rightarrow> u8 list \<Rightarrow> outcome" where
  "expectEmptyProfile sort_Slice parse buffer =
     (case parse buffer of
        None \<Rightarrow> Fail
      | Some (p, vs) \<Rightarrow>
          (case stackCollapseProfile sort_Slice p vs of
             None \<Rightarrow> Panic
           | Some (ls, _) \<Rightarrow> if ls = [] then Pass else Fail))"

definition expectNoStackFrames ::
    "(stack list \<Rightarrow> stack list) \<Rightarrow> (u8 list \<Rightarrow> (gsample list \<times> store) option) \<Rightarrow> u8 list \<Rightarrow> (string \<Rightarrow> bool) \<Rightarrow> outcome" where
  "expectNoStackFrames sort_Slice parse buffer matches =
     (case parse buffer of
        None \<Rightarrow> Fail
      | Some (p, vs) \<Rightarrow>
          (case stackCollapseProfile sort_Slice p vs of
             None \<Rightarrow> Panic
           | Some (ls, _) \<Rightarrow> if findStack matches ls = None then Pass else Fail))"

text \<open>The loop over the expected values goes on after a difference.\<close>

fun check_values :: "outcome \<Rightarrow> i64 list \<Rightarrow> nat \<Rightarrow> i64 list \<Rightarrow> outcome" where
  "check_values ok line i [] = ok"
| "check_values ok line i (v # vs) =
     (if i < length line then check_values (if v = line ! i then ok else Fail) line (Suc i) vs else Panic)"

definition expectStackFrames ::
    "(stack list \<Rightarrow> stack list) \<Rightarrow> (u8 list \<Rightarrow> (gsample list \<times> store) option) \<Rightarrow> u8 list \<Rightarrow> (string \<Rightarrow> bool) \<Rightarrow> i64 list \<Rightarrow> outcome" where
  "expectStackFrames sort_Slice parse buffer matches values =
     (case parse buffer of
        None \<Rightarrow> Fail
      | Some (p, vs) \<Rightarrow>
          (case stackCollapseProfile sort_Slice p vs of
             None \<Rightarrow> Panic
           | Some (ls, vs) \<Rightarrow>
               (case findStack matches ls of
                  None \<Rightarrow> Fail
                | Some line \<Rightarrow> check_values Pass (vs ! st_value line) 0 values)))"

definition expectPPROFLocations ::
    "(u8 list \<Rightarrow> (gsample list \<times> store) option) \<Rightarrow> u8 list \<Rightarrow> (string \<Rightarrow> bool) \<Rightarrow> nat \<Rightarrow> i64 list \<Rightarrow> outcome" where
  "expectPPROFLocations parse buffer matches expectedCount expectedValues =
     (case parse buffer of
        None \<Rightarrow> Fail
      | Some (p, vs) \<Rightarrow>
          (let samples = grepSamples matches p;
               cnt = length (filter (\<lambda>s. vs ! gs_Value s = expectedValues) samples) in
           if expectedCount = cnt then Pass else Fail))"

section \<open>The text of a stack\<close>

definition swapped :: "nat \<Rightarrow> 'a list \<Rightarrow> nat \<Rightarrow> 'a" where
  "swapped k xs i = (if i < k \<or> length xs \<le> i + k then xs ! (length xs - i - 1) else xs ! i)"

lemma fold_swap_ends:
  "k \<le> length xs div 2 \<Longrightarrow> fold swap_ends [0..<k] xs = map (swapped k xs) [0..<length xs]"
proof (induction k)
  case 0
  show ?case
    by (rule nth_equalityI) (simp_all add: swapped_def)
next
  case (Suc k)
  then have k: "Suc k \<le> length xs - Suc k" "k < length xs" "length xs - k - 1 < length xs"
    by simp_all
  have "fold swap_ends [0..<Suc k] xs = swap_ends k (map (swapped k xs) [0..<length xs])"
    using Suc by simp
  also have "\<dots> = map (swapped (Suc k) xs) [0..<length xs]"
    by (rule nth_equalityI) (use k in \<open>auto simp: swap_ends_def swapped_def Let_def nth_list_update\<close>)
  finally show ?case .
qed

lemma reverse_loop_rev: "reverse_loop xs = rev xs"
proof (rule nth_equalityI)
  fix i
  assume "i < length (reverse_loop xs)"
  then have i: "i < length xs"
    by (simp add: reverse_loop_def fold_swap_ends)
  have "\<not> (i < length xs div 2 \<or> length xs \<le> i + length xs div 2) \<Longrightarrow> length xs - i - 1 = i"
    by linarith
  then have "swapped (length xs div 2) xs i = xs ! (length xs - i - 1)"
    by (auto simp: swapped_def)
  with i show "reverse_loop xs ! i = rev xs ! i"
    by (simp add: reverse_loop_def fold_swap_ends rev_nth)
qed (simp add: reverse_loop_def fold_swap_ends)

definition stack_text :: "string list list \<Rightarrow> string" where
  "stack_text locs = Join '';'' (rev (concat locs))"

lemma stack_of_eq:
  "stack_of s = \<lparr>st_funcs = rev (concat (gs_Location s)), st_line = stack_text (gs_Location s), st_value = gs_Value s\<rparr>"
  by (simp add: stack_of_def pprofSampleStackToStrings_def reverse_loop_rev stack_text_def Let_def)

section \<open>Merging\<close>

lemma add_loop_sum:
  assumes "d \<noteq> s" and "d < length vs" and "length (vs ! d) = n" "i + k = n"
  shows "add_loop d s i k vs = Some (vs[d := map (\<lambda>j. if i \<le> j then vs ! d ! j + vs ! s ! j else vs ! d ! j) [0..<n]])"
  using assms
proof (induction k arbitrary: i vs)
  case 0
  have "vs ! d = map ((!) (vs ! d)) [0..<length (vs ! d)]"
    by (simp add: map_nth)
  then have "map (\<lambda>j. if i \<le> j then vs ! d ! j + vs ! s ! j else vs ! d ! j) [0..<n] = vs ! d"
    using 0 by (intro nth_equalityI) auto
  then show ?case
    by simp
next
  case (Suc k)
  let ?vs = "vs[d := (vs ! d)[i := vs ! d ! i + vs ! s ! i]]"
  have "add_loop d s (Suc i) k ?vs =
      Some (?vs[d := map (\<lambda>j. if Suc i \<le> j then ?vs ! d ! j + ?vs ! s ! j else ?vs ! d ! j) [0..<n]])"
    using Suc(3-) by (intro Suc(1)) (simp_all add: Suc(2))
  also have "map (\<lambda>j. if Suc i \<le> j then ?vs ! d ! j + ?vs ! s ! j else ?vs ! d ! j) [0..<n] =
      map (\<lambda>j. if i \<le> j then vs ! d ! j + vs ! s ! j else vs ! d ! j) [0..<n]"
    using Suc(2-) by (intro map_cong) (auto simp: nth_list_update not_less_eq_eq le_Suc_eq)
  finally show ?case
    using Suc(2-) by simp
qed

definition total :: "store \<Rightarrow> string \<Rightarrow> nat \<Rightarrow> stack list \<Rightarrow> i64" where
  "total vs l i xs = sum_list (map (\<lambda>x. vs ! st_value x ! i) (filter (\<lambda>x. st_line x = l) xs))"

lemma total_simps [simp]:
  "total vs l i [] = 0" "total vs l i (x # xs) = (if st_line x = l then vs ! st_value x ! i else 0) + total vs l i xs"
  "total vs l i (xs @ ys) = total vs l i xs + total vs l i ys"
  by (simp_all add: total_def)

lemma total_other: "d \<notin> st_value ` set xs \<Longrightarrow> total (vs[d := v]) l i xs = total vs l i xs"
  unfolding total_def by (intro arg_cong [of _ _ sum_list] map_cong refl) (metis filter_is_subset image_eqI nth_list_update_neq subsetD)

lemma total_single:
  assumes "distinct (map st_line xs)" and "x \<in> set xs"
  shows "total vs (st_line x) i xs = vs ! st_value x ! i"
proof -
  obtain ys zs where xs: "xs = ys @ x # zs"
    using assms(2) split_list by metis
  have "filter (\<lambda>y. st_line y = st_line x) ys = []" "filter (\<lambda>y. st_line y = st_line x) zs = []"
    using assms(1) unfolding xs by (auto simp: filter_empty_conv image_iff)
  then show ?thesis
    by (simp add: xs total_def)
qed

text \<open>The slices of values are different arrays of the store, all of the same length.\<close>

definition store_ok :: "nat \<Rightarrow> stack list \<Rightarrow> store \<Rightarrow> bool" where
  "store_ok n xs vs \<longleftrightarrow> distinct (map st_value xs) \<and> (\<forall>x \<in> set xs. st_value x < length vs \<and> length (vs ! st_value x) = n)"

definition lines_sorted :: "stack list \<Rightarrow> stack list \<Rightarrow> bool" where
  "lines_sorted unique ss \<longleftrightarrow> sorted_wrt (<) (map st_line unique) \<and> sorted (map st_line ss) \<and>
     (unique \<noteq> [] \<longrightarrow> (\<forall>s \<in> set ss. st_line (last unique) \<le> st_line s))"

lemma lines_sorted_snoc:
  assumes "lines_sorted unique (s # ss)" and "unique \<noteq> [] \<Longrightarrow> st_line (last unique) \<noteq> st_line s"
  shows "lines_sorted (unique @ [s]) ss"
proof (cases unique rule: rev_cases)
  case Nil
  with assms(1) show ?thesis
    by (simp add: lines_sorted_def)
next
  case (snoc us u)
  then have "st_line u < st_line s"
    using assms by (simp add: lines_sorted_def less_le)
  moreover have "st_line x < st_line u" if "x \<in> set us" for x
    using assms(1) that by (simp add: lines_sorted_def snoc sorted_wrt_append)
  ultimately have "\<forall>x \<in> set unique. st_line x < st_line s"
    unfolding snoc by (auto dest: less_trans)
  then show ?thesis
    using assms(1) by (simp add: lines_sorted_def sorted_wrt_append)
qed

lemma add_values_ok:
  assumes "store_ok n (unique @ s # ss) vs" and "unique \<noteq> []" and "st_line (last unique) = st_line s"
  shows "\<exists>vs'. add_loop (st_value (last unique)) (st_value s) 0 (length (vs ! st_value s)) vs = Some vs' \<and>
    store_ok n (unique @ ss) vs' \<and> (\<forall>l. \<forall>i < n. total vs' l i (unique @ ss) = total vs l i (unique @ s # ss))"
proof -
  obtain us u where u: "unique = us @ [u]"
    using assms(2) by (metis rev_exhaust)
  have ok: "st_value u \<noteq> st_value s" "st_value u < length vs" "length (vs ! st_value u) = n" "length (vs ! st_value s) = n"
    and fresh: "st_value u \<notin> st_value ` set us" "st_value u \<notin> st_value ` set ss"
    using assms(1) unfolding store_ok_def u by auto
  let ?v = "map (\<lambda>j. vs ! st_value u ! j + vs ! st_value s ! j) [0..<n]"
  have "add_loop (st_value u) (st_value s) 0 n vs = Some (vs[st_value u := ?v])"
    using add_loop_sum [OF ok(1,2,3), of 0 n] by simp
  moreover have "store_ok n (unique @ ss) (vs[st_value u := ?v])"
    using assms(1) by (simp add: store_ok_def nth_list_update [OF ok(2)])
  moreover have "total (vs[st_value u := ?v]) l i (unique @ ss) = total vs l i (unique @ s # ss)" if "i < n" for l i
    using that ok(2) assms(3) total_other [OF fresh(1)] total_other [OF fresh(2)] by (simp add: u)
  ultimately show ?thesis
    by (intro exI [of _ "vs[st_value u := ?v]"]) (simp add: u ok(4))
qed

lemma merge_loop_ok:
  assumes "store_ok n (unique @ ss) vs" and "lines_sorted unique ss"
  shows "\<exists>res vs'. merge_loop unique ss vs = Some (res, vs') \<and> sorted_wrt (<) (map st_line res) \<and>
    set (map st_line res) = set (map st_line (unique @ ss)) \<and>
    (\<forall>r \<in> set res. length (vs' ! st_value r) = n \<and> (\<forall>i < n. vs' ! st_value r ! i = total vs (st_line r) i (unique @ ss)))"
  using assms
proof (induction ss arbitrary: unique vs)
  case Nil
  then have "distinct (map st_line unique)"
    by (simp add: lines_sorted_def strict_sorted_iff)
  then show ?case
    using Nil total_single [of unique] by (auto simp: lines_sorted_def store_ok_def)
next
  case (Cons s ss)
  show ?case
  proof (cases "unique \<noteq> [] \<and> st_line (last unique) = st_line s")
    case True
    obtain vs1 where v: "add_loop (st_value (last unique)) (st_value s) 0 (length (vs ! st_value s)) vs = Some vs1"
        "store_ok n (unique @ ss) vs1" "\<And>l i. i < n \<Longrightarrow> total vs1 l i (unique @ ss) = total vs l i (unique @ s # ss)"
      using add_values_ok [OF Cons(2)] True by blast
    have "lines_sorted unique ss"
      using Cons(3) by (simp add: lines_sorted_def)
    moreover have "st_line s \<in> set (map st_line unique)"
      using True by (metis image_eqI last_in_set list.set_map)
    ultimately show ?thesis
      using Cons(1) [OF v(2)] True v(1,3) by (auto simp del: total_simps)
  next
    case False
    have "lines_sorted (unique @ [s]) ss"
      using lines_sorted_snoc [OF Cons(3)] False by blast
    moreover have "merge_loop unique (s # ss) vs = merge_loop (unique @ [s]) ss vs"
      using False by auto
    ultimately show ?thesis
      using Cons(1) [of "unique @ [s]" vs] Cons(2) by (simp del: total_simps)
  qed
qed

section \<open>What a collapsed profile shows\<close>

definition sample_total :: "gsample list \<Rightarrow> store \<Rightarrow> string \<Rightarrow> nat \<Rightarrow> i64" where
  "sample_total p vs l i = sum_list (map (\<lambda>s. vs ! gs_Value s ! i) (filter (\<lambda>s. stack_text (gs_Location s) = l) p))"

definition slices_ok :: "nat \<Rightarrow> gsample list \<Rightarrow> store \<Rightarrow> bool" where
  "slices_ok n p vs \<longleftrightarrow> distinct (map gs_Value p) \<and> (\<forall>s \<in> set p. gs_Value s < length vs \<and> length (vs ! gs_Value s) = n)"

lemma total_mset: "mset xs = mset ys \<Longrightarrow> total vs l i xs = total vs l i ys"
proof -
  assume "mset xs = mset ys"
  then have "mset (map (\<lambda>x. vs ! st_value x ! i) (filter (\<lambda>x. st_line x = l) xs)) =
      mset (map (\<lambda>x. vs ! st_value x ! i) (filter (\<lambda>x. st_line x = l) ys))"
    by simp
  then show ?thesis
    unfolding total_def sum_mset_sum_list [symmetric] by simp
qed

lemma total_stack_of: "total vs l i (map stack_of p) = sample_total p vs l i"
  by (simp add: total_def sample_total_def stack_of_eq filter_map comp_def)

lemma collapse_sums:
  assumes "sorts_lines sort_Slice" and "slices_ok n p vs"
  shows "\<exists>res vs'. stackCollapseProfile sort_Slice p vs = Some (res, vs') \<and> sorted_wrt (<) (map st_line res) \<and>
    set (map st_line res) = (\<lambda>s. stack_text (gs_Location s)) ` set p \<and>
    (\<forall>r \<in> set res. vs' ! st_value r = map (sample_total p vs (st_line r)) [0..<n])"
proof -
  let ?ret = "sort_Slice (map stack_of p)"
  have m: "mset ?ret = mset (map stack_of p)" and "sorted_wrt (\<lambda>a b. \<not> st_line b < st_line a) ?ret"
    using assms(1) by (simp_all add: sorts_lines_def)
  then have "lines_sorted [] ?ret"
    by (simp add: lines_sorted_def sorted_map not_less)
  moreover have st: "set ?ret = stack_of ` set p"
    using mset_eq_setD [OF m] by simp
  have "mset (map st_value ?ret) = mset (map gs_Value p)"
    using m by (simp add: stack_of_eq image_mset.compositionality comp_def)
  then have "distinct (map st_value ?ret)"
    using assms(2) mset_eq_imp_distinct_iff unfolding slices_ok_def by blast
  then have "store_ok n ([] @ ?ret) vs"
    using assms(2) st by (auto simp: store_ok_def slices_ok_def stack_of_eq)
  ultimately obtain res vs' where r: "merge_loop [] ?ret vs = Some (res, vs')" "sorted_wrt (<) (map st_line res)"
      "set (map st_line res) = st_line ` set ?ret"
      "\<forall>r \<in> set res. length (vs' ! st_value r) = n \<and> (\<forall>i < n. vs' ! st_value r ! i = total vs (st_line r) i ?ret)"
    using merge_loop_ok [of n "[]" ?ret vs] by auto
  have "total vs l i ?ret = sample_total p vs l i" for l i
    using total_mset [OF m] by (simp add: total_stack_of)
  with r(4) have "\<forall>r \<in> set res. vs' ! st_value r = map (sample_total p vs (st_line r)) [0..<n]"
    by (auto intro!: nth_equalityI)
  with r(1-3) show ?thesis
    by (auto simp: stackCollapseProfile_def st stack_of_eq image_image Let_def)
qed

text \<open>
  Collapsing a profile never panics when its samples have the same number of values, whichever permutation
  the sort returns: one line per text of a stack, in increasing order, with the sums of the values of all its samples.
\<close>

theorem stackCollapseProfile_sums:
  assumes "sorts_lines sort_Slice" and "slices_ok n p vs"
  shows "\<exists>res vs'. stackCollapseProfile sort_Slice p vs = Some (res, vs') \<and> sorted_wrt (<) (map st_line res) \<and>
    set (map st_line res) = (\<lambda>s. stack_text (gs_Location s)) ` set p \<and>
    (\<forall>r \<in> set res. vs' ! st_value r = map (sample_total p vs (st_line r)) [0..<n])"
  using assms by (rule collapse_sums)

lemma findStack_unique:
  assumes "\<forall>r \<in> set res. matches (st_line r) \<longleftrightarrow> st_line r = l"
  shows "findStack matches res = (if l \<in> set (map st_line res) then find (\<lambda>r. st_line r = l) res else None)"
  using assms by (induction res) auto

lemma findStack_found:
  assumes "\<forall>r \<in> set res. matches (st_line r) \<longleftrightarrow> st_line r = l" and "l \<in> set (map st_line res)"
  shows "\<exists>r. findStack matches res = Some r \<and> r \<in> set res \<and> st_line r = l"
  using assms by (induction res) auto

lemma check_values_eq:
  "i + length vs \<le> length line \<Longrightarrow> ok \<noteq> Panic \<Longrightarrow>
   check_values ok line i vs = (if vs = take (length vs) (drop i line) then ok else Fail)"
proof (induction vs arbitrary: ok i)
  case (Cons v vs)
  then have "drop i line = line ! i # drop (Suc i) line"
    by (simp add: Cons_nth_drop_Suc)
  with Cons show ?case
    by auto
qed simp

section \<open>The checks on a delta profile\<close>

text \<open>The text that a stack has in a profile of the builder.\<close>

definition sample_text :: "runtime_env \<Rightarrow> uintptr list \<Rightarrow> string" where
  "sample_text rt stk = stack_text (map (\<lambda>g. map fst (group_lines rt g)) (stack_groups rt stk))"

definition text_total :: "runtime_env \<Rightarrow> sample list \<Rightarrow> string \<Rightarrow> nat \<Rightarrow> i64" where
  "text_total rt xs l i = sum_list (map (\<lambda>(vs, stk, n). vs ! i) (filter (\<lambda>(vs, stk, n). sample_text rt stk = l) xs))"

text \<open>
  What the parser of profiles promises: the samples of a profile whose locations are all there, each with an array of its own.
  The samples are those that the decoder reads, which inverts the encoding of the profile format.
\<close>

definition resolved :: "profile_msg list \<Rightarrow> bool" where
  "resolved P \<longleftrightarrow> (\<forall>(v, locs, lb) \<in> set (read_profile P). None \<notin> set locs)"

definition parses_profiles :: "(u8 list \<Rightarrow> (gsample list \<times> store) option) \<Rightarrow> bool" where
  "parses_profiles parse \<longleftrightarrow>
     (\<forall>out P. dec_profile out = Some P \<and> resolved P \<longrightarrow>
        (\<exists>p vs. parse out = Some (p, vs) \<and> distinct (map gs_Value p) \<and> (\<forall>s \<in> set p. gs_Value s < length vs) \<and>
           map (\<lambda>s. (vs ! gs_Value s, map (\<lambda>l. Some l) (gs_Location s))) p =
           map (\<lambda>(v, locs, lb). (v, map (map_option (map fst)) locs)) (read_profile P)))"

lemma parsed_totals:
  assumes "map (\<lambda>s. (vs ! gs_Value s, map Some (gs_Location s))) p =
    map (\<lambda>(v, locs, lb). (v, map (map_option (map fst)) locs)) (expected_profile rt xs)"
  shows "sample_total p vs l i = text_total rt xs l i"
    and "(\<lambda>s. stack_text (gs_Location s)) ` set p = (\<lambda>(v, stk, n). sample_text rt stk) ` set xs"
    and "(\<lambda>s. length (vs ! gs_Value s)) ` set p = (\<lambda>(v, stk, n). length v) ` set xs"
proof -
  have e: "map (\<lambda>s. (vs ! gs_Value s, gs_Location s)) p =
      map (\<lambda>(v, stk, n). (v, map (\<lambda>g. map fst (group_lines rt g)) (stack_groups rt stk))) xs"
  proof (rule nth_equalityI)
    show len: "length (map (\<lambda>s. (vs ! gs_Value s, gs_Location s)) p) =
        length (map (\<lambda>(v, stk, n). (v, map (\<lambda>g. map fst (group_lines rt g)) (stack_groups rt stk))) xs)"
      using arg_cong [OF assms, of length] by (simp add: expected_profile_def)
    fix k
    assume k: "k < length (map (\<lambda>s. (vs ! gs_Value s, gs_Location s)) p)"
    have "(vs ! gs_Value (p ! k), map Some (gs_Location (p ! k))) =
        (case xs ! k of (v, stk, n) \<Rightarrow> (v, map Some (map (\<lambda>g. map fst (group_lines rt g)) (stack_groups rt stk))))"
      using arg_cong [OF assms, of "\<lambda>ys. ys ! k"] k len by (simp add: expected_profile_def comp_def case_prod_beta)
    then have "vs ! gs_Value (p ! k) = fst (xs ! k) \<and>
        gs_Location (p ! k) = map (\<lambda>g. map fst (group_lines rt g)) (stack_groups rt (fst (snd (xs ! k))))"
      unfolding case_prod_beta by (simp only: prod.inject inj_map_eq_map [OF inj_Some])
    then show "map (\<lambda>s. (vs ! gs_Value s, gs_Location s)) p ! k =
        map (\<lambda>(v, stk, n). (v, map (\<lambda>g. map fst (group_lines rt g)) (stack_groups rt stk))) xs ! k"
      using k len by (simp add: case_prod_beta)
  qed
  have "sum_list (map (\<lambda>(v, locs). v ! i) (filter (\<lambda>(v, locs). stack_text locs = l) (map (\<lambda>s. (vs ! gs_Value s, gs_Location s)) p))) =
      text_total rt xs l i"
    unfolding e by (simp add: text_total_def sample_text_def filter_map comp_def case_prod_unfold)
  then show "sample_total p vs l i = text_total rt xs l i"
    by (simp add: sample_total_def filter_map comp_def)
  show "(\<lambda>s. stack_text (gs_Location s)) ` set p = (\<lambda>(v, stk, n). sample_text rt stk) ` set xs"
    using arg_cong [OF e, of "\<lambda>ys. (\<lambda>(v, locs). stack_text locs) ` set ys"]
    by (simp add: image_image sample_text_def case_prod_beta)
  show "(\<lambda>s. length (vs ! gs_Value s)) ` set p = (\<lambda>(v, stk, n). length v) ` set xs"
    using arg_cong [OF e, of "\<lambda>ys. (\<lambda>(v, locs). length v) ` set ys"] by (simp add: image_image case_prod_beta)
qed

text \<open>
  When a pattern matches the text of one stack only, the check passes exactly when the expected values are the sums, over
  all samples of the profile with that text; it neither panics nor depends on the order of equal elements that the sort picks.
\<close>

lemma expectStackFrames_shows:
  assumes "sorts_lines sort_Slice" and "parses_profiles parse" and "profile_of rt out xs"
    and "\<forall>(v, stk, b) \<in> set xs. length v = n \<and> (matches (sample_text rt stk) \<longleftrightarrow> sample_text rt stk = l)"
    and "(v0, stk0, b0) \<in> set xs" "sample_text rt stk0 = l" and "length values \<le> n"
  shows "expectStackFrames sort_Slice parse out matches values =
    (if values = take (length values) (map (text_total rt xs l) [0..<n]) then Pass else Fail)"
proof -
  obtain P where P: "dec_profile out = Some P" "read_profile P = expected_profile rt xs"
    using assms(3) by (auto simp: profile_of_def)
  then have rs: "resolved P"
    by (auto simp: resolved_def expected_profile_def)
  obtain p vs where p: "parse out = Some (p, vs)" "distinct (map gs_Value p)" "\<forall>s \<in> set p. gs_Value s < length vs"
      "map (\<lambda>s. (vs ! gs_Value s, map Some (gs_Location s))) p =
       map (\<lambda>(v, locs, lb). (v, map (map_option (map fst)) locs)) (expected_profile rt xs)"
    using assms(2) P(1) rs unfolding parses_profiles_def P(2) [symmetric] by blast
  note tot = parsed_totals [OF p(4)]
  have "(\<lambda>(v, stk, n). length v) ` set xs \<subseteq> {n}"
    using assms(4) by auto
  then have "slices_ok n p vs"
    using p(2,3) unfolding slices_ok_def tot(3) [symmetric] by blast
  then obtain res vs' where r: "stackCollapseProfile sort_Slice p vs = Some (res, vs')"
      "set (map st_line res) = (\<lambda>s. stack_text (gs_Location s)) ` set p"
      "\<forall>r \<in> set res. vs' ! st_value r = map (sample_total p vs (st_line r)) [0..<n]"
    using collapse_sums [OF assms(1)] by blast
  have lines: "set (map st_line res) = (\<lambda>(v, stk, n). sample_text rt stk) ` set xs"
    using r(2) tot(2) by simp
  have "matches t \<longleftrightarrow> t = l" if "t \<in> (\<lambda>(v, stk, n). sample_text rt stk) ` set xs" for t
    using that assms(4) by auto
  then have "\<forall>r \<in> set res. matches (st_line r) \<longleftrightarrow> st_line r = l"
    unfolding lines [symmetric] by simp
  moreover have "l \<in> set (map st_line res)"
    unfolding lines using assms(5,6) by force
  ultimately obtain f where f: "findStack matches res = Some f" "f \<in> set res" "st_line f = l"
    using findStack_found by metis
  have "vs' ! st_value f = map (text_total rt xs l) [0..<n]"
    using r(3) f(2,3) tot(1) [of l] by (auto intro!: nth_equalityI)
  then show ?thesis
    using check_values_eq [of 0 "values" "map (text_total rt xs l) [0..<n]" Pass] assms(7)
    by (simp add: expectStackFrames_def p(1) r(1) f(1))
qed

text \<open>
  The collapse writes the sums through the slices of the first samples, so collapsing a profile again counts the
  samples that were merged a second time.
\<close>

definition example_samples :: "gsample list" where
  "example_samples = [\<lparr>gs_Location = [[''f''], [''g'', ''main'']], gs_Value = 0\<rparr>, \<lparr>gs_Location = [[''f'', ''g''], [''main'']], gs_Value = 1\<rparr>]"

lemma collapse_again_differs:
  "(case stackCollapseProfile (\<lambda>x. x) example_samples [[3], [4]] of
      Some (res, vs) \<Rightarrow> map (\<lambda>r. (st_line r, vs ! st_value r)) res = [(''main;g;f'', [7])] \<and>
        (case stackCollapseProfile (\<lambda>x. x) example_samples vs of
           Some (res, vs) \<Rightarrow> map (\<lambda>r. (st_line r, vs ! st_value r)) res = [(''main;g;f'', [11])]
         | None \<Rightarrow> False)
    | None \<Rightarrow> False)"
  by (simp add: stackCollapseProfile_def example_samples_def stack_of_eq stack_text_def)

section \<open>A witness\<close>

text \<open>A profile of two samples with the same text, and a parser made of the decoder.\<close>

definition example_msgs :: "profile_msg list" where
  "example_msgs = [MString [], MSample [3, 5] [1] None, MSample [4, 6] [2] None, MLocation 1 7 [(1, 7)] 0, MLocation 2 9 [(1, 7)] 0,
     MFunction 1 ''main.work'' ''main.work'' ''main.go'' 1, MString ''main.work'', MString ''main.go'']"

definition example_out :: "u8 list" where
  "example_out = enc_msgs (idx (msgs_table example_msgs)) example_msgs"

definition example_xs :: "sample list" where
  "example_xs = [([3, 5], [7], 0), ([4, 6], [9], 0)]"

definition example_parse :: "u8 list \<Rightarrow> (gsample list \<times> store) option" where
  "example_parse out =
     (case dec_profile out of
        None \<Rightarrow> None
      | Some P \<Rightarrow> (let rd = read_profile P in
          Some (map (\<lambda>k. \<lparr>gs_Location = map (\<lambda>l. map fst (the l)) (fst (snd (rd ! k))), gs_Value = k\<rparr>) [0..<length rd],
            map fst rd)))"

lemma enc_varint_small: "n < 128 \<Longrightarrow> enc_varint n = [word_of_nat n]"
  by (subst enc_varint.simps) simp

lemma example_table: "msgs_table example_msgs = [[], ''main.work'', ''main.go'']"
  by (simp add: example_msgs_def)

lemma example_profile: "profile_of example_rt example_out example_xs"
proof -
  have "length example_out < 2 ^ 64"
    unfolding example_out_def example_table
    by (simp add: example_msgs_def enc_fields_def enc_varint_small rep_fields_def num_field_def ref_field_def opt_field_def
        label_fields_def line_fields_def line_body_def idx_def bytes_of_def)
  then have "dec_profile example_out = Some (filter visible example_msgs)"
    unfolding example_out_def
    by (rule dec_profile_enc [rotated 4]) (simp_all add: example_table, simp_all add: example_msgs_def)
  moreover have "read_profile (filter visible example_msgs) = expected_profile example_rt example_xs"
    by (simp add: example_msgs_def read_profile_def expected_profile_def example_xs_def resolve_loc_def resolve_line_def
        func_names_def sample_label_def)
  ultimately show ?thesis
    by (auto simp: profile_of_def)
qed

lemma map_Some_the: "None \<notin> set xs \<Longrightarrow> map Some (map (\<lambda>x. f (the x)) xs) = map (map_option f) xs"
proof (induction xs)
  case (Cons x xs)
  then show ?case
    by (cases x) simp_all
qed simp

lemma example_parses: "parses_profiles example_parse"
  unfolding parses_profiles_def
proof (intro allI impI, elim conjE)
  fix out P
  assume d: "dec_profile out = Some P" and r: "resolved P"
  define rd where "rd = read_profile P"
  define p where "p = map (\<lambda>k. \<lparr>gs_Location = map (\<lambda>l. map fst (the l)) (fst (snd (rd ! k))), gs_Value = k\<rparr>) [0..<length rd]"
  have "map Some (map (\<lambda>l. map fst (the l)) (fst (snd (rd ! k)))) = map (map_option (map fst)) (fst (snd (rd ! k)))"
    if "k < length rd" for k
  proof -
    have "rd ! k \<in> set (read_profile P)"
      using that unfolding rd_def by (rule nth_mem)
    with r have "None \<notin> set (fst (snd (rd ! k)))"
      unfolding resolved_def by (cases "rd ! k") fastforce
    then show ?thesis
      by (rule map_Some_the)
  qed
  then have "map (\<lambda>s. (map fst rd ! gs_Value s, map Some (gs_Location s))) p =
      map (\<lambda>(v, locs, lb). (v, map (map_option (map fst)) locs)) rd"
    by (intro nth_equalityI) (simp_all add: p_def case_prod_beta)
  moreover have "distinct (map gs_Value p)" "\<forall>s \<in> set p. gs_Value s < length (map fst rd)"
    by (simp_all add: p_def comp_def)
  moreover have "example_parse out = Some (p, map fst rd)"
    by (simp add: example_parse_def d p_def rd_def Let_def)
  ultimately show "\<exists>p vs. example_parse out = Some (p, vs) \<and> distinct (map gs_Value p) \<and> (\<forall>s \<in> set p. gs_Value s < length vs) \<and>
      map (\<lambda>s. (vs ! gs_Value s, map Some (gs_Location s))) p =
      map (\<lambda>(v, locs, lb). (v, map (map_option (map fst)) locs)) (read_profile P)"
    unfolding rd_def by blast
qed

lemma example_sorts: "sorts_lines (sort_key st_line)"
  using sorted_sort_key [of "st_line :: stack \<Rightarrow> string"] by (simp add: sorts_lines_def not_less sorted_map)

lemma strict_singleton: "sorted_wrt (<) xs \<Longrightarrow> set xs = {a :: string} \<Longrightarrow> xs = [a]"
  by (cases xs; cases "tl xs") auto

lemma example_text: "sample_text example_rt [a] = ''main.work''"
  by (simp add: sample_text_def stack_text_def)

lemma example_check:
  "expectStackFrames (sort_key st_line) example_parse example_out (\<lambda>l. l = ''main.work'') [7, 11] = Pass \<and>
   expectStackFrames (sort_key st_line) example_parse example_out (\<lambda>l. l = ''main.work'') [7, 12] = Fail"
proof -
  have "expectStackFrames (sort_key st_line) example_parse example_out (\<lambda>l. l = ''main.work'') [7, v] =
      (if [7, v] = take 2 (map (text_total example_rt example_xs ''main.work'') [0..<2]) then Pass else Fail)" for v
    using expectStackFrames_shows [OF example_sorts example_parses example_profile, of 2 "\<lambda>l. l = ''main.work''" "''main.work''"
        "[3, 5]" "[7]" 0 "[7, v]"]
    by (simp add: example_xs_def example_text)
  moreover have "map (text_total example_rt example_xs ''main.work'') [0..<2] = [7, 11]"
    by (simp add: text_total_def example_xs_def example_text upt_rec)
  ultimately show ?thesis
    by simp
qed

theorem stackCollapseProfile_sums_witness:
  "\<exists>res vs'. stackCollapseProfile (sort_key st_line) example_samples [[3], [4]] = Some (res, vs') \<and>
    map st_line res = [''main;g;f''] \<and> map (\<lambda>r. vs' ! st_value r) res = [[7]]"
proof -
  have "slices_ok 1 example_samples [[3], [4]]"
    by (simp add: slices_ok_def example_samples_def)
  from stackCollapseProfile_sums [OF example_sorts this] obtain res vs' where
    r: "stackCollapseProfile (sort_key st_line) example_samples [[3], [4]] = Some (res, vs')" "sorted_wrt (<) (map st_line res)"
      "set (map st_line res) = {''main;g;f''}"
      "\<forall>r \<in> set res. vs' ! st_value r = map (sample_total example_samples [[3], [4]] (st_line r)) [0..<1]"
    by (auto simp: example_samples_def stack_text_def)
  then have "map st_line res = [''main;g;f'']"
    by (intro strict_singleton)
  then show ?thesis
    using r(1,4) by (cases res) (auto simp: sample_total_def example_samples_def stack_text_def)
qed

end
