(* ===== verification/TestHelpers.thy ===== *)
theory TestHelpers
  imports RecordLayouts StackCollapse
begin

text \<open>
  The helpers of the compatibility tests and benchmarks (\<^verbatim>\<open>godeltaprof/compat/testdata.go\<close>,
  \<^verbatim>\<open>testdata_go123.go\<close>, \<^verbatim>\<open>testdata_go127.go\<close>): they own a delta profiler, make
  records, change them at random and dump profiles; and the builder that does nothing, the second implementation of the
  interface of builders.

  A source of random numbers is a function \<open>Int63\<close> on its state, a table of function addresses is an
  argument, and a division by zero or an index out of range is \<^const>\<open>None\<close>.  The buffer of a dump is kept as the
  bytes that the gzip writer was given.
\<close>

section \<open>The builder that does nothing\<close>

definition noop_ops :: "unit builder_ops" where
  "noop_ops = \<lparr>op_LocsForStack = (\<lambda>stk b. Some ([], b)), op_Sample = (\<lambda>values locs blockSize b. Some b), op_Build = Some\<rparr>"

interpretation noop: profile_builder noop_ops "\<lambda>b xs. True" "\<lambda>b xs. True" "\<lambda>b stk locs. locs = []" "\<lambda>stk. True" "\<lambda>stk. True"
  by unfold_locales (simp_all add: noop_ops_def)

section \<open>Dumps\<close>

definition compat_WriteHeapProto :: "'f float64_ops \<Rightarrow> 'r memRecord_ops \<Rightarrow> prof_env \<Rightarrow> DeltaHeapProfiler \<Rightarrow> ProfileBuilderOptions \<Rightarrow>
    'r list \<Rightarrow> i64 \<Rightarrow> (u8 list \<times> DeltaHeapProfiler \<times> ProfileBuilderOptions) option" where
  "compat_WriteHeapProto fo mo env dp opt p rate =
     (let stc = HeapProfileConfig rate;
          zw = \<lparr>zw_written = [], zw_closed = False\<rparr> in
      do {
        b \<leftarrow> NewProfileBuilder (en_start env) (en_readMapping env) zw opt stc;
        (dp, b) \<leftarrow> WriteHeapProto fo mo (en_funcForPC env) (proto_ops (en_rt env) (en_end env)) p rate dp b;
        Some (zw_written (bd_zw b), dp, bd_opt b)
      })"


record 'g mutexTestHelper =
  mth_dp :: DeltaMutexProfiler
  mth_opt :: ProfileBuilderOptions
  mth_scaler :: MutexProfileScaler
  mth_rng :: 'g

record 'g heapTestHelper =
  hth_dp :: DeltaHeapProfiler
  hth_opt :: ProfileBuilderOptions
  hth_rate :: i64
  hth_rng :: 'g

definition newMutexTestHelper :: "(i64 \<Rightarrow> 'g) \<Rightarrow> 'g mutexTestHelper" where
  "newMutexTestHelper NewSource = \<lparr>mth_dp = pm_empty mutex_zero,
     mth_opt = \<lparr>opt_GenericsFrames = True, opt_LazyMapping = True, opt_mem = None\<rparr>,
     mth_scaler = (), mth_rng = NewSource 239\<rparr>"

definition newHeapTestHelper :: "(i64 \<Rightarrow> 'g) \<Rightarrow> i64 \<Rightarrow> 'g heapTestHelper" where
  "newHeapTestHelper NewSource MemProfileRate = \<lparr>hth_dp = pm_empty heap_zero,
     hth_opt = \<lparr>opt_GenericsFrames = True, opt_LazyMapping = True, opt_mem = None\<rparr>,
     hth_rate = MemProfileRate, hth_rng = NewSource 239\<rparr>"




definition hth_dump :: "'f float64_ops \<Rightarrow> 'r memRecord_ops \<Rightarrow> prof_env \<Rightarrow> 'r list \<Rightarrow> 'g heapTestHelper \<Rightarrow>
    (u8 list \<times> 'g heapTestHelper) option" where
  "hth_dump fo mo env r h =
     (case compat_WriteHeapProto fo mo env (hth_dp h) (hth_opt h) r (hth_rate h) of
        None \<Rightarrow> None
      | Some (buf, d, opt) \<Rightarrow> Some (buf, h\<lparr>hth_dp := d, hth_opt := opt\<rparr>))"

section \<open>Records\<close>

text \<open>The stack before the first zero of an array.\<close>

fun stackFromArray_loop :: "uintptr list \<Rightarrow> nat \<Rightarrow> uintptr list \<Rightarrow> uintptr list" where
  "stackFromArray_loop s i [] = s"
| "stackFromArray_loop s i (v # vs) = (if v = 0 then take i s else stackFromArray_loop s (i + 1) vs)"

definition stackFromArray :: "uintptr list \<Rightarrow> uintptr list" where
  "stackFromArray s = stackFromArray_loop s 0 s"


definition hth_r :: "i64 \<Rightarrow> i64 \<Rightarrow> i64 \<Rightarrow> i64 \<Rightarrow> uintptr list \<Rightarrow> MemProfileRecord" where
  "hth_r allocObjects allocBytes freeObjects freeBytes s =
     \<lparr>mr_AllocBytes = allocBytes, mr_FreeBytes = freeBytes, mr_AllocObjects = allocObjects, mr_FreeObjects = freeObjects,
      mr_Stack = stackFromArray s\<rparr>"

definition hth_r127 :: "i64 \<Rightarrow> i64 \<Rightarrow> i64 \<Rightarrow> i64 \<Rightarrow> uintptr list \<Rightarrow> MemProfileRecord127" where
  "hth_r127 allocObjects allocBytes freeObjects freeBytes s =
     (let size = (if 0 < sint allocObjects then i64_div allocBytes allocObjects
                  else if 0 < sint freeObjects then i64_div freeBytes freeObjects else 0) in
      \<lparr>mr7_ObjectSize = size, mr7_AllocObjects = allocObjects, mr7_FreeObjects = freeObjects, mr7_Stack = stackFromArray s\<rparr>)"

section \<open>Random records\<close>

text \<open>
  \<^verbatim>\<open>int(uint64(rng.Int63())) % n\<close>, as a number and as an index.  The remainder of Go has the sign of the
  dividend.
\<close>

definition rand_mod :: "i64 \<Rightarrow> int \<Rightarrow> i64" where
  "rand_mod x n = word_of_int (sint x smod n)"

definition rand_index :: "i64 \<Rightarrow> nat \<Rightarrow> nat option" where
  "rand_index x n =
     (if n = 0 then None
      else if sint x smod int n < 0 then None
      else Some (nat (sint x smod int n)))"

fun random_stack :: "('g \<Rightarrow> i64 \<times> 'g) \<Rightarrow> uintptr list \<Rightarrow> nat \<Rightarrow> 'g \<Rightarrow> (uintptr list \<times> 'g) option" where
  "random_stack Int63 fs 0 g = Some ([], g)"
| "random_stack Int63 fs (Suc depth) g =
     (case Int63 g of (x, g) \<Rightarrow>
       (case rand_index x (length fs) of
          None \<Rightarrow> None
        | Some i \<Rightarrow> map_option (\<lambda>(stack, g). (fs ! i # stack, g)) (random_stack Int63 fs depth g)))"

text \<open>The loop over the records, for a function that makes a record of a number of objects and a stack.\<close>

fun generate_loop :: "(i64 \<Rightarrow> uintptr list \<Rightarrow> 'r) \<Rightarrow> ('g \<Rightarrow> i64 \<times> 'g) \<Rightarrow> uintptr list \<Rightarrow> nat \<Rightarrow> nat \<Rightarrow> 'g \<Rightarrow> ('r list \<times> 'g) option" where
  "generate_loop record_of Int63 fs 0 depth g = Some ([], g)"
| "generate_loop record_of Int63 fs (Suc n) depth g =
     (case Int63 g of (x, g) \<Rightarrow>
       (let nobj = rand_mod x 1000000 in
        case random_stack Int63 fs depth g of
          None \<Rightarrow> None
        | Some (stack, g) \<Rightarrow>
            map_option (\<lambda>(records, g). (record_of nobj stack # records, g)) (generate_loop record_of Int63 fs n depth g)))"

definition generateMemProfileRecords :: "('g \<Rightarrow> i64 \<times> 'g) \<Rightarrow> uintptr list \<Rightarrow> nat \<Rightarrow> nat \<Rightarrow> 'g heapTestHelper \<Rightarrow>
    (MemProfileRecord list \<times> 'g heapTestHelper) option" where
  "generateMemProfileRecords Int63 fs n depth h =
     map_option (\<lambda>(records, g). (records, h\<lparr>hth_rng := g\<rparr>))
       (generate_loop (\<lambda>nobj stack. \<lparr>mr_AllocBytes = nobj * 1024, mr_FreeBytes = nobj * 1024, mr_AllocObjects = nobj,
           mr_FreeObjects = nobj, mr_Stack = stack\<rparr>) Int63 fs n depth (hth_rng h))"

definition generateMemProfileRecords127 :: "('g \<Rightarrow> i64 \<times> 'g) \<Rightarrow> uintptr list \<Rightarrow> nat \<Rightarrow> nat \<Rightarrow> 'g heapTestHelper \<Rightarrow>
    (MemProfileRecord127 list \<times> 'g heapTestHelper) option" where
  "generateMemProfileRecords127 Int63 fs n depth h =
     map_option (\<lambda>(records, g). (records, h\<lparr>hth_rng := g\<rparr>))
       (generate_loop (\<lambda>nobj stack. \<lparr>mr7_ObjectSize = 1024, mr7_AllocObjects = nobj, mr7_FreeObjects = nobj, mr7_Stack = stack\<rparr>)
          Int63 fs n depth (hth_rng h))"

definition generateBlockProfileRecords :: "('g \<Rightarrow> i64 \<times> 'g) \<Rightarrow> uintptr list \<Rightarrow> nat \<Rightarrow> nat \<Rightarrow> 'g mutexTestHelper \<Rightarrow>
    (BlockProfileRecord list \<times> 'g mutexTestHelper) option" where
  "generateBlockProfileRecords Int63 fs n depth h =
     map_option (\<lambda>(records, g). (records, h\<lparr>mth_rng := g\<rparr>))
       (generate_loop (\<lambda>nobj stack. \<lparr>br_Count = nobj, br_Cycles = nobj * 10, br_Stack = stack\<rparr>) Int63 fs n depth (mth_rng h))"

section \<open>Mutations\<close>

fun mutate_loop :: "('r \<Rightarrow> 'r) \<Rightarrow> ('g \<Rightarrow> i64 \<times> 'g) \<Rightarrow> nat \<Rightarrow> 'r list \<Rightarrow> 'g \<Rightarrow> ('r list \<times> 'g) option" where
  "mutate_loop change Int63 0 fs g = Some (fs, g)"
| "mutate_loop change Int63 (Suc n) fs g =
     (case Int63 g of (x, g) \<Rightarrow>
       (case rand_index x (length fs) of
          None \<Rightarrow> None
        | Some k \<Rightarrow> mutate_loop change Int63 n (fs[k := change (fs ! k)]) g))"

definition mth_mutate :: "('g \<Rightarrow> i64 \<times> 'g) \<Rightarrow> nat \<Rightarrow> BlockProfileRecord list \<Rightarrow> 'g mutexTestHelper \<Rightarrow>
    (BlockProfileRecord list \<times> 'g mutexTestHelper) option" where
  "mth_mutate Int63 nmutations fs h =
     (if fs = [] \<or> br_Count (fs ! 0) = 0 then None
      else
        (let oneBlockCycles = i64_div (br_Cycles (fs ! 0)) (br_Count (fs ! 0)) in
         map_option (\<lambda>(fs, g). (fs, h\<lparr>mth_rng := g\<rparr>))
           (mutate_loop (\<lambda>r. r\<lparr>br_Count := br_Count r + 1, br_Cycles := br_Cycles r + oneBlockCycles\<rparr>)
              Int63 nmutations fs (mth_rng h))))"

definition hth_mutate :: "('g \<Rightarrow> i64 \<times> 'g) \<Rightarrow> nat \<Rightarrow> MemProfileRecord list \<Rightarrow> 'g heapTestHelper \<Rightarrow>
    (MemProfileRecord list \<times> 'g heapTestHelper) option" where
  "hth_mutate Int63 nmutations fs h =
     (if fs = [] \<or> mr_AllocObjects (fs ! 0) = 0 then None
      else
        (let objSize = i64_div (mr_AllocBytes (fs ! 0)) (mr_AllocObjects (fs ! 0)) in
         map_option (\<lambda>(fs, g). (fs, h\<lparr>hth_rng := g\<rparr>))
           (mutate_loop (\<lambda>r. r\<lparr>mr_AllocObjects := mr_AllocObjects r + 1, mr_AllocBytes := mr_AllocBytes r + objSize,
                mr_FreeObjects := mr_FreeObjects r + 1, mr_FreeBytes := mr_FreeBytes r + objSize\<rparr>)
              Int63 nmutations fs (hth_rng h))))"

definition hth_mutate127 :: "('g \<Rightarrow> i64 \<times> 'g) \<Rightarrow> nat \<Rightarrow> MemProfileRecord127 list \<Rightarrow> 'g heapTestHelper \<Rightarrow>
    (MemProfileRecord127 list \<times> 'g heapTestHelper) option" where
  "hth_mutate127 Int63 nmutations fs h =
     map_option (\<lambda>(fs, g). (fs, h\<lparr>hth_rng := g\<rparr>))
       (mutate_loop (\<lambda>r. r\<lparr>mr7_AllocObjects := mr7_AllocObjects r + 1, mr7_FreeObjects := mr7_FreeObjects r + 1\<rparr>)
          Int63 nmutations fs (hth_rng h))"

section \<open>Stacks and records\<close>



lemma hth_r_same:
  assumes "allocBytes = allocObjects * osize" "freeBytes = freeObjects * osize"
    and "sint (allocObjects * osize) = sint allocObjects * sint osize" "sint (freeObjects * osize) = sint freeObjects * sint osize"
    and "0 < sint allocObjects"
  shows "same_allocations (hth_r allocObjects allocBytes freeObjects freeBytes s) (hth_r127 allocObjects allocBytes freeObjects freeBytes s)"
proof -
  have "i64_div allocBytes allocObjects = osize"
    using assms by (simp add: i64_div_def sdiv_product)
  with assms show ?thesis
    by (simp add: same_allocations_def hth_r_def hth_r127_def)
qed

section \<open>Generated records\<close>

lemma sint_of_int_small: "- (2 ^ 63) \<le> i \<Longrightarrow> i < 2 ^ 63 \<Longrightarrow> sint (word_of_int i :: i64) = i"
  by (simp add: sint_sbintrunc' signed_take_bit_int_eq_self)

lemma smod_range: "0 < n \<Longrightarrow> 0 \<le> k \<Longrightarrow> 0 \<le> k smod n \<and> k smod n < (n :: int)"
  by (cases "k = 0") (simp_all add: signed_modulo_int_def signed_divide_int_def minus_div_mult_eq_mod)

lemma rand_mod_range:
  assumes "0 \<le> sint x"
  shows "0 \<le> sint (rand_mod x 1000000)" and "sint (rand_mod x 1000000) < 1000000"
proof -
  have "0 \<le> sint x smod 1000000" "sint x smod 1000000 < 1000000"
    using smod_range [of 1000000 "sint x"] assms by simp_all
  then show "0 \<le> sint (rand_mod x 1000000)" "sint (rand_mod x 1000000) < 1000000"
    unfolding rand_mod_def by (subst sint_of_int_small; simp)+
qed

text \<open>What \<^verbatim>\<open>rand.Source\<close> promises: its numbers are not negative.\<close>

definition rand_source :: "('g \<Rightarrow> i64 \<times> 'g) \<Rightarrow> bool" where
  "rand_source Int63 \<longleftrightarrow> (\<forall>g. 0 \<le> sint (fst (Int63 g)))"

lemma random_stack_total:
  assumes "rand_source Int63" and "fs \<noteq> []"
  shows "\<exists>stack g'. random_stack Int63 fs depth g = Some (stack, g') \<and> length stack = depth \<and> set stack \<subseteq> set fs"
proof (induction depth arbitrary: g)
  case (Suc depth)
  obtain x g1 where x: "Int63 g = (x, g1)"
    by fastforce
  then have "0 \<le> sint x"
    using assms(1) by (metis fst_conv rand_source_def)
  then have r: "0 \<le> sint x smod int (length fs)" "sint x smod int (length fs) < int (length fs)"
    using smod_range [of "int (length fs)" "sint x"] assms(2) by simp_all
  then obtain i where i: "rand_index x (length fs) = Some i" "i < length fs"
    using assms(2) by (auto simp: rand_index_def)
  obtain stack g' where "random_stack Int63 fs depth g1 = Some (stack, g')" "length stack = depth" "set stack \<subseteq> set fs"
    using Suc by blast
  with x i show ?case
    by simp
qed simp

lemma generate_loop_total:
  assumes "rand_source Int63" and "fs \<noteq> []"
  shows "\<exists>records g'. generate_loop record_of Int63 fs n depth g = Some (records, g') \<and> length records = n \<and>
    (\<forall>r \<in> set records. \<exists>nobj stack. r = record_of nobj stack \<and> 0 \<le> sint nobj \<and> sint nobj < 1000000 \<and>
       length stack = depth \<and> set stack \<subseteq> set fs)"
proof (induction n arbitrary: g)
  case (Suc n)
  obtain x g1 where x: "Int63 g = (x, g1)"
    by fastforce
  then have "0 \<le> sint x"
    using assms(1) by (metis fst_conv rand_source_def)
  moreover obtain stack g2 where s: "random_stack Int63 fs depth g1 = Some (stack, g2)" "length stack = depth" "set stack \<subseteq> set fs"
    using random_stack_total [OF assms] by blast
  moreover obtain records g' where "generate_loop record_of Int63 fs n depth g2 = Some (records, g')" "length records = n"
    "\<forall>r \<in> set records. \<exists>nobj stack. r = record_of nobj stack \<and> 0 \<le> sint nobj \<and> sint nobj < 1000000 \<and>
       length stack = depth \<and> set stack \<subseteq> set fs"
    using Suc by blast
  ultimately show ?case
    using x rand_mod_range [of x] by auto
qed simp

lemma generate_loop_rel:
  assumes "rand_source Int63" and "fs \<noteq> []"
    and rel: "\<And>nobj stack. 0 \<le> sint nobj \<Longrightarrow> sint nobj < 1000000 \<Longrightarrow> R (f nobj stack) (f' nobj stack)"
  shows "\<exists>rs rs' g'. generate_loop f Int63 fs n depth g = Some (rs, g') \<and> generate_loop f' Int63 fs n depth g = Some (rs', g') \<and>
    list_all2 R rs rs'"
proof (induction n arbitrary: g)
  case (Suc n)
  obtain x g1 where x: "Int63 g = (x, g1)"
    by fastforce
  then have "0 \<le> sint x"
    using assms(1) by (metis fst_conv rand_source_def)
  then have "R (f (rand_mod x 1000000) stack) (f' (rand_mod x 1000000) stack)" for stack
    using rel rand_mod_range by blast
  moreover obtain stack g2 where "random_stack Int63 fs depth g1 = Some (stack, g2)"
    using random_stack_total [OF assms(1,2)] by blast
  moreover obtain rs rs' g' where "generate_loop f Int63 fs n depth g2 = Some (rs, g')"
      "generate_loop f' Int63 fs n depth g2 = Some (rs', g')" "list_all2 R rs rs'"
    using Suc by blast
  ultimately show ?case
    using x by auto
qed simp

text \<open>From one source of random numbers, the helpers of both builds make records of the same allocations.\<close>

lemma generated_same:
  assumes "rand_source Int63" and "fs \<noteq> []"
  shows "\<exists>rs rs' h'. generateMemProfileRecords Int63 fs n depth h = Some (rs, h') \<and>
    generateMemProfileRecords127 Int63 fs n depth h = Some (rs', h') \<and> list_all2 same_allocations rs rs'"
proof -
  let ?f = "\<lambda>nobj stack. \<lparr>mr_AllocBytes = nobj * 1024, mr_FreeBytes = nobj * 1024, mr_AllocObjects = nobj,
    mr_FreeObjects = nobj, mr_Stack = stack\<rparr>"
  let ?f' = "\<lambda>nobj stack. \<lparr>mr7_ObjectSize = 1024, mr7_AllocObjects = nobj, mr7_FreeObjects = nobj, mr7_Stack = stack\<rparr>"
  have "same_allocations (?f nobj stack) (?f' nobj stack)" if "0 \<le> sint nobj" "sint nobj < 1000000" for nobj :: i64 and stack
  proof -
    have "sint (nobj * 1024) = sint nobj * 1024"
      using that sint_of_int_small [of "sint nobj * 1024"] by (simp flip: wi_hom_mult)
    with that show ?thesis
      by (auto simp: same_allocations_def less_le dest: sint_eq_0)
  qed
  then obtain rs rs' g' where "generate_loop ?f Int63 fs n depth (hth_rng h) = Some (rs, g')"
    "generate_loop ?f' Int63 fs n depth (hth_rng h) = Some (rs', g')" "list_all2 same_allocations rs rs'"
    using generate_loop_rel [OF assms, of same_allocations ?f ?f' n depth "hth_rng h"] by blast
  then show ?thesis
    by (simp add: generateMemProfileRecords_def generateMemProfileRecords127_def)
qed

section \<open>Dumps and their checks\<close>


lemma hth_dump_ok:
  assumes "pm_inv heap_zero (hth_dp h)" and "\<forall>r \<in> set p. stack_fine env inl (mo_Stack mo r)"
  shows "\<exists>out h'. hth_dump fo mo env p h = Some (out, h') \<and> pm_inv heap_zero (hth_dp h') \<and>
    heap_state (hth_dp h') = heap_next fo mo p (hth_rate h) (heap_state (hth_dp h)) \<and>
    opt_GenericsFrames (hth_opt h') = opt_GenericsFrames (hth_opt h) \<and>
    (opt_GenericsFrames (hth_opt h) \<and> length out < 2 ^ 64 \<longrightarrow>
     profile_of (en_rt env) out (heap_shown env (heap_samples fo mo p (hth_rate h) (heap_state (hth_dp h)))))"
proof -
  let ?G = "opt_GenericsFrames (hth_opt h)"
  let ?zw = "\<lparr>zw_written = [], zw_closed = False\<rparr>"
  obtain b where b: "NewProfileBuilder (en_start env) (en_readMapping env) ?zw (hth_opt h) (HeapProfileConfig (hth_rate h)) = Some b"
    "pb_rep (en_rt env) inl (HeapProfileConfig (hth_rate h)) ?G b []"
    using NewProfileBuilder_rep [of ?zw "en_start env" "en_readMapping env" "hth_opt h" "HeapProfileConfig (hth_rate h)" "en_rt env" inl] by auto
  obtain m' b' where "WriteHeapProto fo mo (en_funcForPC env) (proto_ops (en_rt env) (en_end env)) p (hth_rate h) (hth_dp h) b = Some (m', b')"
    "pm_inv heap_zero m'" "heap_state m' = heap_next fo mo p (hth_rate h) (heap_state (hth_dp h))"
    "pb_final (en_rt env) ?G b' (heap_shown env (heap_samples fo mo p (hth_rate h) (heap_state (hth_dp h))))"
    using pbi.WriteHeapProto_ok [OF b(2) assms(1), of p mo "en_funcForPC env"] assms(2)
    by (fastforce simp: stack_fine_def heap_shown_def)
  then show ?thesis
    using b(1) by (simp add: hth_dump_def compat_WriteHeapProto_def pb_final_def)
qed

text \<open>The profilers of new helpers are empty, as those of the public profilers are.\<close>

lemma new_helpers_ok [simp]:
  "mutex_ok (mth_dp (newMutexTestHelper src))" "opt_GenericsFrames (mth_opt (newMutexTestHelper src))"
  "pm_inv heap_zero (hth_dp (newHeapTestHelper src rate))" "opt_GenericsFrames (hth_opt (newHeapTestHelper src rate))"
  by (simp_all add: newMutexTestHelper_def newHeapTestHelper_def pm_empty_ok)







section \<open>Mutations and totals\<close>

lemma rand_index_ok:
  assumes "rand_source Int63" and "Int63 g = (x, g')" and "0 < n"
  shows "\<exists>k. rand_index x n = Some k \<and> k < n"
proof -
  have "0 \<le> sint x"
    using assms(1,2) by (metis fst_conv rand_source_def)
  then have "0 \<le> sint x smod int n" "sint x smod int n < int n"
    using smod_range [of "int n" "sint x"] assms(3) by simp_all
  then show ?thesis
    using assms(3) by (auto simp: rand_index_def)
qed

lemma sum_list_update_add:
  fixes f :: "'r \<Rightarrow> i64"
  assumes "k < length fs" and "f r = f (fs ! k) + c"
  shows "sum_list (map f (fs[k := r])) = sum_list (map f fs) + c"
  using assms by (induction fs arbitrary: k) (auto split: nat.split simp: algebra_simps)

text \<open>Whatever the numbers, every mutation changes one record, so the total grows by the same amount.\<close>

lemma mutate_loop_total:
  assumes "rand_source Int63" and "fs \<noteq> []" and "\<And>r. f (change r) = f r + (c :: i64)" and "\<And>r. skey (change r) = skey r"
  shows "\<exists>fs' g'. mutate_loop change Int63 n fs g = Some (fs', g') \<and> length fs' = length fs \<and>
    map skey fs' = map skey fs \<and> sum_list (map f fs') = sum_list (map f fs) + of_nat n * c"
  using assms(2)
proof (induction n arbitrary: fs g)
  case (Suc n)
  obtain x g1 where x: "Int63 g = (x, g1)"
    by fastforce
  then obtain k where k: "rand_index x (length fs) = Some k" "k < length fs"
    using rand_index_ok [OF assms(1) x, of "length fs"] Suc.prems by auto
  let ?fs = "fs[k := change (fs ! k)]"
  obtain fs' g' where "mutate_loop change Int63 n ?fs g1 = Some (fs', g')" "length fs' = length ?fs"
    "map skey fs' = map skey ?fs" "sum_list (map f fs') = sum_list (map f ?fs) + of_nat n * c"
    using Suc.IH [of ?fs g1] Suc.prems by auto
  moreover have "map skey ?fs = map skey fs"
    using k(2) assms(4) by (simp add: map_update list_update_same_conv)
  ultimately show ?case
    using x k sum_list_update_add [of k fs f "change (fs ! k)" c] assms(3) by (simp add: algebra_simps)
qed simp

lemma mth_mutate_total:
  assumes "rand_source Int63" and "fs \<noteq> []" and "br_Count (fs ! 0) \<noteq> 0"
  shows "\<exists>fs' h'. mth_mutate Int63 n fs h = Some (fs', h') \<and> map br_Stack fs' = map br_Stack fs \<and>
    sum_list (map br_Count fs') = sum_list (map br_Count fs) + of_nat n \<and> mth_dp h' = mth_dp h"
proof -
  let ?c = "\<lambda>r. r\<lparr>br_Count := br_Count r + 1, br_Cycles := br_Cycles r + i64_div (br_Cycles (fs ! 0)) (br_Count (fs ! 0))\<rparr>"
  obtain fs' g' where "mutate_loop ?c Int63 n fs (mth_rng h) = Some (fs', g')" "map br_Stack fs' = map br_Stack fs"
    "sum_list (map br_Count fs') = sum_list (map br_Count fs) + of_nat n * 1"
    using mutate_loop_total [of Int63 fs br_Count ?c 1 br_Stack n "mth_rng h"] assms(1,2) by auto
  then show ?thesis
    using assms(2,3) by (simp add: mth_mutate_def Let_def)
qed

text \<open>The mutations of a new list of records: with no record, or none counted, the code divides by zero or indexes out of range.\<close>

lemma mth_mutate_panics: "fs = [] \<or> br_Count (fs ! 0) = 0 \<Longrightarrow> mth_mutate Int63 n fs h = None"
  by (simp add: mth_mutate_def)

section \<open>Dumps without a builder\<close>

text \<open>
  A run with the builder that does nothing takes the profilers to the states that a dump takes them to, whatever
  the stacks look like to the runtime.
\<close>

lemma noop_WriteHeapProto:
  assumes "pm_inv heap_zero m" and "\<forall>r \<in> set p. length (mo_Stack mo r) \<le> 1024"
  shows "\<exists>m'. WriteHeapProto fo mo ffp noop_ops p rate m () = Some (m', ()) \<and> pm_inv heap_zero m' \<and>
    heap_state m' = heap_next fo mo p rate (heap_state m)"
  using noop.WriteHeapProto_ok [OF TrueI, of m p mo fo ffp rate] assms by simp

lemma noop_PrintCountCycleProfile:
  assumes "mutex_ok m" and "\<forall>r \<in> set rs. length (br_Stack r) \<le> 1024"
  shows "\<exists>m'. PrintCountCycleProfile fo cps noop_ops sc rs m () = Some (m', ()) \<and> mutex_ok m' \<and>
    mutex_prevs m' = mutex_next fo cps rs (mutex_prevs m)"
  using noop.PrintCountCycleProfile_ok [OF TrueI, of m rs] assms by simp

text \<open>
  The benchmarks measure the work of the profiler alone: with \<^verbatim>\<open>noopBuilder\<close> the heap
  profiler neither panics nor depends on what a builder answers, and every key ends in the state that the dump of the same
  records through the profile builder leaves.
\<close>

lemma noop_builder_state:
  assumes "pm_inv heap_zero (hth_dp h)" and "\<forall>r \<in> set p. stack_fine env inl (mo_Stack mo r)"
  shows "\<exists>m' out h'. WriteHeapProto fo mo ffp noop_ops p (hth_rate h) (hth_dp h) () = Some (m', ()) \<and>
    hth_dump fo mo env p h = Some (out, h') \<and> heap_state (hth_dp h') = heap_state m'"
proof -
  have "\<forall>r \<in> set p. length (mo_Stack mo r) \<le> 1024"
    using assms(2) by (simp add: stack_fine_def)
  from noop_WriteHeapProto [OF assms(1) this] obtain m' where
    "WriteHeapProto fo mo ffp noop_ops p (hth_rate h) (hth_dp h) () = Some (m', ())"
    "heap_state m' = heap_next fo mo p (hth_rate h) (heap_state (hth_dp h))"
    by blast
  then show ?thesis
    using hth_dump_ok [OF assms, of fo] by auto
qed

lemma noop_builder_state_witness:
  "\<exists>m' out h'. WriteHeapProto example_fo go127_ops (\<lambda>a. None) noop_ops [example_mem 5 2] 1 (pm_empty heap_zero) () = Some (m', ()) \<and>
    hth_dump example_fo go127_ops example_env [example_mem 5 2] (newHeapTestHelper (\<lambda>seed. seed) 1) = Some (out, h') \<and>
    heap_state (hth_dp h') = heap_state m'"
  using noop_builder_state [OF new_helpers_ok(3) example_fine [of 5 2], of example_fo "\<lambda>a. None" "\<lambda>seed. seed" 1]
  by (simp add: newHeapTestHelper_def)

end
