(* ===== verification/Spec2Isabelle.thy ===== *)
theory Spec2Isabelle
  imports ProfMap GoDeltaProf Semconv CpuSwitch RemoteRequest Profiler ProcMaps DeltaHandlers SessionLife Baggage TestHelpers
begin

text \<open>
  A verification development for pyroscope-go, the Go client of the Pyroscope continuous
  profiler, and for godeltaprof, the delta profilers it uses.

  \<^bold>\<open>The program.\<close> A profiler (\<^verbatim>\<open>api.go\<close>) owns a session (\<^verbatim>\<open>session.go\<close>) and
  an uploader (\<^verbatim>\<open>upstream/remote/remote.go\<close>).  On every tick the session asks the delta profilers for what
  happened since the last tick and hands upload jobs to the uploader; a background collector
  (\<^verbatim>\<open>collector.go\<close>) does the same with CPU profiles and shares the one CPU profiler of the process with
  foreground users through the switch of \<^verbatim>\<open>internal/pprof\<close>.  Jobs are named by the application name with its
  labels (\<^verbatim>\<open>internal/labelset\<close>, \<^verbatim>\<open>internal/semconv\<close>).  A delta profiler
  (\<^verbatim>\<open>godeltaprof\<close>) reads the runtime's cumulative records, subtracts what it reported before, which it keeps
  in a hash map of stacks, and writes the difference as a profile in the protocol buffer format.

  \<^bold>\<open>The theories.\<close>
  \<^item> \<open>Prelude\<close>: word types and shared lemmas on bytes, lists and words.
  \<^item> \<open>Protobuf\<close> (\<^verbatim>\<open>protobuf.go\<close>): the encoder, with the rotation that puts a message's
    header before its body; a field decoder and its round trip.
  \<^item> \<open>ProfMap\<close> (\<^verbatim>\<open>map.go\<close>): the hash map with its slabs, chains and move-to-front lists; its
    well-formedness invariant and the refinement of a map from (stack, tag) to entries, on any hash function.
  \<^item> \<open>ProfileBuilder\<close>, \<open>ProfileMessages\<close>, \<open>Locations\<close> (\<^verbatim>\<open>proto.go\<close>,
    \<^verbatim>\<open>builder.go\<close>): the builder with its string, function and location tables and the deck of inlined frames;
    what each operation emits; that \<open>LocsForStack\<close> delivers the reference split into inline groups.
  \<^item> \<open>ProfileDecode\<close>: a decoder of profiles, which is not part of the program, and that it inverts the messages.
  \<^item> \<open>BuilderInterface\<close>: the interface the delta profilers use, as the locale \<open>profile_builder\<close>,
    interpreted on the builder; what a finished profile means to a reader.  \<open>ExampleRuntime\<close>: a concrete runtime.
  \<^item> \<open>DeltaCommon\<close>, \<open>DeltaMutex\<close>, \<open>DeltaHeap\<close> (\<^verbatim>\<open>delta_mutex.go\<close>,
    \<^verbatim>\<open>delta_heap.go\<close>, \<^verbatim>\<open>mutex_scale_go20.go\<close>): the two passes over the records and their
    specification per key.
  \<^item> \<open>GoDeltaProf\<close> (\<^verbatim>\<open>heap.go\<close>, \<^verbatim>\<open>block.go\<close>, \<^verbatim>\<open>gzip.go\<close>,
    \<^verbatim>\<open>runtime_profile_go123.go\<close>, \<^verbatim>\<open>runtime_profile_go127.go\<close>): the public profilers, sequences of
    calls and the loops that fetch records.
  \<^item> \<open>GoStrings\<close>: Go's strings as far as the label code uses them: UTF-8, trimming, splitting, numbers.
  \<^item> \<open>LabelSets\<close> (\<^verbatim>\<open>labelset.go\<close>, \<^verbatim>\<open>validate.go\<close>): the label parser as a
    transition per rune, validation, canonical names, tree keys; what parses, what parses back.
  \<^item> \<open>Semconv\<close> (\<^verbatim>\<open>semconv/labels.go\<close>): the merge of tags, session id and defaults, with its
    specification as a map.
  \<^item> \<open>Upstream\<close> (\<^verbatim>\<open>upstream.go\<close>, \<^verbatim>\<open>types.go\<close>, \<^verbatim>\<open>sample_types.go\<close>): jobs,
    profile types and sample type configurations.
  \<^item> \<open>CpuCollector\<close> (\<^verbatim>\<open>collector.go\<close>): the background collector and the CPU profiler of the process
    as a step relation; the invariant that every profile is uploaded once and whole.
  \<^item> \<open>CpuSwitch\<close> (\<^verbatim>\<open>internal/pprof/pprof.go\<close>, \<^verbatim>\<open>http/pprof/pprof.go\<close>): the
    switch between collectors over the locale \<open>cpu_service\<close>, interpreted on both collectors, and the handler.
  \<^item> \<open>RemoteQueue\<close>, \<open>RemoteRequest\<close> (\<^verbatim>\<open>remote.go\<close>): the queue with its workers and
    wait groups as a step relation, and the request of one upload.
  \<^item> \<open>Session\<close> (\<^verbatim>\<open>session.go\<close>, \<^verbatim>\<open>session_id.go\<close>): the dumps of one upload, the loop of
    a session, session ids.  \<open>Profiler\<close> (\<^verbatim>\<open>api.go\<close>): start, stop and flush.
  \<^item> \<open>Lifecycle\<close> (\<^verbatim>\<open>session.go\<close>, \<^verbatim>\<open>collector.go\<close>): the goroutines of a
    session and its callers with the channels, the wait group and the \<^verbatim>\<open>sync.Once\<close> between them, as a step
    relation with its invariant; when \<^verbatim>\<open>Stop\<close> and \<^verbatim>\<open>flush\<close> return and what they leave.
  \<^item> \<open>ElfBuildID\<close> (\<^verbatim>\<open>elf.go\<close>), \<open>ProcMaps\<close> (\<^verbatim>\<open>proto.go\<close>): the reader
    of build ids on the bytes of a file, against the structure of an ELF file; the parser of the process mappings, against a
    printer of maps files.
  \<^item> \<open>DeltaHandlers\<close> (\<^verbatim>\<open>godeltaprof/http/pprof\<close>): the HTTP handlers of the delta profilers.
  \<^item> \<open>Baggage\<close> (\<^verbatim>\<open>x/k6/baggage.go\<close>, \<^verbatim>\<open>TagWrapper\<close> in
    \<^verbatim>\<open>api.go\<close>): the labels of a goroutine while a request is served.
  \<^item> \<open>StackCollapse\<close> (\<^verbatim>\<open>godeltaprof/compat/stackcollapse.go\<close>): how the compatibility
    tests read a profile, and what their checks mean for the specified profile.
  \<^item> \<open>RecordLayouts\<close> (\<^verbatim>\<open>runtime_profile_go123.go\<close>,
    \<^verbatim>\<open>runtime_profile_go127.go\<close>): the two layouts of a memory record, and that the heap profiler
    does the same with both.
  \<^item> \<open>TestHelpers\<close> (\<^verbatim>\<open>testdata.go\<close>, \<^verbatim>\<open>testdata_go123.go\<close>,
    \<^verbatim>\<open>testdata_go127.go\<close>): the helpers that make, change and dump records, the builder that does nothing
    as a second interpretation of \<open>profile_builder\<close>, and a dump followed by a check.
  \<^item> \<open>SessionLife\<close>: the loop of \<open>Session\<close> and the goroutines of \<open>Lifecycle\<close> show the same
    states.
  \<^item> This theory: the composition of a session with the delta heap profiler, and with the queue of the uploader.

  \<^bold>\<open>Conventions.\<close> A Go struct is a record, an enumeration a datatype, an \<^verbatim>\<open>int64\<close> or
  \<^verbatim>\<open>uintptr\<close> a 64-bit word, a map an association list with distinct keys whose order is one iteration order.  An
  error is a value of a sum; a panic is the value \<^const>\<open>None\<close>.  Concurrent code is a step relation whose steps
  are the atomic sections of the code.  Lists that only record what happened (\<open>history\<close>, \<open>accepted\<close>,
  \<open>sent\<close> and the like) are named as such and read by no step.

  \<^bold>\<open>Parameters and bounds.\<close> What is not in the repository is an argument: the runtime's symbol tables, records,
  clock and counters, the hash of a stack, floating point arithmetic, gzip, URL parsing, the HTTP client, random bytes.
  A stack has at most 1024 program counters where a profile is built, which is what the runtime delivers; a longer one
  makes the map panic, and a theorem says so.  A profile is decoded when it is shorter than \<^term>\<open>2 ^ 64 :: nat\<close>
  bytes, so that its lengths fit a varint.  No definition uses fuel: the loops that may run forever are partial
  functions, with a theorem on when they return.

  \<^bold>\<open>What the theorems show.\<close> The outputs of the delta profilers decode to the specified samples, and over any
  number of calls add up to the growth of the totals; canonical names parse back to their labels; every CPU profile is
  uploaded exactly once; the queue loses nothing it accepted until it is stopped, and a flush waits for all of it and
  returns; the switch never leaves a foreground profile without its collector.  Some theorems state what the code does
  against its intent: a heap key whose allocations shrink is counted twice, a label value can inject labels, stopping
  discards queued jobs, a flush hangs a session without CPU profiling and can send intervals that end before they start,
  a flush after a stop never returns, and a stop right after a start can leave a dead collector in the switch.

  Stopping a session ends its goroutines whatever is in progress; a build id is found wherever an ELF file of either class and
  byte order keeps one, and the reader ends on every file; a maps file is read back line by line; each route of the delta
  handlers answers as its profiler alone would; the middleware labels a request exactly like \<^verbatim>\<open>TagWrapper\<close>.
  The builds for Go 1.23 and 1.27 write the same profiles for the same allocations; the sequential loop of a session, over which the
  uploads are specified, has exactly the states that its goroutines have; a test that dumps records and checks the dump passes.

  \<^bold>\<open>Not modelled.\<close> The link-name stubs (\<^verbatim>\<open>stub.go\<close>,
  \<^verbatim>\<open>stub_go23.go\<close>), which declare functions of the runtime that are arguments here; the loggers, which
  only print; the example program, which starts a server with the handlers; and \<^verbatim>\<open>getFunctionPointers\<close>, a table of
  addresses of a test library, which is an argument of the generators of records.
\<close>

section \<open>A session with the delta heap profiler\<close>

text \<open>
  The call \<^verbatim>\<open>ps.deltaHeap.Profile(ps.memBuf)\<close>: the bytes of the profile go through the gzip writer into the
  buffer.
\<close>

definition heap_call ::
    "(u8 list \<Rightarrow> u8 list) \<Rightarrow> 'f float64_ops \<Rightarrow> 'r memRecord_ops \<Rightarrow> prof_env \<Rightarrow> 'r list \<Rightarrow> i64 \<Rightarrow> HeapProfiler \<Rightarrow> dump \<times> HeapProfiler" where
  "heap_call gzip fo mo env p rate h =
     (case HeapProfiler_Profile fo mo env p rate h of
        None \<Rightarrow> (Panicked [], h)
      | Some (out, h') \<Rightarrow> (Wrote (gzip out), h'))"

text \<open>
  C12. The heap profile that a session uploads is the delta: when a collection ran and a heap type is
  enabled, the last job of an upload carries, compressed, a profile that decodes to the specified samples of the records
  against the profiler's state, under the name of the delta profiler and with the interval of the upload.
\<close>

theorem session_heap_upload:
  assumes "isMemEnabled ps" and "heap_due en ps"
    and "\<forall>b. goroutine en \<noteq> Some (b, True)" and "\<forall>b. goroutineleak en \<noteq> Some (b, True)"
    and "heap_Profile en = heap_call gzip fo mo env p rate"
    and "pm_inv heap_zero (hpr_impl (deltaHeap ps))" and "\<forall>r \<in> set p. stack_fine env inl (mo_Stack mo r)"
    and "opt_GenericsFrames (hpr_options (deltaHeap ps))"
  shows "\<exists>out j. last (snd (uploadData en st et (ps, js))) = j \<and> j \<in> set (snd (uploadData en st et (ps, js))) \<and>
    uj_Profile j = gzip out \<and> uj_Name j = Godeltaprof (appNames ps) \<and> uj_StartTime j = st \<and> uj_EndTime j = et \<and>
    uj_SampleTypeConfig j = Some sampleTypeConfigHeap \<and>
    (length out < 2 ^ 64 \<longrightarrow>
     profile_of (en_rt env) out (heap_shown env (heap_samples fo mo p rate (heap_state (hpr_impl (deltaHeap ps))))))"
proof -
  obtain out d' where o: "HeapProfiler_Profile fo mo env p rate (deltaHeap ps) = Some (out, d')"
      "length out < 2 ^ 64 \<longrightarrow>
       profile_of (en_rt env) out (heap_shown env (heap_samples fo mo p rate (heap_state (hpr_impl (deltaHeap ps)))))"
    using HeapProfiler_Profile_ok [OF assms(6,7), of fo rate] assms(8) by blast
  let ?j = "(delta_job (Godeltaprof (appNames ps)) st et (gzip out) sampleTypeConfigHeap)\<lparr>uj_SampleRate := 100\<rparr>"
  have "\<exists>xs. delta_jobs en st et ps = xs @ [?j]"
    using assms(1,2) o(1) by (simp add: delta_jobs_def wrote_job_def assms(5) heap_call_def Let_def)
  then obtain xs where "snd (uploadData en st et (ps, js)) = (js @ goroutine_jobs en st et ps @ xs) @ [?j]"
    using uploadData_jobs [OF assms(3,4), of st et ps js] by auto
  then show ?thesis
    using o(2) by (intro exI [of _ out] exI [of _ ?j]) (simp add: delta_job_def)
qed

definition example_heap_session :: "(HeapProfiler, unit) Session" where
  "example_heap_session = \<lparr>profileTypes = [ProfileInuseSpace], uploadRate = 15 * Second, disableGCRuns = False,
     memBuf = [], goroutinesBuf = [], goroutineLeakBuf = [], mutexBuf = [], blockBuf = [], lastGCGeneration = 0,
     appNames = \<lparr>SDK = ''sdk{}'', Godeltaprof = ''delta{}''\<rparr>, startTime = Some 0,
     deltaBlock = (), deltaMutex = (), deltaHeap = NewHeapProfiler, loop = Running, cpuLoop = False\<rparr>"

definition example_heap_snapshot :: "(HeapProfiler, unit) snapshot" where
  "example_heap_snapshot = \<lparr>goroutine = None, goroutineleak = None,
     heap_Profile = heap_call id example_fo go127_ops example_env [example_mem 5 2] 1,
     block_Profile = (\<lambda>b. (Wrote [], b)), mutex_Profile = (\<lambda>b. (Wrote [], b)), numGC = 1, numGC_after_GC = 1\<rparr>"

theorem session_heap_upload_witness:
  "\<exists>out j. j \<in> set (snd (uploadData example_heap_snapshot 0 15 (example_heap_session, []))) \<and>
     uj_Profile j = out \<and> uj_Name j = ''delta{}'' \<and>
     (length out < 2 ^ 64 \<longrightarrow> profile_of example_rt out
        (heap_shown example_env (heap_samples example_fo go127_ops [example_mem 5 2] 1 (heap_state (hpr_impl NewHeapProfiler)))))"
proof -
  have "isMemEnabled example_heap_session" "heap_due example_heap_snapshot example_heap_session"
    by (simp_all add: example_heap_session_def example_heap_snapshot_def isMemEnabled_def heap_due_def profile_types)
  moreover have "heap_Profile example_heap_snapshot = heap_call id example_fo go127_ops example_env [example_mem 5 2] 1"
      "goroutine example_heap_snapshot = None" "goroutineleak example_heap_snapshot = None"
    by (simp_all add: example_heap_snapshot_def)
  ultimately show ?thesis
    using session_heap_upload [of example_heap_session example_heap_snapshot id example_fo go127_ops example_env
        "[example_mem 5 2]" 1 example_inl 0 15 "[]"] example_fine
    by (fastforce simp: example_heap_session_def NewHeapProfiler_def pm_empty_ok example_env_def)
qed

section \<open>From a tick to the server\<close>












end
